(* ===== verification/Prelude.thy ===== *)
theory Prelude
  imports Main "HOL-Library.Sublist" "HOL-Library.Char_ord" "HOL-Library.List_Lexorder"
    "HOL-Library.Multiset"
begin

section \<open>Prelude: shared types, automation and generic facts\<close>

text \<open>
  Nothing here models a particular file of the plugin. The theory holds the collections of
  facts the component theories share, the result type of fallible Go functions, and facts
  about lists and association lists that more than one component needs.

  \<^item> \<open>go_str\<close> collects rewrite rules about Go's string functions (theory GoStrings).
  \<^item> \<open>keeps\<close> collects the facts that an operation preserves an invariant.
  \<^item> A Go function that returns \<open>(T, error)\<close> returns \<open>'e + 'a\<close> here, \<open>Inl\<close> for the error.
  \<^item> A \<^verbatim>\<open>map[string]V\<close> is an association list whose order is one order in which Go
    may iterate over the map. Go's iteration order is random, so a fact about the code must
    not depend on it; the permutation facts below are what such proofs use.
\<close>

named_theorems go_str
named_theorems keeps

type_synonym ('e, 'a) result = "'e + 'a"

type_synonym 'v go_map = "(string \<times> 'v) list"

abbreviation byte :: "char \<Rightarrow> int" where
  "byte c \<equiv> of_char c"

subsection \<open>Results\<close>

definition is_ok :: "('e, 'a) result \<Rightarrow> bool" where
  "is_ok r = (case r of Inl _ \<Rightarrow> False | Inr _ \<Rightarrow> True)"

lemma is_ok_simps [simp]: "is_ok (Inr x)" "\<not> is_ok (Inl e)"
  by (simp_all add: is_ok_def)

lemma case_sum_Inr_iff:
  "(case r of Inl e \<Rightarrow> Inl e | Inr x \<Rightarrow> f x) = Inr y \<longleftrightarrow> (\<exists>x. r = Inr x \<and> f x = Inr y)"
  by (cases r) auto

lemma case_option_Inr_iff:
  "(case r of None \<Rightarrow> Inl e | Some x \<Rightarrow> f x) = Inr y \<longleftrightarrow> (\<exists>x. r = Some x \<and> f x = Inr y)"
  by (cases r) auto

lemma map_sum_Inr_iff: "map_sum f g x = Inr y \<longleftrightarrow> (\<exists>z. x = Inr z \<and> y = g z)"
  by (cases x) auto

subsection \<open>Lists\<close>

lemma find_None_prefix:
  assumes "find (\<lambda>p. prefix p s) ps = None" and "prefix r s"
  shows "find (\<lambda>p. prefix p r) ps = None"
  using assms by (auto simp: find_None_iff dest: prefix_order.order_trans)

lemma sublist_drop_take: "sublist (take n (drop m xs)) xs"
  by (meson sublist_drop sublist_order.order_trans sublist_take)

lemma sublist_of_prefix_suffix: "prefix ys zs \<Longrightarrow> suffix zs xs \<Longrightarrow> sublist ys xs"
  by (meson prefix_imp_sublist sublist_order.order_trans suffix_imp_sublist)

lemma subseq_distinct: "subseq xs ys \<Longrightarrow> distinct ys \<Longrightarrow> distinct xs"
  by (auto simp: subseq_conv_nths)

lemma distinct_map_of_perm:
  assumes "mset xs = mset ys" and "distinct (map fst xs)"
  shows "map_of xs k = map_of ys k"
proof -
  have d: "distinct (map fst ys)"
    using assms by (metis distinct_map mset_eq_imp_distinct_iff mset_map)
  have "set xs = set ys" using assms(1) by (rule mset_eq_setD)
  then show ?thesis
    using assms(2) d by (metis map_of_inject_set)
qed

subsection \<open>Updating a map\<close>

definition put_entry :: "string \<Rightarrow> 'v \<Rightarrow> 'v go_map \<Rightarrow> 'v go_map" where
  "put_entry k v m =
     (if k \<in> fst ` set m then map (\<lambda>(k', v'). if k' = k then (k, v) else (k', v')) m
      else m @ [(k, v)])"

lemma map_fst_put_entry:
  "map fst (put_entry k v m) = (if k \<in> fst ` set m then map fst m else map fst m @ [k])"
  by (auto simp: put_entry_def)

lemma put_entry_distinct [keeps]:
  "distinct (map fst m) \<Longrightarrow> distinct (map fst (put_entry k v m))"
  by (auto simp: map_fst_put_entry)

lemma map_of_put_entry [simp]: "map_of (put_entry k v m) = (map_of m)(k \<mapsto> v)"
proof -
  have "map_of (map (\<lambda>(k', v'). if k' = k then (k, v) else (k', v')) m) =
      (if k \<in> fst ` set m then (map_of m)(k \<mapsto> v) else map_of m)"
    by (induction m) (auto split: if_splits)
  moreover have "k \<notin> fst ` set m \<Longrightarrow> map_of m k = None"
    by (simp add: map_of_eq_None_iff)
  ultimately show ?thesis by (auto simp: put_entry_def map_add_def split: option.splits)
qed

text \<open>A sum over the entries changes by the difference at the entry that is put.\<close>

lemma sum_put_entry:
  fixes f :: "'v \<Rightarrow> 'a::ab_group_add"
  assumes "distinct (map fst m)"
  shows "sum_list (map (\<lambda>e. f (snd e)) (put_entry k v m)) =
    sum_list (map (\<lambda>e. f (snd e)) m) + f v - (case map_of m k of None \<Rightarrow> 0 | Some w \<Rightarrow> f w)"
proof (cases "k \<in> fst ` set m")
  case True
  have "distinct (map fst m) \<Longrightarrow> k \<in> fst ` set m \<Longrightarrow>
      sum_list (map (\<lambda>e. f (snd e)) (map (\<lambda>(k', v'). if k' = k then (k, v) else (k', v')) m)) =
      sum_list (map (\<lambda>e. f (snd e)) m) + f v - f (the (map_of m k))"
  proof (induction m)
    case (Cons e m)
    obtain k' w where e: "e = (k', w)" by (cases e)
    show ?case
    proof (cases "k' = k")
      case True
      with Cons.prems e have "map (\<lambda>(k', v'). if k' = k then (k, v) else (k', v')) m = m"
        by (intro map_idI) (auto simp: rev_image_eqI)
      with True e show ?thesis by simp
    next
      case False
      with Cons e show ?thesis by (auto simp: algebra_simps)
    qed
  qed simp
  with True assms obtain w where "map_of m k = Some w"
    "sum_list (map (\<lambda>e. f (snd e)) (put_entry k v m)) = sum_list (map (\<lambda>e. f (snd e)) m) + f v - f w"
    by (cases "map_of m k") (auto simp: put_entry_def map_of_eq_None_iff)
  then show ?thesis by simp
next
  case False
  then have "map_of m k = None" by (simp add: map_of_eq_None_iff)
  with False show ?thesis by (simp add: put_entry_def)
qed

end
