(* ===== verification/GoStrings.thy ===== *)
theory GoStrings
  imports Prelude
begin

section \<open>Go's strings package\<close>

text \<open>
  A Go string is a sequence of bytes, and so is a \<open>string\<close> here: a \<open>char\<close> is one byte, and a
  rune beyond ASCII is the bytes of its UTF-8 encoding. The functions of the standard library
  that the plugin calls are modelled on bytes.

  \<^item> \<open>trim_space\<close>, \<open>fields\<close>: every rune for which \<^verbatim>\<open>unicode.IsSpace\<close> holds is listed in
    \<open>space_runes\<close> by its encoding. A lead byte never occurs inside another rune, so matching
    encodings is what decoding rune by rune does, also on invalid UTF-8.
  \<^item> \<open>to_lower\<close>: ASCII letters, and the two runes beyond ASCII whose lower case is an ASCII
    letter (U+0130 and U+212A, the Kelvin sign). Other bytes stay as they are. A comparison of
    the result with an ASCII literal is therefore exact for every input; a comparison of two
    lowered strings is exact unless they contain further cased letters beyond ASCII.
  \<^item> \<open>fold_key\<close>: the key of simple case folding for \<^verbatim>\<open>strings.EqualFold\<close>. ASCII letters fold
    with their other case, the long s (U+017F) with s and the Kelvin sign with k.
\<close>

subsection \<open>White space\<close>

definition space_runes :: "string list" where
  "space_runes =
     [[CHR 0x20], [CHR 0x09], [CHR 0x0A], [CHR 0x0B], [CHR 0x0C], [CHR 0x0D],
      [CHR 0xC2, CHR 0x85], [CHR 0xC2, CHR 0xA0], [CHR 0xE1, CHR 0x9A, CHR 0x80],
      [CHR 0xE2, CHR 0x80, CHR 0x80], [CHR 0xE2, CHR 0x80, CHR 0x81],
      [CHR 0xE2, CHR 0x80, CHR 0x82], [CHR 0xE2, CHR 0x80, CHR 0x83],
      [CHR 0xE2, CHR 0x80, CHR 0x84], [CHR 0xE2, CHR 0x80, CHR 0x85],
      [CHR 0xE2, CHR 0x80, CHR 0x86], [CHR 0xE2, CHR 0x80, CHR 0x87],
      [CHR 0xE2, CHR 0x80, CHR 0x88], [CHR 0xE2, CHR 0x80, CHR 0x89],
      [CHR 0xE2, CHR 0x80, CHR 0x8A], [CHR 0xE2, CHR 0x80, CHR 0xA8],
      [CHR 0xE2, CHR 0x80, CHR 0xA9], [CHR 0xE2, CHR 0x80, CHR 0xAF],
      [CHR 0xE2, CHR 0x81, CHR 0x9F], [CHR 0xE3, CHR 0x80, CHR 0x80]]"

definition starts_with_any :: "string list \<Rightarrow> string \<Rightarrow> string option" where
  "starts_with_any ps s = find (\<lambda>p. prefix p s) ps"

text \<open>Dropping leading patterns; the patterns are never empty.\<close>

function strip_any :: "string list \<Rightarrow> string \<Rightarrow> string" where
  "strip_any ps s =
     (case starts_with_any ps s of
        None \<Rightarrow> s
      | Some p \<Rightarrow> if p = [] then s else strip_any ps (drop (length p) s))"
  by pat_completeness auto
termination
  by (relation "measure (\<lambda>(ps, s). length s)")
    (auto simp: starts_with_any_def find_Some_iff prefix_def)

declare strip_any.simps [simp del]

definition trim_left :: "string \<Rightarrow> string" where
  "trim_left s = strip_any space_runes s"

definition trim_right :: "string \<Rightarrow> string" where
  "trim_right s = rev (strip_any (map rev space_runes) (rev s))"

definition trim_space :: "string \<Rightarrow> string" where
  "trim_space s = trim_right (trim_left s)"

lemma starts_with_any_Some: "starts_with_any ps s = Some p \<Longrightarrow> p \<in> set ps \<and> prefix p s"
  by (auto simp: starts_with_any_def find_Some_iff)

lemma starts_with_any_Nil [simp]: "[] \<notin> set ps \<Longrightarrow> starts_with_any ps [] = None"
  by (auto simp: starts_with_any_def find_None_iff)

lemma space_runes_nonempty [simp]: "[] \<notin> set space_runes"
  by (simp add: space_runes_def)

lemma strip_any_Nil [simp]: "[] \<notin> set ps \<Longrightarrow> strip_any ps [] = []"
  by (subst strip_any.simps) simp

lemma strip_any_done: "starts_with_any ps s = None \<Longrightarrow> strip_any ps s = s"
  by (subst strip_any.simps) simp

lemma strip_any_fixed:
  "[] \<notin> set ps \<Longrightarrow> starts_with_any ps (strip_any ps s) = None"
proof (induction ps s rule: strip_any.induct)
  case (1 ps s)
  show ?case
  proof (cases "starts_with_any ps s")
    case None
    then show ?thesis by (simp add: strip_any_done)
  next
    case (Some p)
    then have "p \<noteq> []" using 1 by (auto dest: starts_with_any_Some)
    with Some 1 show ?thesis by (subst strip_any.simps) simp
  qed
qed

lemma strip_any_suffix: "suffix (strip_any ps s) s"
proof (induction ps s rule: strip_any.induct)
  case (1 ps s)
  show ?case
  proof (cases "starts_with_any ps s")
    case None
    then show ?thesis by (simp add: strip_any_done)
  next
    case (Some p)
    then show ?thesis using 1
      by (subst strip_any.simps)
        (auto intro: suffix_order.order_trans suffix_drop)
  qed
qed

lemma strip_any_idem [simp]:
  "[] \<notin> set ps \<Longrightarrow> strip_any ps (strip_any ps s) = strip_any ps s"
  by (rule strip_any_done) (rule strip_any_fixed)

lemma rev_space_runes_nonempty [simp]: "[] \<notin> rev ` set space_runes"
  by (auto simp: space_runes_def)

lemma trim_left_suffix: "suffix (trim_left s) s"
  by (simp add: trim_left_def strip_any_suffix)

lemma trim_right_prefix: "prefix (trim_right s) s"
proof -
  have "suffix (strip_any (map rev space_runes) (rev s)) (rev s)"
    by (rule strip_any_suffix)
  then show ?thesis by (simp add: trim_right_def suffix_to_prefix)
qed

lemma trim_left_fixed: "starts_with_any space_runes (trim_left s) = None"
  by (simp add: trim_left_def strip_any_fixed)

lemma trim_right_idem [simp]: "trim_right (trim_right s) = trim_right s"
  by (simp add: trim_right_def)

lemma trim_left_trim_space [simp]: "trim_left (trim_space s) = trim_space s"
proof -
  have "starts_with_any space_runes (trim_space s) = None"
    using trim_left_fixed [of s] trim_right_prefix [of "trim_left s"]
    by (simp add: trim_space_def starts_with_any_def find_None_prefix)
  then show ?thesis by (simp add: trim_left_def strip_any_done)
qed

lemma trim_right_trim_space [simp]: "trim_right (trim_space s) = trim_space s"
  by (simp add: trim_space_def)

lemma trim_space_idem [simp, go_str]: "trim_space (trim_space s) = trim_space s"
  by (simp add: trim_space_def [of "trim_space s"])

lemma trim_space_Nil [simp, go_str]: "trim_space [] = []"
  by (simp add: trim_space_def trim_left_def trim_right_def)

lemma trim_space_sublist: "sublist (trim_space s) s"
  unfolding trim_space_def
  by (rule sublist_of_prefix_suffix [OF trim_right_prefix trim_left_suffix])

lemma trim_space_set: "set (trim_space s) \<subseteq> set s"
  using trim_space_sublist set_mono_sublist by blast

lemma trim_space_length: "length (trim_space s) \<le> length s"
  using trim_space_sublist sublist_length_le by blast

text \<open>A string with no white space at either end is left alone.\<close>

lemma trim_space_ascii_head:
  assumes "trim_space s = c # t"
  shows "c \<notin> {CHR 0x20, CHR 0x09, CHR 0x0A, CHR 0x0B, CHR 0x0C, CHR 0x0D}"
proof -
  have "starts_with_any space_runes (c # t) = None"
    using trim_left_fixed [of "trim_space s"] assms by (metis trim_left_trim_space)
  then show ?thesis
    by (auto simp: starts_with_any_def find_None_iff space_runes_def)
qed

lemma trim_space_fixed:
  assumes "s = c # t" "33 \<le> byte c \<and> byte c < 128" "33 \<le> byte (last s) \<and> byte (last s) < 128"
  shows "trim_space s = s"
proof -
  have sp: "list_all (\<lambda>p. (byte (hd p) < 33 \<or> 128 \<le> byte (hd p)) \<and>
      (byte (last p) < 33 \<or> 128 \<le> byte (last p))) space_runes"
    by code_simp
  have "\<not> prefix p s" if "p \<in> set space_runes" for p
  proof
    assume "prefix p s"
    with that space_runes_nonempty have "hd s = hd p"
      by (metis prefix_def hd_append2)
    with that sp assms(1,2) show False by (auto simp: list_all_iff)
  qed
  then have l: "starts_with_any space_runes s = None"
    by (simp add: starts_with_any_def find_None_iff)
  have "\<not> suffix p s" if "p \<in> set space_runes" for p
  proof
    assume "suffix p s"
    with that space_runes_nonempty have "last s = last p"
      by (metis suffix_def last_appendR)
    with that sp assms(3) show False by (auto simp: list_all_iff)
  qed
  then have "starts_with_any (map rev space_runes) (rev s) = None"
    by (simp add: starts_with_any_def find_None_iff suffix_to_prefix)
  with l show ?thesis
    by (simp add: trim_space_def trim_left_def trim_right_def strip_any_done)
qed

text \<open>Stripping does not go past a character that is in no pattern.\<close>

lemma strip_any_barrier:
  assumes "\<forall>p \<in> set ps. c \<notin> set p"
  shows "suffix (c # t) (strip_any ps (s @ c # t))"
proof (induction "length s" arbitrary: s rule: less_induct)
  case less
  show ?case
  proof (cases "starts_with_any ps (s @ c # t)")
    case None
    then show ?thesis by (simp add: strip_any_done suffix_def)
  next
    case (Some p)
    then have p: "p \<in> set ps" "prefix p (s @ c # t)" by (auto dest: starts_with_any_Some)
    have "prefix p s"
    proof (rule ccontr)
      assume "\<not> prefix p s"
      with p(2) obtain r where "p = s @ r" "prefix r (c # t)" "r \<noteq> []"
        by (auto simp: prefix_append)
      then have "c \<in> set p" by (cases r) auto
      with p(1) assms show False by blast
    qed
    then obtain s' where s': "s = p @ s'" by (auto simp: prefix_def)
    show ?thesis
    proof (cases "p = []")
      case True
      with Some show ?thesis by (subst strip_any.simps) (simp add: suffix_def)
    next
      case False
      with s' less [of s'] have "suffix (c # t) (strip_any ps (s' @ c # t))" by simp
      with Some False s' show ?thesis by (subst strip_any.simps) simp
    qed
  qed
qed

lemma graph_char_not_space:
  assumes "33 \<le> byte c \<and> byte c < 128" "p \<in> set space_runes"
  shows "c \<notin> set p"
proof -
  have "list_all (list_all (\<lambda>x. byte x < 33 \<or> 128 \<le> byte x)) space_runes" by code_simp
  with assms(2) have "\<forall>x \<in> set p. byte x < 33 \<or> 128 \<le> byte x" by (simp add: list_all_iff)
  with assms(1) show ?thesis by force
qed

lemma trim_space_keeps_head:
  assumes "33 \<le> byte c \<and> byte c < 128" "33 \<le> byte d \<and> byte d < 128"
  shows "prefix (c # m @ [d]) (trim_space (c # m @ d # t))"
proof -
  have "starts_with_any space_runes (c # m @ d # t) = None"
    using graph_char_not_space [OF assms(1)]
    by (auto simp: starts_with_any_def find_None_iff prefix_Cons)
      (metis list.set_intros(1) space_runes_nonempty)
  then have l: "trim_left (c # m @ d # t) = c # m @ d # t"
    by (simp add: trim_left_def strip_any_done)
  have "suffix (d # rev (c # m)) (strip_any (map rev space_runes) (rev t @ d # rev (c # m)))"
    using graph_char_not_space [OF assms(2)] by (intro strip_any_barrier) auto
  then have "prefix (rev (d # rev (c # m))) (trim_right (c # m @ d # t))"
    by (simp add: trim_right_def suffix_to_prefix)
  then show ?thesis by (simp add: trim_space_def l)
qed

subsection \<open>Case\<close>

definition lower_char :: "char \<Rightarrow> char" where
  "lower_char c = (if 65 \<le> byte c \<and> byte c \<le> 90 then char_of (byte c + 32) else c)"

text \<open>
  \<^verbatim>\<open>strings.ToLower\<close>: the Kelvin sign is the bytes E2 84 AA, U+0130 the bytes C4 B0.
\<close>

fun to_lower :: "string \<Rightarrow> string" where
  "to_lower [] = []"
| "to_lower (c # s) =
     (if prefix [CHR 0xE2, CHR 0x84, CHR 0xAA] (c # s) then CHR ''k'' # to_lower (drop 2 s)
      else if prefix [CHR 0xC4, CHR 0xB0] (c # s) then CHR ''i'' # to_lower (drop 1 s)
      else lower_char c # to_lower s)"

text \<open>
  The folding key of \<^verbatim>\<open>strings.EqualFold\<close>: the long s is the bytes C5 BF.
\<close>

fun fold_key :: "string \<Rightarrow> string" where
  "fold_key [] = []"
| "fold_key (c # s) =
     (if prefix [CHR 0xE2, CHR 0x84, CHR 0xAA] (c # s) then CHR ''k'' # fold_key (drop 2 s)
      else if prefix [CHR 0xC5, CHR 0xBF] (c # s) then CHR ''s'' # fold_key (drop 1 s)
      else lower_char c # fold_key s)"

definition equal_fold :: "string \<Rightarrow> string \<Rightarrow> bool" where
  "equal_fold s t = (fold_key s = fold_key t)"

definition ascii :: "string \<Rightarrow> bool" where
  "ascii s = list_all (\<lambda>c. byte c < 128) s"

lemma byte_lower_char: "byte (lower_char c) = (if 65 \<le> byte c \<and> byte c \<le> 90 then byte c + 32 else byte c)"
  by (auto simp: lower_char_def)

lemma lower_char_idem [simp]: "lower_char (lower_char c) = lower_char c"
  by (auto simp: lower_char_def)

lemma lower_char_high: "128 \<le> byte (lower_char c) \<longleftrightarrow> 128 \<le> byte c"
  by (auto simp: byte_lower_char)

lemma lower_char_fixed_high: "128 \<le> byte c \<Longrightarrow> lower_char c = c"
  by (auto simp: lower_char_def)

lemma byte_kelvin [simp]: "byte (CHR 0xE2) = 226" "byte (CHR 0x84) = 132" "byte (CHR 0xAA) = 170"
  "byte (CHR 0xC4) = 196" "byte (CHR 0xB0) = 176" "byte (CHR 0xC5) = 197" "byte (CHR 0xBF) = 191"
  by code_simp+

lemma to_lower_ascii: "ascii s \<Longrightarrow> to_lower s = map lower_char s"
  by (induction s) (auto simp: ascii_def)

lemma fold_key_ascii: "ascii s \<Longrightarrow> fold_key s = map lower_char s"
  by (induction s) (auto simp: ascii_def)

text \<open>
  A run of bytes that are no ASCII letters and stand in the lowered string was in the string
  itself: every rune that is replaced becomes an ASCII letter. Lowering twice is therefore
  lowering once, and lowering neither makes nor removes white space.
\<close>

definition uncased :: "char \<Rightarrow> bool" where
  "uncased c = (byte c < 65 \<or> 128 \<le> byte c)"

lemma lower_char_uncased: "uncased (lower_char c) \<Longrightarrow> lower_char c = c"
  by (auto simp: uncased_def lower_char_def split: if_splits)

lemma ki_cased [simp]: "\<not> uncased CHR ''k''" "\<not> uncased CHR ''i''"
  by code_simp+

text \<open>What \<open>to_lower\<close> does with the first byte, as one case rule.\<close>

lemma to_lower_Cons_cases:
  obtains x s' where "to_lower (c # s) = x # to_lower s'" "\<not> uncased x" "suffix s' s"
    | "to_lower (c # s) = lower_char c # to_lower s"
proof -
  have "suffix (drop 2 s) s" "suffix (drop 1 s) s" by (rule suffix_drop)+
  with that show ?thesis
    by (cases "prefix [CHR 0xE2, CHR 0x84, CHR 0xAA] (c # s)"; cases "prefix [CHR 0xC4, CHR 0xB0] (c # s)")
      (metis to_lower.simps(2) ki_cased)+
qed

lemma to_lower_uncased_prefix:
  "prefix p (to_lower s) \<Longrightarrow> \<forall>c \<in> set p. uncased c \<Longrightarrow> prefix p s"
proof (induction s arbitrary: p)
  case (Cons c s)
  show ?case
  proof (cases p)
    case (Cons d q)
    show ?thesis
    proof (cases rule: to_lower_Cons_cases [of c s])
      case (1 x s')
      with Cons.prems Cons show ?thesis by auto
    next
      case 2
      with Cons.prems Cons have "d = c" "prefix q (to_lower s)" "\<forall>c \<in> set q. uncased c"
        by (auto dest: lower_char_uncased)
      with Cons.IH Cons show ?thesis by auto
    qed
  qed simp
qed simp

lemma to_lower_uncased_id: "\<forall>c \<in> set (to_lower s). uncased c \<Longrightarrow> to_lower s = s"
proof (induction s)
  case (Cons c s)
  show ?case
  proof (cases rule: to_lower_Cons_cases [of c s])
    case (1 x s')
    with Cons.prems show ?thesis by auto
  next
    case 2
    with Cons show ?thesis by (auto dest: lower_char_uncased)
  qed
qed simp

lemma to_lower_uncased_suffix:
  "suffix p (to_lower s) \<Longrightarrow> \<forall>c \<in> set p. uncased c \<Longrightarrow> suffix p s"
proof (induction s arbitrary: p rule: length_induct)
  case (1 s)
  show ?case
  proof (cases s)
    case (Cons c t)
    obtain x t' where x: "to_lower s = x # to_lower t'" and t': "suffix t' t"
      using Cons by (cases rule: to_lower_Cons_cases [of c t]) auto
    then consider "p = to_lower s" | "suffix p (to_lower t')"
      using 1(2) by (auto simp: suffix_Cons)
    then show ?thesis
    proof cases
      case 1
      with "1.prems"(2) show ?thesis by (metis suffix_order.refl to_lower_uncased_id)
    next
      case 2
      have "length t' < length s" using t' Cons by (auto dest: suffix_length_le)
      with 1(1,3) 2 have "suffix p t'" by blast
      with t' Cons show ?thesis by (meson suffix_ConsI suffix_order.order_trans)
    qed
  qed (use 1 in simp)
qed

lemma to_lower_ascii_head:
  assumes "byte c < 128"
  shows "to_lower (c # s) = lower_char c # to_lower s"
proof -
  have "c \<noteq> CHR 0xE2" "c \<noteq> CHR 0xC4" using assms by auto
  then show ?thesis by simp
qed

lemma to_lower_idem [simp, go_str]: "to_lower (to_lower s) = to_lower s"
proof (induction s rule: to_lower.induct)
  case (2 c s)
  have hi: "\<forall>c \<in> set [CHR 0xE2, CHR 0x84, CHR 0xAA]. uncased c"
    "\<forall>c \<in> set [CHR 0xC4, CHR 0xB0]. uncased c"
    by (simp_all add: uncased_def)
  have lk: "lower_char CHR ''k'' = CHR ''k''" "lower_char CHR ''i'' = CHR ''i''"
    "(byte CHR ''k'' :: int) < 128" "(byte CHR ''i'' :: int) < 128"
    by code_simp+
  let ?K = "prefix [CHR 0xE2, CHR 0x84, CHR 0xAA] (c # s)"
  let ?I = "prefix [CHR 0xC4, CHR 0xB0] (c # s)"
  consider ?K | "\<not> ?K" ?I | "\<not> ?K" "\<not> ?I" by blast
  then show ?case
  proof cases
    case 1
    then have "to_lower (c # s) = CHR ''k'' # to_lower (drop 2 s)" by (simp only: to_lower.simps if_True)
    then show ?thesis using "2.IH"(1) [OF 1] lk by (simp only: to_lower_ascii_head)
  next
    case 2
    then have "to_lower (c # s) = CHR ''i'' # to_lower (drop 1 s)"
      by (simp only: to_lower.simps if_True if_False)
    then show ?thesis using "2.IH"(2) [OF 2] lk by (simp only: to_lower_ascii_head)
  next
    case 3
    then have e: "to_lower (c # s) = lower_char c # to_lower s"
      by (simp only: to_lower.simps if_False)
    have "\<not> prefix [CHR 0xE2, CHR 0x84, CHR 0xAA] (lower_char c # to_lower s)"
      "\<not> prefix [CHR 0xC4, CHR 0xB0] (lower_char c # to_lower s)"
      using to_lower_uncased_prefix [of _ "c # s"] hi 3 unfolding e by blast+
    then show ?thesis unfolding e
      by (simp only: to_lower.simps if_False "2.IH"(3) [OF 3] lower_char_idem)
  qed
qed simp

lemma space_runes_uncased: "p \<in> set space_runes \<Longrightarrow> c \<in> set p \<Longrightarrow> uncased c"
proof -
  have "list_all (list_all uncased) space_runes" by code_simp
  then show "p \<in> set space_runes \<Longrightarrow> c \<in> set p \<Longrightarrow> uncased c" by (auto simp: list_all_iff)
qed

lemma trim_space_to_lower_trimmed [go_str]:
  assumes "trim_space s = s"
  shows "trim_space (to_lower s) = to_lower s"
proof -
  have l: "starts_with_any space_runes s = None"
    using trim_left_fixed [of "trim_space s"] assms by (metis trim_left_trim_space)
  then have l': "starts_with_any space_runes (to_lower s) = None"
    using to_lower_uncased_prefix space_runes_uncased
    by (fastforce simp: starts_with_any_def find_None_iff)
  have "starts_with_any (map rev space_runes) (rev (trim_space s)) = None"
    by (simp add: trim_space_def trim_right_def strip_any_fixed)
  then have "\<forall>p \<in> set space_runes. \<not> suffix p s"
    using assms by (simp add: starts_with_any_def find_None_iff suffix_to_prefix)
  then have "\<forall>p \<in> set space_runes. \<not> suffix p (to_lower s)"
    using to_lower_uncased_suffix space_runes_uncased by blast
  then have r': "starts_with_any (map rev space_runes) (rev (to_lower s)) = None"
    by (simp add: starts_with_any_def find_None_iff suffix_to_prefix)
  from l' r' show ?thesis
    by (simp add: trim_space_def trim_left_def trim_right_def strip_any_done)
qed

lemma to_lower_eq_Nil [simp]: "to_lower s = [] \<longleftrightarrow> s = []"
  by (cases s) simp_all

subsection \<open>Searching, cutting and replacing\<close>

text \<open>\<^verbatim>\<open>strings.Index\<close>, with \<open>None\<close> for -1.\<close>

fun index_of :: "string \<Rightarrow> string \<Rightarrow> nat option" where
  "index_of sub [] = (if sub = [] then Some 0 else None)"
| "index_of sub (c # s) =
     (if prefix sub (c # s) then Some 0 else map_option Suc (index_of sub s))"

definition contains :: "string \<Rightarrow> string \<Rightarrow> bool" where
  "contains s sub = (index_of sub s \<noteq> None)"

definition contains_any :: "string \<Rightarrow> string \<Rightarrow> bool" where
  "contains_any s chars = list_ex (\<lambda>c. List.member chars c) s"

definition trim_prefix :: "string \<Rightarrow> string \<Rightarrow> string" where
  "trim_prefix s p = (if prefix p s then drop (length p) s else s)"

text \<open>\<^verbatim>\<open>strings.Trim(s, cutset)\<close> for an ASCII cut set.\<close>

definition trim_chars :: "string \<Rightarrow> string \<Rightarrow> string" where
  "trim_chars s cutset =
     rev (dropWhile (List.member cutset) (rev (dropWhile (List.member cutset) s)))"

text \<open>
  \<^verbatim>\<open>strings.Split\<close>, \<^verbatim>\<open>strings.SplitN(s, sep, 2)\<close> and \<^verbatim>\<open>strings.ReplaceAll\<close>. The separator
  (the old text) is a non-empty literal at every call of the plugin.
\<close>

function split_on :: "string \<Rightarrow> string \<Rightarrow> string list" where
  "split_on sep s =
     (case index_of sep s of
        None \<Rightarrow> [s]
      | Some i \<Rightarrow> if sep = [] then [s] else take i s # split_on sep (drop (i + length sep) s))"
  by pat_completeness auto

lemma index_of_Some: "index_of sub s = Some i \<Longrightarrow> prefix sub (drop i s) \<and> i \<le> length s"
proof (induction sub s arbitrary: i rule: index_of.induct)
  case (2 sub c s)
  then show ?case
  proof (cases "prefix sub (c # s)")
    case False
    with 2(2) obtain j where "index_of sub s = Some j" "i = Suc j" by auto
    with 2(1) [OF False] show ?thesis by simp
  qed simp
qed (simp split: if_splits)

lemma index_of_Some_length: "index_of sub s = Some i \<Longrightarrow> i + length sub \<le> length s"
  using index_of_Some [of sub s i] prefix_length_le [of sub "drop i s"] by auto

termination split_on
proof (relation "measure (\<lambda>(sep, s). length s)")
  fix sep s i
  assume i: "index_of sep s = Some i" and ne: "sep \<noteq> ([]::string)"
  from ne have "0 < length sep" by simp
  with index_of_Some_length [OF i] have "length (drop (i + length sep) s) < length s"
    unfolding length_drop by arith
  then show "((sep, drop (i + length sep) s), sep, s) \<in> measure (\<lambda>(sep, s). length s)"
    by simp
qed simp

declare split_on.simps [simp del]

definition split_n2 :: "string \<Rightarrow> string \<Rightarrow> string list" where
  "split_n2 sep s =
     (case index_of sep s of
        None \<Rightarrow> [s]
      | Some i \<Rightarrow> [take i s, drop (i + length sep) s])"

fun join_on :: "string \<Rightarrow> string list \<Rightarrow> string" where
  "join_on sep [] = []"
| "join_on sep [s] = s"
| "join_on sep (s # t # ss) = s @ sep @ join_on sep (t # ss)"

definition replace_all :: "string \<Rightarrow> string \<Rightarrow> string \<Rightarrow> string" where
  "replace_all s old new = (if old = [] then s else join_on new (split_on old s))"

text \<open>\<^verbatim>\<open>strings.Fields\<close>: the words between runs of white space.\<close>

function fields_from :: "string \<Rightarrow> string \<Rightarrow> string list" where
  "fields_from w s =
     (case starts_with_any space_runes s of
        Some p \<Rightarrow>
          (if p = [] then [] else (if w = [] then [] else [w]) @ fields_from [] (drop (length p) s))
      | None \<Rightarrow>
          (case s of
             [] \<Rightarrow> (if w = [] then [] else [w])
           | c # t \<Rightarrow> fields_from (w @ [c]) t))"
  by pat_completeness auto
termination
  by (relation "measure (\<lambda>(w, s). length s)")
    (auto simp: starts_with_any_def find_Some_iff prefix_def)

declare fields_from.simps [simp del]

definition fields :: "string \<Rightarrow> string list" where
  "fields s = fields_from [] s"

text \<open>\<open>contains\<close> is the sublist relation of the library.\<close>

lemma index_of_None_iff: "index_of sub s = None \<longleftrightarrow> \<not> sublist sub s"
  by (induction sub s rule: index_of.induct) (auto simp: sublist_Cons_right)

lemma contains_iff [go_str]: "contains s sub \<longleftrightarrow> sublist sub s"
  by (simp add: contains_def index_of_None_iff)

lemma contains_any_iff [go_str]: "contains_any s chars \<longleftrightarrow> (\<exists>c \<in> set s. c \<in> set chars)"
  by (simp add: contains_any_def list_ex_iff)

lemma split_on_ne [simp]: "split_on sep s \<noteq> []"
  by (subst split_on.simps) (simp split: option.splits)

lemma join_on_Cons: "ss \<noteq> [] \<Longrightarrow> join_on sep (s # ss) = s @ sep @ join_on sep ss"
  by (cases ss) simp_all

text \<open>Joining what was split gives the string back.\<close>

lemma join_split [simp, go_str]: "join_on sep (split_on sep s) = s"
proof (induction sep s rule: split_on.induct)
  case (1 sep s)
  show ?case
  proof (cases "index_of sep s")
    case None
    then show ?thesis by (subst split_on.simps) simp
  next
    case (Some i)
    show ?thesis
    proof (cases "sep = []")
      case True
      with Some show ?thesis by (subst split_on.simps) simp
    next
      case False
      from index_of_Some [OF Some] obtain t where "drop i s = sep @ t" by (auto simp: prefix_def)
      then have "s = take i s @ sep @ drop (i + length sep) s"
        by (metis append_eq_conv_conj append_take_drop_id drop_drop add.commute)
      with False Some 1 show ?thesis
        by (subst split_on.simps) (simp add: join_on_Cons)
    qed
  qed
qed

lemma replace_all_same [simp]: "replace_all s t t = s"
  by (simp add: replace_all_def)

lemma replace_all_absent: "\<not> contains s old \<Longrightarrow> replace_all s old new = s"
  by (auto simp: replace_all_def contains_def split_on.simps split: option.splits)

lemma trim_prefix_append [simp]: "trim_prefix (p @ s) p = s"
  by (simp add: trim_prefix_def)

lemma trim_prefix_suffix: "suffix (trim_prefix s p) s"
  by (simp add: trim_prefix_def suffix_drop)

subsection \<open>Splitting at one byte\<close>

text \<open>For a separator of one byte, splitting follows the string.\<close>

lemma split_on_byte_Nil [simp]: "split_on [c] [] = [[]]"
  by (subst split_on.simps) simp

lemma split_on_byte_Cons:
  "split_on [c] (d # s) =
     (if d = c then [] # split_on [c] s
      else (d # hd (split_on [c] s)) # tl (split_on [c] s))"
proof (cases "d = c")
  case True
  then show ?thesis by (subst split_on.simps) simp
next
  case False
  show ?thesis
  proof (cases "index_of [c] s")
    case None
    with False show ?thesis by (simp add: split_on.simps [of "[c]"])
  next
    case (Some i)
    with False show ?thesis
      by (simp add: split_on.simps [of "[c]" "d # s"] split_on.simps [of "[c]" s])
  qed
qed

lemma split_on_byte_absent: "c \<notin> set s \<Longrightarrow> split_on [c] s = [s]"
  by (induction s) (auto simp: split_on_byte_Cons)

lemma split_on_byte_pieces: "p \<in> set (split_on [c] s) \<Longrightarrow> c \<notin> set p"
proof (induction s arbitrary: p)
  case (Cons d s)
  have "split_on [c] s \<noteq> []" by simp
  then obtain q qs where q: "split_on [c] s = q # qs" by (cases "split_on [c] s") auto
  with Cons show ?case by (auto simp: split_on_byte_Cons split: if_splits)
qed simp

lemma split_on_byte_append:
  "c \<notin> set s \<Longrightarrow> split_on [c] (s @ c # t) = s # split_on [c] t"
  by (induction s) (auto simp: split_on_byte_Cons)

lemma split_on_byte_append_any:
  "split_on [c] (s @ c # t) = split_on [c] s @ split_on [c] t"
proof (induction s)
  case (Cons d s)
  have "split_on [c] s \<noteq> []" by simp
  then obtain q qs where "split_on [c] s = q # qs" by (cases "split_on [c] s") auto
  with Cons show ?case by (simp add: split_on_byte_Cons)
qed (simp add: split_on_byte_Cons)

lemma split_join_byte:
  "ss \<noteq> [] \<Longrightarrow> \<forall>s \<in> set ss. c \<notin> set s \<Longrightarrow> split_on [c] (join_on [c] ss) = ss"
proof (induction "[c]" ss rule: join_on.induct)
  case (3 s t ss)
  then show ?case by (simp add: split_on_byte_append)
qed (simp_all add: split_on_byte_absent)

lemma set_split_on_byte: "p \<in> set (split_on [c] s) \<Longrightarrow> set p \<subseteq> set s"
proof (induction s arbitrary: p)
  case (Cons d s)
  have "split_on [c] s \<noteq> []" by simp
  then obtain q qs where q: "split_on [c] s = q # qs" by (cases "split_on [c] s") auto
  with Cons show ?case by (fastforce simp: split_on_byte_Cons split: if_splits)
qed simp

end
