(* ===== verification/Errors.thy ===== *)
theory Errors
  imports GoStrings
begin

section \<open>Errors (internal/provider/errors.go)\<close>

text \<open>
  A Go \<^verbatim>\<open>error\<close> of the plugin is a \<open>StatusError\<close>, a text (\<^verbatim>\<open>fmt.Errorf\<close> without
  \<^verbatim>\<open>%w\<close>, and errors of the standard library, of which only the text is used), or a text put
  before another error (\<^verbatim>\<open>fmt.Errorf("...: %w", err)\<close>). \<open>error_text\<close> is the method
  \<^verbatim>\<open>Error\<close> and \<open>as_status\<close> is \<^verbatim>\<open>errors.As\<close> with a \<^verbatim>\<open>*StatusError\<close> target.
\<close>

record status_error =
  se_code :: string
  se_message :: string
  se_http :: int
  se_retryable :: bool

datatype go_error =
    StatusErr status_error
  | PlainErr string
  | WrapErr string go_error

definition statusError :: "string \<Rightarrow> string \<Rightarrow> int \<Rightarrow> go_error" where
  "statusError code message status =
     StatusErr \<lparr>se_code = code, se_message = message,
       se_http = (if status = 0 then 500 else status), se_retryable = False\<rparr>"

fun error_text :: "go_error \<Rightarrow> string" where
  "error_text (StatusErr e) = se_message e"
| "error_text (PlainErr t) = t"
| "error_text (WrapErr p e) = p @ '': '' @ error_text e"

fun as_status :: "go_error \<Rightarrow> status_error option" where
  "as_status (StatusErr e) = Some e"
| "as_status (PlainErr t) = None"
| "as_status (WrapErr p e) = as_status e"

text \<open>
  \<^verbatim>\<open>%q\<close>: the text in double quotes with Go's escapes for the quote, the backslash and the
  named control characters; other bytes below 32 and 127 are written in hexadecimal. Bytes from
  128 on stay as they are, as printable runes do.
\<close>

definition hex_digit :: "int \<Rightarrow> char" where
  "hex_digit n = (let d = n mod 16 in char_of (if d < 10 then 48 + d else 87 + d))"

definition quote_char :: "char \<Rightarrow> string" where
  "quote_char c =
     (if c = CHR 0x22 then [CHR 0x5C, CHR 0x22]
      else if c = CHR 0x5C then [CHR 0x5C, CHR 0x5C]
      else if c = CHR 0x07 then [CHR 0x5C, CHR ''a'']
      else if c = CHR 0x08 then [CHR 0x5C, CHR ''b'']
      else if c = CHR 0x0C then [CHR 0x5C, CHR ''f'']
      else if c = CHR 0x0A then [CHR 0x5C, CHR ''n'']
      else if c = CHR 0x0D then [CHR 0x5C, CHR ''r'']
      else if c = CHR 0x09 then [CHR 0x5C, CHR ''t'']
      else if c = CHR 0x0B then [CHR 0x5C, CHR ''v'']
      else if byte c < 32 \<or> byte c = 127
        then [CHR 0x5C, CHR ''x'', hex_digit (byte c div 16), hex_digit (byte c)]
      else [c])"

definition quoted :: "string \<Rightarrow> string" where
  "quoted s = [CHR 0x22] @ concat (map quote_char s) @ [CHR 0x22]"

lemma as_status_statusError [simp]:
  "as_status (statusError c m h) =
     Some \<lparr>se_code = c, se_message = m, se_http = (if h = 0 then 500 else h), se_retryable = False\<rparr>"
  by (simp add: statusError_def)

lemma error_text_statusError [simp]: "error_text (statusError c m h) = m"
  by (simp add: statusError_def)

lemma statusError_inject [simp]:
  "statusError c m h = statusError c' m' h' \<longleftrightarrow>
     c = c' \<and> m = m' \<and> (if h = 0 then 500 else h) = (if h' = 0 then 500 else h')"
  by (simp add: statusError_def)

lemma statusError_not_other [simp]:
  "statusError c m h \<noteq> PlainErr t" "statusError c m h \<noteq> WrapErr p e"
  "PlainErr t \<noteq> statusError c m h" "WrapErr p e \<noteq> statusError c m h"
  by (simp_all add: statusError_def)

text \<open>Putting text before an error keeps the status error inside it.\<close>

lemma as_status_wrap: "as_status (foldr WrapErr ps (StatusErr e)) = Some e"
  by (induction ps) simp_all

subsection \<open>\<open>firstNonEmpty\<close> (internal/provider/models.go)\<close>

fun firstNonEmpty :: "string list \<Rightarrow> string" where
  "firstNonEmpty [] = []"
| "firstNonEmpty (v # vs) = (if trim_space v \<noteq> [] then trim_space v else firstNonEmpty vs)"

lemma firstNonEmpty_trimmed [simp]: "trim_space (firstNonEmpty vs) = firstNonEmpty vs"
  by (induction vs) auto

lemma firstNonEmpty_Nil_iff: "firstNonEmpty vs = [] \<longleftrightarrow> (\<forall>v \<in> set vs. trim_space v = [])"
  by (induction vs) auto

end
