(* ===== verification/FirstWins.thy ===== *)
theory FirstWins
  imports Prelude
begin

section \<open>Loops that keep the first element with a key\<close>

text \<open>
  Two loops of the plugin walk over a list, drop the elements that are no candidates, and keep a
  candidate only when no earlier one had the same key, with a \<^verbatim>\<open>map[string]struct{}\<close> of the
  keys seen so far (\<^verbatim>\<open>dedupeStrings\<close> in config.go, \<^verbatim>\<open>parseModelLines\<close> in models.go). The
  locale states what such a loop does; the theories of the two loops interpret it.
\<close>

locale first_wins =
  fixes cand :: "'l \<Rightarrow> 'a option"
    and key :: "'a \<Rightarrow> 'k"
    and loop :: "'k set \<Rightarrow> 'l list \<Rightarrow> 'a list"
  assumes loop_done: "loop seen [] = []"
    and loop_skip: "cand l = None \<Longrightarrow> loop seen (l # ls) = loop seen ls"
    and loop_seen: "cand l = Some x \<Longrightarrow> key x \<in> seen \<Longrightarrow> loop seen (l # ls) = loop seen ls"
    and loop_new: "cand l = Some x \<Longrightarrow> key x \<notin> seen
      \<Longrightarrow> loop seen (l # ls) = x # loop (insert (key x) seen) ls"
begin

lemma loop_cases:
  obtains "cand l = None" "loop seen (l # ls) = loop seen ls"
  | x where "cand l = Some x" "key x \<in> seen" "loop seen (l # ls) = loop seen ls"
  | x where "cand l = Some x" "key x \<notin> seen" "loop seen (l # ls) = x # loop (insert (key x) seen) ls"
  by (cases "cand l"; cases "key (the (cand l)) \<in> seen")
    (auto simp: loop_skip loop_seen loop_new)

lemma keys_fresh: "x \<in> set (loop seen ls) \<Longrightarrow> key x \<notin> seen"
proof (induction ls arbitrary: seen)
  case (Cons l ls)
  then show ?case by (cases rule: loop_cases [of l seen ls]) auto
qed (simp add: loop_done)

lemma distinct_keys: "distinct (map key (loop seen ls))"
proof (induction ls arbitrary: seen)
  case (Cons l ls)
  then show ?case
    by (cases rule: loop_cases [of l seen ls]) (auto dest: keys_fresh)
qed (simp add: loop_done)

lemma from_candidates: "x \<in> set (loop seen ls) \<Longrightarrow> \<exists>l \<in> set ls. cand l = Some x"
proof (induction ls arbitrary: seen)
  case (Cons l ls)
  then show ?case by (cases rule: loop_cases [of l seen ls]) auto
qed (simp add: loop_done)

lemma keys_complete:
  "l \<in> set ls \<Longrightarrow> cand l = Some x \<Longrightarrow> key x \<in> seen \<union> key ` set (loop seen ls)"
proof (induction ls arbitrary: seen)
  case (Cons m ls)
  then show ?case by (cases rule: loop_cases [of m seen ls]) auto
qed simp

text \<open>Exactly the candidates that no earlier candidate shadows are kept.\<close>

definition unshadowed :: "'k set \<Rightarrow> 'l list \<Rightarrow> 'a \<Rightarrow> bool" where
  "unshadowed seen ls x =
     (\<exists>ps l rs. ls = ps @ l # rs \<and> cand l = Some x \<and> key x \<notin> seen \<and>
        (\<forall>p \<in> set ps. \<forall>y. cand p = Some y \<longrightarrow> key y \<noteq> key x))"

lemma unshadowed_Cons:
  "unshadowed seen (l # ls) x \<longleftrightarrow>
     (cand l = Some x \<and> key x \<notin> seen) \<or>
     (unshadowed seen ls x \<and> (\<forall>y. cand l = Some y \<longrightarrow> key y \<noteq> key x))"
  (is "?L \<longleftrightarrow> ?R")
proof
  assume ?L
  then obtain ps l' rs where e: "l # ls = ps @ l' # rs" and c: "cand l' = Some x" "key x \<notin> seen"
    and n: "\<forall>p \<in> set ps. \<forall>y. cand p = Some y \<longrightarrow> key y \<noteq> key x"
    by (auto simp: unshadowed_def)
  show ?R
  proof (cases ps)
    case Nil
    with e c show ?thesis by simp
  next
    case (Cons p ps')
    with e c n have "unshadowed seen ls x" unfolding unshadowed_def by fastforce
    with Cons e n show ?thesis by simp
  qed
next
  assume ?R
  then show ?L
  proof
    assume "cand l = Some x \<and> key x \<notin> seen"
    then show ?L unfolding unshadowed_def by (intro exI [of _ "[]"]) auto
  next
    assume r: "unshadowed seen ls x \<and> (\<forall>y. cand l = Some y \<longrightarrow> key y \<noteq> key x)"
    then obtain ps l' rs where "ls = ps @ l' # rs" "cand l' = Some x" "key x \<notin> seen"
      "\<forall>p \<in> set ps. \<forall>y. cand p = Some y \<longrightarrow> key y \<noteq> key x"
      by (auto simp: unshadowed_def)
    with r show ?L unfolding unshadowed_def
      by (intro exI [of _ "l # ps"] exI [of _ l'] exI [of _ rs]) auto
  qed
qed

lemma unshadowed_insert:
  "key y \<notin> seen \<Longrightarrow>
     unshadowed (insert (key y) seen) ls x \<longleftrightarrow> unshadowed seen ls x \<and> key x \<noteq> key y"
  by (auto simp: unshadowed_def)

lemma set_loop: "x \<in> set (loop seen ls) \<longleftrightarrow> unshadowed seen ls x"
proof (induction ls arbitrary: seen)
  case Nil
  then show ?case by (simp add: loop_done unshadowed_def)
next
  case (Cons l ls)
  show ?case
  proof (cases rule: loop_cases [of l seen ls])
    case 1
    with Cons show ?thesis by (simp add: unshadowed_Cons)
  next
    case (2 y)
    then have "unshadowed seen ls x \<Longrightarrow> key y \<noteq> key x"
      by (auto simp: unshadowed_def)
    with 2 Cons show ?thesis by (auto simp: unshadowed_Cons)
  next
    case (3 y)
    with Cons show ?thesis by (auto simp: unshadowed_Cons unshadowed_insert)
  qed
qed

end

text \<open>When the elements are their own candidates, the loop is idempotent.\<close>

locale first_wins_list = first_wins "Some :: 'a \<Rightarrow> 'a option" key loop
  for key :: "'a \<Rightarrow> 'k" and loop :: "'k set \<Rightarrow> 'a list \<Rightarrow> 'a list"
begin

lemma loop_distinct_id:
  "distinct (map key xs) \<Longrightarrow> key ` set xs \<inter> seen = {} \<Longrightarrow> loop seen xs = xs"
proof (induction xs arbitrary: seen)
  case (Cons x xs)
  then have "key x \<notin> seen" by auto
  moreover have "loop (insert (key x) seen) xs = xs" using Cons by (intro Cons.IH) auto
  ultimately show ?case by (simp add: loop_new)
qed (simp add: loop_done)

lemma loop_idem: "loop {} (loop seen xs) = loop seen xs"
  by (rule loop_distinct_id) (auto simp: distinct_keys)

lemma loop_subset: "set (loop seen xs) \<subseteq> set xs"
  using from_candidates by fastforce

end

end
