(* ===== verification/GoPath.thy ===== *)
theory GoPath
  imports GoStrings
begin

section \<open>Go's path/filepath package on Unix\<close>

text \<open>
  The lexical path functions the plugin calls, for the separator \<open>/\<close>. \<open>clean\<close> works on the
  elements between separators with a stack, as the documentation of \<^verbatim>\<open>filepath.Clean\<close> states
  its four rules; \<open>normal\<close> is the form of its result.
\<close>

abbreviation slash :: char where "slash \<equiv> CHR ''/''"
abbreviation dot :: string where "dot \<equiv> ''.''"
abbreviation dotdot :: string where "dotdot \<equiv> ''..''"

definition is_abs :: "string \<Rightarrow> bool" where
  "is_abs p = prefix ''/'' p"

text \<open>One element against the stack of elements kept so far (last one first).\<close>

fun push_elem :: "bool \<Rightarrow> string list \<Rightarrow> string \<Rightarrow> string list" where
  "push_elem rooted st e =
     (if e = [] \<or> e = dot then st
      else if e = dotdot then
        (case st of
           [] \<Rightarrow> if rooted then [] else [dotdot]
         | t # st' \<Rightarrow> if t = dotdot then dotdot # st else st')
      else e # st)"

definition elems :: "string \<Rightarrow> string list" where
  "elems p = rev (foldl (push_elem (is_abs p)) [] (split_on ''/'' p))"

definition clean :: "string \<Rightarrow> string" where
  "clean p =
     (if is_abs p then ''/'' @ join_on ''/'' (elems p)
      else if elems p = [] then dot
      else join_on ''/'' (elems p))"

text \<open>\<^verbatim>\<open>filepath.Join\<close>: empty arguments are ignored, the rest is joined and cleaned.\<close>

definition path_join :: "string list \<Rightarrow> string" where
  "path_join es =
     (let ne = filter (\<lambda>e. e \<noteq> []) es
      in if ne = [] then [] else clean (join_on ''/'' ne))"

text \<open>\<^verbatim>\<open>filepath.Dir\<close> cleans everything up to the last separator, \<^verbatim>\<open>filepath.Base\<close> is the last element.\<close>

definition path_dir :: "string \<Rightarrow> string" where
  "path_dir p = clean (rev (dropWhile (\<lambda>c. c \<noteq> slash) (rev p)))"

definition path_base :: "string \<Rightarrow> string" where
  "path_base p =
     (if p = [] then dot
      else let q = rev (dropWhile (\<lambda>c. c = slash) (rev p))
           in if q = [] then ''/'' else rev (takeWhile (\<lambda>c. c \<noteq> slash) (rev q)))"

subsection \<open>The form of a cleaned path\<close>

definition plain_elem :: "string \<Rightarrow> bool" where
  "plain_elem e = (e \<noteq> [] \<and> e \<noteq> dot \<and> slash \<notin> set e)"

text \<open>No empty and no \<open>.\<close> element, and \<open>..\<close> only at the start of a relative path.\<close>

definition normal :: "bool \<Rightarrow> string list \<Rightarrow> bool" where
  "normal rooted es =
     (list_all plain_elem es \<and>
      (\<exists>n rest. es = replicate n dotdot @ rest \<and> dotdot \<notin> set rest \<and> (rooted \<longrightarrow> n = 0)))"

lemma normalE:
  assumes "normal r es"
  obtains n rest where "es = replicate n dotdot @ rest" "dotdot \<notin> set rest" "r \<longrightarrow> n = 0"
    "list_all plain_elem es"
  using assms unfolding normal_def by blast

lemma normalI:
  "es = replicate n dotdot @ rest \<Longrightarrow> dotdot \<notin> set rest \<Longrightarrow> r \<longrightarrow> n = 0 \<Longrightarrow> list_all plain_elem es
    \<Longrightarrow> normal r es"
  unfolding normal_def by blast

lemma normal_Nil [simp]: "normal r []"
  by (auto simp: normal_def)

lemma plain_dotdot [simp]: "plain_elem dotdot"
  by (simp add: plain_elem_def)

lemma normal_push:
  assumes "normal r (rev st)" and "slash \<notin> set e"
  shows "normal r (rev (push_elem r st e))"
proof -
  obtain n rest where st: "rev st = replicate n dotdot @ rest" and nd: "dotdot \<notin> set rest"
    and n: "r \<longrightarrow> n = 0" and pl: "list_all plain_elem (rev st)"
    using assms(1) by (rule normalE)
  consider "e = [] \<or> e = dot" | "e = dotdot" | "e \<noteq> []" "e \<noteq> dot" "e \<noteq> dotdot" by blast
  then show ?thesis
  proof cases
    case 1
    with assms show ?thesis by auto
  next
    case 3
    with st nd n pl assms(2) show ?thesis
      by (intro normalI [of _ n "rest @ [e]"]) (auto simp: plain_elem_def)
  next
    case 2
    show ?thesis
    proof (cases "rest = []")
      case True
      with st have st': "st = replicate n dotdot"
        by (metis append_Nil2 rev_replicate rev_swap)
      have "push_elem r st dotdot = (if r then [] else replicate (Suc n) dotdot)"
        using n st' by (cases n) auto
      with 2 show ?thesis
        by (intro normalI [of _ "if r then 0 else Suc n" "[]"]) (auto simp: list_all_iff replicate_append_same)
    next
      case False
      then obtain ys y where ys: "rest = ys @ [y]" by (metis rev_exhaust)
      with st have "st = y # rev (replicate n dotdot @ ys)"
        by (metis append.assoc rev_append rev_rev_ident rev_swap append_Cons append_Nil rev.simps(2))
      with 2 ys nd have "push_elem r st e = rev (replicate n dotdot @ ys)" by auto
      with nd n pl ys st show ?thesis
        by (intro normalI [of _ n ys]) auto
    qed
  qed
qed

lemma normal_foldl:
  "normal r (rev st) \<Longrightarrow> \<forall>e \<in> set es. slash \<notin> set e \<Longrightarrow> normal r (rev (foldl (push_elem r) st es))"
proof (induction es arbitrary: st)
  case (Cons e es)
  then show ?case using normal_push [of r st e] by (auto simp del: push_elem.simps)
qed simp

lemma normal_elems: "normal (is_abs p) (elems p)"
  unfolding elems_def by (rule normal_foldl) (auto dest: split_on_byte_pieces)

lemma elems_plain: "e \<in> set (elems p) \<Longrightarrow> plain_elem e"
  using normal_elems [of p] by (auto simp: normal_def list_all_iff)

text \<open>Cleaning a path in normal form changes nothing.\<close>

lemma foldl_push_replicate:
  "foldl (push_elem False) (replicate m dotdot) (replicate n dotdot) = replicate (m + n) dotdot"
proof (induction n arbitrary: m)
  case (Suc n)
  have "push_elem False (replicate m dotdot) dotdot = replicate (Suc m) dotdot"
    by (cases m) simp_all
  with Suc [of "Suc m"] show ?case by simp
qed simp

lemma foldl_push_plain:
  "list_all plain_elem es \<Longrightarrow> dotdot \<notin> set es \<Longrightarrow> foldl (push_elem r) st es = rev es @ st"
  by (induction es arbitrary: st) (auto simp: plain_elem_def)

lemma foldl_push_normal:
  assumes "normal r es"
  shows "rev (foldl (push_elem r) [] es) = es"
proof -
  obtain n rest where es: "es = replicate n dotdot @ rest" and nd: "dotdot \<notin> set rest"
    and n: "r \<longrightarrow> n = 0" and ple: "list_all plain_elem es"
    using assms by (rule normalE)
  from ple es have pl: "list_all plain_elem rest" by simp
  show ?thesis
  proof (cases r)
    case True
    with n es nd pl show ?thesis by (simp add: foldl_push_plain)
  next
    case False
    with es nd pl foldl_push_replicate [of 0 n] show ?thesis
      by (simp add: foldl_push_plain)
  qed
qed

lemma is_abs_Cons [simp]: "is_abs (c # s) \<longleftrightarrow> c = slash"
  by (auto simp: is_abs_def)

lemma is_abs_Nil [simp]: "\<not> is_abs []"
  by (simp add: is_abs_def)

lemma join_on_hd:
  "ss \<noteq> [] \<Longrightarrow> hd ss \<noteq> [] \<Longrightarrow> join_on sep ss \<noteq> [] \<and> hd (join_on sep ss) = hd (hd ss)"
  by (cases ss rule: remdups_adj.cases) auto

lemma normal_join_not_abs:
  assumes "normal False es" "es \<noteq> []"
  shows "\<not> is_abs (join_on ''/'' es)"
proof -
  have "plain_elem (hd es)" using assms by (cases es) (auto simp: normal_def)
  then have "hd es \<noteq> []" "hd (hd es) \<noteq> slash"
    by (auto simp: plain_elem_def) (metis list.set_sel(1))
  with assms(2) join_on_hd [of es "''/''"] show ?thesis
    by (cases "join_on ''/'' es") auto
qed

lemma normal_slashless: "normal r es \<Longrightarrow> \<forall>e \<in> set es. slash \<notin> set e"
  by (auto simp: normal_def list_all_iff plain_elem_def)

lemma elems_join:
  assumes "normal False es" "es \<noteq> []"
  shows "elems (join_on ''/'' es) = es"
  using normal_join_not_abs [OF assms] split_join_byte [OF assms(2) normal_slashless [OF assms(1)]]
    foldl_push_normal [OF assms(1)]
  by (simp add: elems_def)

lemma elems_rooted_join:
  assumes "normal True es"
  shows "elems (''/'' @ join_on ''/'' es) = es"
proof (cases "es = []")
  case True
  then show ?thesis by (simp add: elems_def split_on_byte_Cons)
next
  case False
  then show ?thesis
    using split_join_byte [OF False normal_slashless [OF assms]] foldl_push_normal [OF assms]
    by (simp add: elems_def split_on_byte_Cons)
qed

lemma elems_clean: "elems (clean p) = elems p"
proof (cases "is_abs p")
  case True
  with normal_elems [of p] elems_rooted_join [of "elems p"] show ?thesis by (simp add: clean_def)
next
  case False
  with normal_elems [of p] elems_join [of "elems p"] show ?thesis
    by (cases "elems p = []") (auto simp: clean_def elems_def split_on_byte_Cons)
qed

lemma is_abs_clean [simp]: "is_abs (clean p) \<longleftrightarrow> is_abs p"
  using normal_elems [of p] normal_join_not_abs [of "elems p"]
  by (cases "is_abs p") (auto simp: clean_def)

lemma clean_idem [simp]: "clean (clean p) = clean p"
  by (simp add: clean_def [of "clean p"] elems_clean) (simp add: clean_def)

text \<open>Joining a relative path without \<open>..\<close> to a directory appends its elements.\<close>

lemma normal_plain_split:
  assumes "\<not> is_abs r" "clean r = r" "dotdot \<notin> set (elems r)" "elems r \<noteq> []"
  shows "split_on ''/'' r = elems r"
proof -
  have "r = join_on ''/'' (elems r)" using assms by (simp add: clean_def split: if_splits)
  then show ?thesis
    using split_join_byte [OF assms(4) normal_slashless [OF normal_elems]] by metis
qed

lemma elems_append:
  assumes "d \<noteq> []" "list_all plain_elem (split_on ''/'' r)" "dotdot \<notin> set (split_on ''/'' r)"
  shows "elems (d @ ''/'' @ r) = elems d @ split_on ''/'' r"
proof -
  have "is_abs (d @ ''/'' @ r) = is_abs d" using assms(1) by (cases d) simp_all
  then show ?thesis
    using assms(2,3) by (simp add: elems_def split_on_byte_append_any foldl_push_plain)
qed

lemma path_join_two:
  "d \<noteq> [] \<Longrightarrow> r \<noteq> [] \<Longrightarrow> path_join [d, r] = clean (d @ ''/'' @ r)"
  by (simp add: path_join_def)

lemma plain_elem_split: "plain_elem e \<Longrightarrow> split_on ''/'' e = [e]"
  by (simp add: plain_elem_def split_on_byte_absent)

lemma elems_path_join_elem:
  assumes "d \<noteq> []" "plain_elem e" "e \<noteq> dotdot"
  shows "elems (path_join [d, e]) = elems d @ [e]"
  using assms elems_append [of d e]
  by (simp add: path_join_two plain_elem_split elems_clean plain_elem_def [of e])

lemma join_on_ne: "last ss \<noteq> [] \<Longrightarrow> ss \<noteq> [] \<Longrightarrow> join_on sep ss \<noteq> []"
  by (induction sep ss rule: join_on.induct) auto

lemma last_join_on:
  "last ss \<noteq> [] \<Longrightarrow> ss \<noteq> [] \<Longrightarrow> last (join_on sep ss) = last (last ss)"
proof (induction sep ss rule: join_on.induct)
  case (3 sep s t ss)
  then show ?case using join_on_ne [of "t # ss" sep] by simp
qed auto

lemma last_clean:
  assumes "elems p \<noteq> []" shows "last (clean p) = last (last (elems p))"
proof -
  have "last (elems p) \<noteq> []" using assms elems_plain [of "last (elems p)" p] by (simp add: plain_elem_def)
  then show ?thesis
    using assms last_join_on [of "elems p" "''/''"] join_on_ne [of "elems p" "''/''"]
    by (simp add: clean_def)
qed

end
