(* ===== verification/Config.thy ===== *)
theory Config
  imports Errors FirstWins GoPath
begin

section \<open>Configuration (internal/provider/config.go)\<close>

text \<open>
  \<open>config\<close> has the fields of the Go struct; its integers are 64-bit and \<open>parse_config\<close> bounds each
  of them, so they are \<open>int\<close> here. \<^verbatim>\<open>yaml.Unmarshal\<close> is third-party code: it is the
  argument \<open>yaml\<close> of \<open>parse_config\<close>, a function from the text and the defaults to the decoded
  configuration or the text of an error, and nothing is assumed of it. The directory that
  \<^verbatim>\<open>os.TempDir\<close> names is the argument \<open>tmp\<close>.
\<close>

record config =
  Enabled :: bool
  ExecutablePath :: string
  Workspace :: string
  ModelPrefix :: string
  AllowedModels :: "string list"
  DeniedModels :: "string list"
  ExcludedModelPrefixes :: "string list"
  EnvironmentAllowlist :: "string list"
  TimeoutSeconds :: int
  ModelCacheTTLSeconds :: int
  MaxPromptBytes :: int
  MaxRequestBytes :: int
  MaxStdoutBytes :: int
  MaxStderrBytes :: int
  MaxConcurrent :: int
  ManagedInstallRoot :: string
  InstallerURL :: string
  TestPackageURLOverride :: string
  MaxPackageBytes :: int
  MaxExpandedBytes :: int
  MaxArchiveEntries :: int

definition defaultAgentPath :: string where
  "defaultAgentPath = ''agent''"

definition officialInstallerURL :: string where
  "officialInstallerURL = ''https://cursor.com/install''"

definition default_workspace :: "string \<Rightarrow> string" where
  "default_workspace tmp = path_join [tmp, ''cliproxyapi-cursor-workspaces'']"

definition default_config :: "string \<Rightarrow> config" where
  "default_config tmp =
     \<lparr>Enabled = True,
      ExecutablePath = defaultAgentPath,
      Workspace = default_workspace tmp,
      ModelPrefix = [],
      AllowedModels = [],
      DeniedModels = [],
      ExcludedModelPrefixes = [],
      EnvironmentAllowlist =
        [''HOME'', ''PATH'', ''SHELL'', ''USER'', ''LOGNAME'', ''TMPDIR'', ''NO_COLOR'', ''TERM''],
      TimeoutSeconds = 120,
      ModelCacheTTLSeconds = 600,
      MaxPromptBytes = 512 * 1024,
      MaxRequestBytes = 1024 * 1024,
      MaxStdoutBytes = 2 * 1024 * 1024,
      MaxStderrBytes = 64 * 1024,
      MaxConcurrent = 1,
      ManagedInstallRoot = [],
      InstallerURL = officialInstallerURL,
      TestPackageURLOverride = [],
      MaxPackageBytes = 256 * 1024 * 1024,
      MaxExpandedBytes = 512 * 1024 * 1024,
      MaxArchiveEntries = 10000\<rparr>"

subsection \<open>Normalised lists of strings\<close>

fun dedupe_loop :: "string set \<Rightarrow> string list \<Rightarrow> string list" where
  "dedupe_loop seen [] = []"
| "dedupe_loop seen (v # vs) =
     (let k = to_lower v
      in if k \<in> seen then dedupe_loop seen vs else v # dedupe_loop (insert k seen) vs)"

definition dedupeStrings :: "string list \<Rightarrow> string list" where
  "dedupeStrings values = dedupe_loop {} values"

definition normalizeStringSet :: "string list \<Rightarrow> string list" where
  "normalizeStringSet values = dedupeStrings (filter (\<lambda>v. v \<noteq> []) (map trim_space values))"

definition normalizeModelPrefixes :: "string list \<Rightarrow> string list" where
  "normalizeModelPrefixes ps = dedupeStrings (map to_lower (normalizeStringSet ps))"

text \<open>\<^verbatim>\<open>envNameRE\<close>: \<open>^[A-Za-z_][A-Za-z0-9_]*$\<close>.\<close>

definition env_letter :: "char \<Rightarrow> bool" where
  "env_letter c = ((65 \<le> byte c \<and> byte c \<le> 90) \<or> (97 \<le> byte c \<and> byte c \<le> 122) \<or> c = CHR ''_'')"

definition env_char :: "char \<Rightarrow> bool" where
  "env_char c = (env_letter c \<or> (48 \<le> byte c \<and> byte c \<le> 57))"

definition envNameRE :: "string \<Rightarrow> bool" where
  "envNameRE v = (case v of [] \<Rightarrow> False | c # cs \<Rightarrow> env_letter c \<and> list_all env_char cs)"

definition normalizeEnvAllowlist :: "string list \<Rightarrow> string list" where
  "normalizeEnvAllowlist values = filter envNameRE (normalizeStringSet values)"

subsection \<open>Parsing\<close>

text \<open>
  The assignments and checks of \<^verbatim>\<open>ParseConfig\<close> after decoding, in the order of the code. A
  field that the code assigns is a local variable until the end, when the fields are stored. A
  check that fails returns its error and no configuration.
\<close>

definition check_config :: "string \<Rightarrow> config \<Rightarrow> (go_error, config) result" where
  "check_config tmp c =
     (let exe = trim_space (ExecutablePath c) in
      if exe = [] then Inl (PlainErr ''executable_path is required'') else
      if contains exe [CHR 0x00] then Inl (PlainErr ''executable_path contains NUL'') else
      let ws0 = trim_space (Workspace c);
          ws = (if ws0 = [] then default_workspace tmp else ws0) in
      if \<not> is_abs ws then Inl (PlainErr ''workspace must be an absolute path'') else
      let pre = trim_space (ModelPrefix c);
          allowed = normalizeStringSet (AllowedModels c);
          denied = normalizeStringSet (DeniedModels c);
          excluded = normalizeModelPrefixes (ExcludedModelPrefixes c);
          env = normalizeEnvAllowlist (EnvironmentAllowlist c) in
      if TimeoutSeconds c < 1 \<or> TimeoutSeconds c > 1800
      then Inl (PlainErr ''timeout_seconds must be between 1 and 1800'') else
      if ModelCacheTTLSeconds c < 0 \<or> ModelCacheTTLSeconds c > 3600
      then Inl (PlainErr ''model_cache_ttl_seconds must be between 0 and 3600'') else
      if MaxPromptBytes c < 1024 \<or> MaxPromptBytes c > 8 * 1024 * 1024
      then Inl (PlainErr ''max_prompt_bytes must be between 1024 and 8388608'') else
      if MaxRequestBytes c < 1024 \<or> MaxRequestBytes c > 16 * 1024 * 1024
      then Inl (PlainErr ''max_request_bytes must be between 1024 and 16777216'') else
      if MaxStdoutBytes c < 1024 \<or> MaxStdoutBytes c > 16 * 1024 * 1024
      then Inl (PlainErr ''max_stdout_bytes must be between 1024 and 16777216'') else
      if MaxStderrBytes c < 1024 \<or> MaxStderrBytes c > 1024 * 1024
      then Inl (PlainErr ''max_stderr_bytes must be between 1024 and 1048576'') else
      if MaxConcurrent c < 1 \<or> MaxConcurrent c > 8
      then Inl (PlainErr ''max_concurrent must be between 1 and 8'') else
      let root = trim_space (ManagedInstallRoot c) in
      if root \<noteq> [] \<and> \<not> is_abs root
      then Inl (PlainErr ''managed_install_root must be absolute'') else
      let url0 = trim_space (InstallerURL c);
          url = (if url0 = [] then officialInstallerURL else url0);
          override = trim_space (TestPackageURLOverride c) in
      if MaxPackageBytes c \<le> 0 \<or> MaxPackageBytes c > 512 * 1024 * 1024
      then Inl (PlainErr ''max_package_bytes must be between 1 and 536870912'') else
      if MaxExpandedBytes c \<le> 0 \<or> MaxExpandedBytes c > 1024 * 1024 * 1024
      then Inl (PlainErr ''max_expanded_bytes must be between 1 and 1073741824'') else
      if MaxArchiveEntries c \<le> 0 \<or> MaxArchiveEntries c > 100000
      then Inl (PlainErr ''max_archive_entries must be between 1 and 100000'') else
      Inr (c\<lparr>ExecutablePath := exe, Workspace := ws, ModelPrefix := pre,
             AllowedModels := allowed, DeniedModels := denied,
             ExcludedModelPrefixes := excluded, EnvironmentAllowlist := env,
             ManagedInstallRoot := root, InstallerURL := url,
             TestPackageURLOverride := override\<rparr>))"

definition parse_config ::
    "(string \<Rightarrow> config \<Rightarrow> string + config) \<Rightarrow> string \<Rightarrow> string \<Rightarrow> (go_error, config) result" where
  "parse_config yaml tmp raw =
     (if raw = [] then check_config tmp (default_config tmp)
      else (case yaml raw (default_config tmp) of
              Inl e \<Rightarrow> Inl (WrapErr ''decode plugin config'' (PlainErr e))
            | Inr c0 \<Rightarrow> check_config tmp c0))"

text \<open>\<^verbatim>\<open>time.Duration\<close> values are nanoseconds.\<close>

definition cfg_timeout :: "config \<Rightarrow> int" where
  "cfg_timeout c = TimeoutSeconds c * 1000000000"

definition modelCacheTTL :: "config \<Rightarrow> int" where
  "modelCacheTTL c = ModelCacheTTLSeconds c * 1000000000"

subsection \<open>Lists without repetitions\<close>

interpretation dedupe: first_wins_list to_lower dedupe_loop
  by unfold_locales simp_all

definition trimmed_value :: "string \<Rightarrow> string option" where
  "trimmed_value l = (if trim_space l = [] then None else Some (trim_space l))"

interpretation trimmed: first_wins trimmed_value to_lower
    "\<lambda>seen ls. dedupe_loop seen (filter (\<lambda>v. v \<noteq> []) (map trim_space ls))"
  by unfold_locales (auto simp: trimmed_value_def split: if_splits)

lemma dedupe_distinct: "distinct (map to_lower (dedupeStrings vs))"
  by (simp add: dedupeStrings_def dedupe.distinct_keys)

lemma dedupe_idem [simp]: "dedupeStrings (dedupeStrings vs) = dedupeStrings vs"
  by (simp add: dedupeStrings_def dedupe.loop_idem)

lemma dedupe_subset: "set (dedupeStrings vs) \<subseteq> set vs"
  by (simp add: dedupeStrings_def dedupe.loop_subset)

lemma dedupe_id: "distinct (map to_lower vs) \<Longrightarrow> dedupeStrings vs = vs"
  by (simp add: dedupeStrings_def dedupe.loop_distinct_id)

lemma normalizeStringSet_elem:
  "v \<in> set (normalizeStringSet vs) \<Longrightarrow> v \<noteq> [] \<and> trim_space v = v"
  using dedupe_subset [of "filter (\<lambda>v. v \<noteq> []) (map trim_space vs)"]
  by (auto simp: normalizeStringSet_def)

lemma normalizeStringSet_distinct: "distinct (map to_lower (normalizeStringSet vs))"
  by (simp add: normalizeStringSet_def dedupe_distinct)

lemma normalizeStringSet_fixed:
  assumes "\<forall>v \<in> set vs. v \<noteq> [] \<and> trim_space v = v" "distinct (map to_lower vs)"
  shows "normalizeStringSet vs = vs"
proof -
  have "filter (\<lambda>v. v \<noteq> []) (map trim_space vs) = vs"
    using assms(1) by (induction vs) auto
  with assms(2) show ?thesis by (simp add: normalizeStringSet_def dedupe_id)
qed

lemma normalizeStringSet_idem [simp]:
  "normalizeStringSet (normalizeStringSet vs) = normalizeStringSet vs"
  by (rule normalizeStringSet_fixed) (auto simp: normalizeStringSet_elem normalizeStringSet_distinct)

lemma distinct_lowered:
  "distinct (map to_lower vs) \<Longrightarrow> distinct (map to_lower (map to_lower vs))"
  by (induction vs) auto

lemma normalizeModelPrefixes_eq:
  "normalizeModelPrefixes vs = map to_lower (normalizeStringSet vs)"
  by (simp add: normalizeModelPrefixes_def dedupe_id distinct_lowered normalizeStringSet_distinct
      del: map_map)

lemma normalizeModelPrefixes_elem:
  "v \<in> set (normalizeModelPrefixes vs) \<Longrightarrow> v \<noteq> [] \<and> trim_space v = v \<and> to_lower v = v"
  by (auto simp: normalizeModelPrefixes_eq trim_space_to_lower_trimmed dest: normalizeStringSet_elem)

lemma normalizeModelPrefixes_idem [simp]:
  "normalizeModelPrefixes (normalizeModelPrefixes vs) = normalizeModelPrefixes vs"
proof -
  have "normalizeStringSet (normalizeModelPrefixes vs) = normalizeModelPrefixes vs"
    by (rule normalizeStringSet_fixed)
      (auto simp: normalizeModelPrefixes_elem normalizeModelPrefixes_def dedupe_distinct)
  then show ?thesis
    using normalizeModelPrefixes_elem
    by (simp add: normalizeModelPrefixes_eq [of "normalizeModelPrefixes vs"] map_idI)
qed

lemma normalizeEnvAllowlist_idem [simp]:
  "normalizeEnvAllowlist (normalizeEnvAllowlist vs) = normalizeEnvAllowlist vs"
proof -
  have "normalizeStringSet (normalizeEnvAllowlist vs) = normalizeEnvAllowlist vs"
    unfolding normalizeEnvAllowlist_def
    by (rule normalizeStringSet_fixed)
      (auto dest: normalizeStringSet_elem simp: distinct_map_filter normalizeStringSet_distinct)
  then show ?thesis
    unfolding normalizeEnvAllowlist_def [of "normalizeEnvAllowlist vs"]
    by (simp add: normalizeEnvAllowlist_def)
qed

lemma normalizeEnvAllowlist_elem:
  "v \<in> set (normalizeEnvAllowlist vs) \<Longrightarrow> envNameRE v"
  by (simp add: normalizeEnvAllowlist_def)

subsection \<open>What an accepted configuration satisfies\<close>

text \<open>The configuration the checks pass on, in one expression.\<close>

definition normalized :: "string \<Rightarrow> config \<Rightarrow> config" where
  "normalized tmp c =
     c\<lparr>ExecutablePath := trim_space (ExecutablePath c),
       Workspace := (if trim_space (Workspace c) = [] then default_workspace tmp
                     else trim_space (Workspace c)),
       ModelPrefix := trim_space (ModelPrefix c),
       AllowedModels := normalizeStringSet (AllowedModels c),
       DeniedModels := normalizeStringSet (DeniedModels c),
       ExcludedModelPrefixes := normalizeModelPrefixes (ExcludedModelPrefixes c),
       EnvironmentAllowlist := normalizeEnvAllowlist (EnvironmentAllowlist c),
       ManagedInstallRoot := trim_space (ManagedInstallRoot c),
       InstallerURL := (if trim_space (InstallerURL c) = [] then officialInstallerURL
                        else trim_space (InstallerURL c)),
       TestPackageURLOverride := trim_space (TestPackageURLOverride c)\<rparr>"

definition in_bounds :: "config \<Rightarrow> bool" where
  "in_bounds c =
     (ExecutablePath c \<noteq> [] \<and> \<not> contains (ExecutablePath c) [CHR 0x00] \<and> is_abs (Workspace c) \<and>
      1 \<le> TimeoutSeconds c \<and> TimeoutSeconds c \<le> 1800 \<and>
      0 \<le> ModelCacheTTLSeconds c \<and> ModelCacheTTLSeconds c \<le> 3600 \<and>
      1024 \<le> MaxPromptBytes c \<and> MaxPromptBytes c \<le> 8388608 \<and>
      1024 \<le> MaxRequestBytes c \<and> MaxRequestBytes c \<le> 16777216 \<and>
      1024 \<le> MaxStdoutBytes c \<and> MaxStdoutBytes c \<le> 16777216 \<and>
      1024 \<le> MaxStderrBytes c \<and> MaxStderrBytes c \<le> 1048576 \<and>
      1 \<le> MaxConcurrent c \<and> MaxConcurrent c \<le> 8 \<and>
      (ManagedInstallRoot c = [] \<or> is_abs (ManagedInstallRoot c)) \<and>
      1 \<le> MaxPackageBytes c \<and> MaxPackageBytes c \<le> 536870912 \<and>
      1 \<le> MaxExpandedBytes c \<and> MaxExpandedBytes c \<le> 1073741824 \<and>
      1 \<le> MaxArchiveEntries c \<and> MaxArchiveEntries c \<le> 100000)"

lemma if_Inl_iff: "(if b then Inl e else r) = Inr c \<longleftrightarrow> \<not> b \<and> r = Inr c"
  by simp

lemma check_config_Inr: "check_config tmp c0 = Inr c \<longleftrightarrow> c = normalized tmp c0 \<and> in_bounds c"
  unfolding check_config_def Let_def if_Inl_iff sum.inject normalized_def [symmetric]
  by (rule iffI; elim conjE; hypsubst?;
      simp add: in_bounds_def normalized_def not_less not_le split del: if_split)

lemma trim_default_workspace:
  assumes "is_abs (default_workspace tmp)"
  shows "trim_space (default_workspace tmp) = default_workspace tmp"
proof -
  let ?e = "''cliproxyapi-cursor-workspaces''"
  have "\<not> is_abs (default_workspace [])" by code_simp
  with assms have ne: "tmp \<noteq> []" by auto
  have e: "plain_elem ?e" "?e \<noteq> dotdot" by (simp_all add: plain_elem_def)
  have w: "default_workspace tmp = clean (tmp @ ''/'' @ ?e)"
    using ne by (simp add: default_workspace_def path_join_two)
  have "elems (tmp @ ''/'' @ ?e) = elems tmp @ [?e]"
    using elems_path_join_elem [OF ne e] ne by (simp add: path_join_two elems_clean)
  then have "last (default_workspace tmp) = CHR ''s''"
    using last_clean [of "tmp @ ''/'' @ ?e"] w by simp
  moreover obtain t where "default_workspace tmp = slash # t"
    using assms by (cases "default_workspace tmp") auto
  ultimately show ?thesis by (intro trim_space_fixed [of _ slash t]) simp_all
qed

lemma trim_installer_url: "trim_space officialInstallerURL = officialInstallerURL"
  by code_simp

lemma normalized_again:
  assumes "in_bounds (normalized tmp c)"
  shows "normalized tmp (normalized tmp c) = normalized tmp c"
proof -
  let ?ws = "if trim_space (Workspace c) = [] then default_workspace tmp else trim_space (Workspace c)"
  let ?url = "if trim_space (InstallerURL c) = [] then officialInstallerURL else trim_space (InstallerURL c)"
  have "trim_space ?ws = ?ws" "?ws \<noteq> []"
    using assms trim_default_workspace [of tmp] by (auto simp: in_bounds_def normalized_def)
  moreover have "trim_space ?url = ?url"
    using trim_installer_url by simp
  moreover have "?url \<noteq> []"
    by (simp add: officialInstallerURL_def)
  ultimately show ?thesis
    by (simp only: normalized_def config.simps trim_space_idem normalizeStringSet_idem
        normalizeModelPrefixes_idem normalizeEnvAllowlist_idem if_False) simp
qed

lemma check_config_again: "check_config tmp c0 = Inr c \<Longrightarrow> check_config tmp c = Inr c"
  using normalized_again by (auto simp: check_config_Inr)

subsection \<open>Properties\<close>

text \<open>
  C34: Every configuration that is accepted, whatever the YAML decoder returned, is within the
  documented bounds (absolute workspace, non-empty executable, every numeric field in its
  interval) and is normalised: checking it again accepts it unchanged.
\<close>

theorem parse_config_in_bounds:
  assumes "parse_config yaml tmp raw = Inr c"
  shows "in_bounds c \<and> check_config tmp c = Inr c"
proof -
  obtain c0 where "check_config tmp c0 = Inr c"
    using assms by (auto simp: parse_config_def split: if_splits sum.splits)
  then show ?thesis
    using check_config_again [of tmp c0 c] by (auto simp: check_config_Inr)
qed

definition sample_yaml :: "string \<Rightarrow> config \<Rightarrow> string + config" where
  "sample_yaml raw c = Inr (c\<lparr>TimeoutSeconds := 7, AllowedModels := ['' Auto'', ''auto'']\<rparr>)"

lemma sample_parse:
  "parse_config sample_yaml ''/tmp'' ''timeout_seconds: 7'' =
     Inr ((default_config ''/tmp'')\<lparr>TimeoutSeconds := 7, AllowedModels := [''Auto'']\<rparr>)"
  by code_simp

theorem parse_config_in_bounds_witness:
  "in_bounds ((default_config ''/tmp'')\<lparr>TimeoutSeconds := 7, AllowedModels := [''Auto'']\<rparr>)"
  using parse_config_in_bounds [OF sample_parse] by simp

text \<open>
  A normalised list keeps exactly the trimmed, non-empty values that no earlier value equals
  without regard to case, and no two of its values are equal without regard to case.
\<close>

theorem normalizeStringSet_first_wins:
  "distinct (map to_lower (normalizeStringSet vs)) \<and>
   (v \<in> set (normalizeStringSet vs) \<longleftrightarrow>
      (\<exists>ps rs u. vs = ps @ u # rs \<and> trim_space u = v \<and> v \<noteq> [] \<and>
         to_lower v \<notin> set (map (\<lambda>p. to_lower (trim_space p)) ps)))"
proof -
  have "v \<in> set (normalizeStringSet vs) \<longleftrightarrow> trimmed.unshadowed {} vs v"
    unfolding normalizeStringSet_def dedupeStrings_def by (rule trimmed.set_loop)
  also have "\<dots> \<longleftrightarrow> (\<exists>ps rs u. vs = ps @ u # rs \<and> trim_space u = v \<and> v \<noteq> [] \<and>
         to_lower v \<notin> set (map (\<lambda>p. to_lower (trim_space p)) ps))"
  proof -
    have "trimmed_value l = Some v \<longleftrightarrow> trim_space l = v \<and> v \<noteq> []" for l
      by (auto simp: trimmed_value_def)
    moreover have "(\<forall>p \<in> set ps. \<forall>y. trimmed_value p = Some y \<longrightarrow> to_lower y \<noteq> to_lower v) \<longleftrightarrow>
        to_lower v \<notin> set (map (\<lambda>p. to_lower (trim_space p)) ps)" if "v \<noteq> []" for ps
      using that to_lower_eq_Nil [of v]
      by (auto simp: trimmed_value_def image_iff eq_commute [of _ "to_lower v"] split: if_splits)
    ultimately show ?thesis unfolding trimmed.unshadowed_def by fastforce
  qed
  finally show ?thesis by (simp add: normalizeStringSet_distinct)
qed

end
