(* ===== verification/Slots.thy ===== *)
theory Slots
  imports Config
begin

section \<open>The slots of concurrent runs (\<open>Service.sem\<close>)\<close>

text \<open>
  \<open>runAgent\<close> and \<open>runAgentLoginStreaming\<close> take a slot with \<^verbatim>\<open>s.sem <- struct{}{}\<close> and give
  it back with the deferred \<^verbatim>\<open><-s.sem\<close>; \<open>Configure\<close> replaces the channel \<^verbatim>\<open>s.sem\<close>. Both
  expressions read the field when they are executed. Here a channel is a number; \<open>chans\<close> gives
  the capacity and the number of elements of each channel made so far, and \<open>sem\<close> is the one the
  field holds. \<open>running\<close> are the runs that hold a slot, \<open>held\<close> tells which channel each took it
  from (what the code does not remember). A send on a full channel and a receive from an
  empty one block: there is no step.
\<close>

record slots =
  chans :: "(int \<times> int) list"
  sem :: nat
  running :: "nat list"
  held :: "nat \<Rightarrow> nat"

definition capacity :: "slots \<Rightarrow> int" where
  "capacity s = fst (chans s ! sem s)"

definition occupied :: "slots \<Rightarrow> int" where
  "occupied s = snd (chans s ! sem s)"

definition init_slots :: "config \<Rightarrow> slots" where
  "init_slots cfg = \<lparr>chans = [(MaxConcurrent cfg, 0)], sem = 0, running = [], held = (\<lambda>_. 0)\<rparr>"

definition set_occupied :: "int \<Rightarrow> slots \<Rightarrow> slots" where
  "set_occupied n s = s\<lparr>chans := (chans s)[sem s := (capacity s, n)]\<rparr>"

definition acquire :: "nat \<Rightarrow> slots \<Rightarrow> slots option" where
  "acquire r s =
     (if r \<notin> set (running s) \<and> occupied s < capacity s
      then Some ((set_occupied (occupied s + 1) s)\<lparr>running := r # running s, held := (held s)(r := sem s)\<rparr>)
      else None)"

definition release :: "nat \<Rightarrow> slots \<Rightarrow> slots option" where
  "release r s =
     (if r \<in> set (running s) \<and> 0 < occupied s
      then Some ((set_occupied (occupied s - 1) s)\<lparr>running := remove1 r (running s)\<rparr>)
      else None)"

definition replace_sem :: "config \<Rightarrow> slots \<Rightarrow> slots" where
  "replace_sem cfg s = s\<lparr>chans := chans s @ [(MaxConcurrent cfg, 0)], sem := length (chans s)\<rparr>"

datatype slot_step = Take nat | Give nat | Reconfigure config

fun slot_next :: "slot_step \<Rightarrow> slots \<Rightarrow> slots option" where
  "slot_next (Take r) s = acquire r s"
| "slot_next (Give r) s = release r s"
| "slot_next (Reconfigure cfg) s = Some (replace_sem cfg s)"

inductive slot_reach :: "config \<Rightarrow> slot_step list \<Rightarrow> slots \<Rightarrow> bool" for cfg where
  start: "slot_reach cfg [] (init_slots cfg)"
| more: "slot_reach cfg tr s \<Longrightarrow> slot_next a s = Some s' \<Longrightarrow> slot_reach cfg (tr @ [a]) s'"

code_pred slot_reach .

inductive_cases slot_reach_snocE: "slot_reach cfg (tr @ [a]) s"

fun run_slots :: "slot_step list \<Rightarrow> slots \<Rightarrow> slots option" where
  "run_slots [] s = Some s"
| "run_slots (a # as) s = (case slot_next a s of None \<Rightarrow> None | Some s' \<Rightarrow> run_slots as s')"

lemma run_slots_reach:
  "slot_reach cfg tr s \<Longrightarrow> run_slots as s = Some s' \<Longrightarrow> slot_reach cfg (tr @ as) s'"
proof (induction as arbitrary: tr s)
  case (Cons a as)
  then obtain s1 where "slot_next a s = Some s1" "run_slots as s1 = Some s'"
    by (auto split: option.splits)
  with Cons.IH [of "tr @ [a]" s1] Cons.prems(1) show ?case by (simp add: more)
qed simp

lemma run_slots_init: "run_slots as (init_slots cfg) = Some s' \<Longrightarrow> slot_reach cfg as s'"
  using run_slots_reach [OF start] by simp

subsection \<open>Well-formed channels\<close>

definition slots_wf :: "slots \<Rightarrow> bool" where
  "slots_wf s =
     (sem s < length (chans s) \<and> distinct (running s) \<and>
      (\<forall>(c, n) \<in> set (chans s). 0 \<le> n \<and> n \<le> c \<and> 1 \<le> c))"

lemma slots_wf_current:
  assumes "slots_wf s"
  shows "0 \<le> occupied s \<and> occupied s \<le> capacity s \<and> 1 \<le> capacity s"
proof -
  obtain c n where cn: "chans s ! sem s = (c, n)" by fastforce
  have "sem s < length (chans s)" using assms by (simp add: slots_wf_def)
  then have "(c, n) \<in> set (chans s)" using nth_mem cn by metis
  with assms cn show ?thesis by (auto simp: slots_wf_def occupied_def capacity_def)
qed

lemma chans_upd:
  assumes "slots_wf s" "0 \<le> n" "n \<le> capacity s"
  shows "\<forall>(c, m) \<in> set ((chans s)[sem s := (capacity s, n)]). 0 \<le> m \<and> m \<le> c \<and> 1 \<le> c"
proof -
  have "1 \<le> capacity s" using slots_wf_current [OF assms(1)] by simp
  moreover have "set ((chans s)[sem s := (capacity s, n)]) \<subseteq> insert (capacity s, n) (set (chans s))"
    by (rule set_update_subset_insert)
  ultimately show ?thesis using assms by (fastforce simp: slots_wf_def)
qed

lemma set_occupied_sel [simp]:
  "sem (set_occupied n s) = sem s" "running (set_occupied n s) = running s" "held (set_occupied n s) = held s"
  by (simp_all add: set_occupied_def)

lemma slot_next_wf [keeps]:
  assumes "slots_wf s" "slot_next a s = Some s'" "case a of Reconfigure cfg \<Rightarrow> in_bounds cfg | _ \<Rightarrow> True"
  shows "slots_wf s'"
proof -
  note nth = slots_wf_current [OF assms(1)]
  show ?thesis
  proof (cases a)
    case (Take r)
    with assms nth show ?thesis
      using chans_upd [OF assms(1), of "occupied s + 1"]
      by (auto simp: acquire_def slots_wf_def set_occupied_def split: if_splits)
  next
    case (Give r)
    with assms nth show ?thesis
      using chans_upd [OF assms(1), of "occupied s - 1"]
      by (auto simp: release_def slots_wf_def set_occupied_def split: if_splits)
  next
    case (Reconfigure cfg)
    with assms show ?thesis by (auto simp: replace_sem_def slots_wf_def in_bounds_def)
  qed
qed

subsection \<open>Without reconfiguration\<close>

definition is_reconfigure :: "slot_step \<Rightarrow> bool" where
  "is_reconfigure a = (case a of Reconfigure cfg \<Rightarrow> True | _ \<Rightarrow> False)"

lemma occupied_set [simp]:
  "sem s < length (chans s) \<Longrightarrow> occupied (set_occupied n s) = n"
  "sem s < length (chans s) \<Longrightarrow> capacity (set_occupied n s) = capacity s"
  by (simp_all add: occupied_def capacity_def set_occupied_def)

lemma occupied_more [simp]:
  "occupied (s\<lparr>running := rs\<rparr>) = occupied s" "capacity (s\<lparr>running := rs\<rparr>) = capacity s"
  "occupied (s\<lparr>running := rs, held := h\<rparr>) = occupied s"
  "capacity (s\<lparr>running := rs, held := h\<rparr>) = capacity s"
  by (simp_all add: occupied_def capacity_def)

definition slots_inv :: "config \<Rightarrow> slots \<Rightarrow> bool" where
  "slots_inv cfg s =
     (slots_wf s \<and> capacity s = MaxConcurrent cfg \<and> occupied s = int (length (running s)))"

lemma slots_inv_next:
  assumes "slots_inv cfg s" "slot_next a s = Some s'" "\<not> is_reconfigure a"
  shows "slots_inv cfg s'"
proof -
  have wf: "slots_wf s'"
    using assms(3) slot_next_wf [OF _ assms(2)] assms(1)
    by (auto simp: slots_inv_def is_reconfigure_def split: slot_step.splits)
  have len: "sem s < length (chans s)" using assms(1) by (simp add: slots_inv_def slots_wf_def)
  show ?thesis
  proof (cases a)
    case (Take r)
    then have "s' = (set_occupied (occupied s + 1) s)\<lparr>running := r # running s, held := (held s)(r := sem s)\<rparr>"
      using assms(2) by (auto simp: acquire_def split: if_splits)
    with assms(1) wf len show ?thesis by (simp add: slots_inv_def)
  next
    case (Give r)
    then have s': "s' = (set_occupied (occupied s - 1) s)\<lparr>running := remove1 r (running s)\<rparr>"
      and r: "r \<in> set (running s)" using assms(2) by (auto simp: release_def split: if_splits)
    then have "int (length (remove1 r (running s))) = int (length (running s)) - 1"
      using length_pos_if_in_set [OF r] r by (simp add: length_remove1 of_nat_diff Suc_le_eq)
    with s' assms(1) wf len show ?thesis by (simp add: slots_inv_def)
  next
    case (Reconfigure cfg)
    with assms(3) show ?thesis by (simp add: is_reconfigure_def)
  qed
qed

lemma slots_inv_reach:
  "slot_reach cfg tr s \<Longrightarrow> in_bounds cfg \<Longrightarrow> list_all (\<lambda>a. \<not> is_reconfigure a) tr \<Longrightarrow> slots_inv cfg s"
proof (induction rule: slot_reach.induct)
  case start
  then show ?case
    by (simp add: slots_inv_def slots_wf_def init_slots_def capacity_def occupied_def in_bounds_def)
next
  case (more tr s a s')
  then show ?case by (auto intro: slots_inv_next)
qed

subsection \<open>Properties\<close>

text \<open>
  C14: As long as the service is not reconfigured, at most \<open>MaxConcurrent\<close> runs hold a slot, a run
  can take a slot exactly when fewer do, and a run that holds one can always give it back.
\<close>

theorem slots_bounded:
  assumes "slot_reach cfg tr s" and "in_bounds cfg" and "list_all (\<lambda>a. \<not> is_reconfigure a) tr"
  shows "int (length (running s)) \<le> MaxConcurrent cfg \<and>
    (r \<in> set (running s) \<longrightarrow> release r s \<noteq> None) \<and>
    (r \<notin> set (running s) \<longrightarrow> (acquire r s \<noteq> None \<longleftrightarrow> int (length (running s)) < MaxConcurrent cfg))"
proof -
  have i: "slots_inv cfg s" using assms slots_inv_reach by blast
  then have "occupied s \<le> capacity s" using slots_wf_current [of s] by (simp add: slots_inv_def)
  moreover have "0 < length (running s)" if "r \<in> set (running s)" using that by (cases "running s") auto
  ultimately show ?thesis using i by (auto simp: slots_inv_def acquire_def release_def)
qed

definition one_slot :: config where
  "one_slot = default_config ''/tmp''"

theorem slots_bounded_witness:
  "\<exists>s. slot_reach one_slot [Take 1] s \<and> int (length (running s)) \<le> MaxConcurrent one_slot"
proof -
  have "run_slots [Take 1] (init_slots one_slot) \<noteq> None" by code_simp
  then obtain s where "run_slots [Take 1] (init_slots one_slot) = Some s" by blast
  then have r: "slot_reach one_slot [Take 1] s" by (rule run_slots_init)
  have "in_bounds one_slot" by code_simp
  with slots_bounded [OF r, of 1] r show ?thesis by (auto simp: is_reconfigure_def)
qed


end
