(* ===== verification/GoFs.thy ===== *)
theory GoFs
  imports GoPath Errors
begin

section \<open>The file system\<close>

text \<open>
  A file system is an association list from places (the names from the root directory down, none
  of them a symbolic link) to nodes. \<open>resolve\<close> is the walk of the kernel over a path: it follows
  symbolic links, at most as many as its second argument says (the kernel allows 40,
  \<^verbatim>\<open>filepath.EvalSymlinks\<close> 255). All paths the plugin uses here are absolute.

  A \<open>disk\<close> is a file system with what happens to it: every call that changes it may fail with an
  input/output error and then has no effect (\<open>faults\<close>, one entry per call), and \<open>past\<close> records
  every state it has been in.
\<close>

datatype node = Dir | Reg string bool | Link string

type_synonym place = "string list"
type_synonym fs = "(place \<times> node) list"
type_synonym tree = "place \<Rightarrow> node option"

definition node_at :: "fs \<Rightarrow> tree" where
  "node_at fs p = (if p = [] then Some Dir else map_of fs p)"

definition put_node :: "place \<Rightarrow> node \<Rightarrow> fs \<Rightarrow> fs" where
  "put_node p n fs = (p, n) # filter (\<lambda>e. fst e \<noteq> p) fs"

definition drop_tree :: "place \<Rightarrow> fs \<Rightarrow> fs" where
  "drop_tree p fs = filter (\<lambda>e. \<not> prefix p (fst e)) fs"

definition move_tree :: "place \<Rightarrow> place \<Rightarrow> fs \<Rightarrow> fs" where
  "move_tree a b fs =
     map (\<lambda>e. (if prefix a (fst e) then b @ drop (length a) (fst e) else fst e, snd e)) (drop_tree b fs)"

lemma map_of_filter_key: "map_of (filter (\<lambda>e. P (fst e)) m) k = (if P k then map_of m k else None)"
  by (induction m) auto

lemma node_at_Nil [simp]: "node_at fs [] = Some Dir"
  by (simp add: node_at_def)

lemma node_at_put [simp]:
  "p \<noteq> [] \<Longrightarrow> node_at (put_node p n fs) = (node_at fs)(p := Some n)"
  using map_of_filter_key [of "\<lambda>k. k \<noteq> p" fs] by (auto simp: fun_eq_iff node_at_def put_node_def)

lemma node_at_drop [simp]:
  "p \<noteq> [] \<Longrightarrow> node_at (drop_tree p fs) = (\<lambda>q. if prefix p q then None else node_at fs q)"
  using map_of_filter_key [of "\<lambda>k. \<not> prefix p k" fs]
  by (auto simp: fun_eq_iff node_at_def drop_tree_def)

lemma map_of_move:
  assumes "\<not> prefix a b" "\<not> prefix b a"
  shows "map_of (move_tree a b fs) q =
    (if prefix b q then map_of fs (a @ drop (length b) q)
     else if prefix a q then None else map_of fs q)"
proof (induction fs)
  case (Cons e fs)
  obtain p n where e: "e = (p, n)" by (cases e)
  have ab: "\<not> (prefix a x \<and> prefix b x)" for x
    using assms prefix_same_cases by blast
  show ?case
  proof (cases "prefix b p")
    case True
    with ab have na: "\<not> prefix a p" by blast
    have m: "move_tree a b (e # fs) = move_tree a b fs"
      using True by (simp add: move_tree_def drop_tree_def e)
    have "p \<noteq> a @ drop (length b) q" using na by auto
    moreover have "p = q \<Longrightarrow> prefix b q" using True by simp
    ultimately show ?thesis using Cons unfolding m by (auto simp: e)
  next
    case False
    then have m: "move_tree a b (e # fs) =
        (if prefix a p then b @ drop (length a) p else p, n) # move_tree a b fs"
      by (simp add: move_tree_def drop_tree_def e)
    show ?thesis
    proof (cases "prefix a p")
      case True
      then obtain r where p: "p = a @ r" by (auto simp: prefix_def)
      have "b @ r = q \<longleftrightarrow> prefix b q \<and> p = a @ drop (length b) q" by (auto simp: p prefix_def)
      moreover have "p = q \<Longrightarrow> prefix a q" using True by simp
      ultimately show ?thesis using Cons True unfolding m by (auto simp: e p)
    next
      case False
      then have "p \<noteq> a @ drop (length b) q" by auto
      moreover have "p = q \<Longrightarrow> \<not> prefix a q \<and> \<not> prefix b q" using False \<open>\<not> prefix b p\<close> by simp
      ultimately show ?thesis using Cons False unfolding m by (auto simp: e)
    qed
  qed
qed (simp add: move_tree_def drop_tree_def)

lemma node_at_move [simp]:
  assumes "\<not> prefix a b" "\<not> prefix b a"
  shows "node_at (move_tree a b fs) =
    (\<lambda>q. if prefix b q then node_at fs (a @ drop (length b) q)
         else if prefix a q then None else node_at fs q)"
  using map_of_move [OF assms, of fs] assms by (auto simp: fun_eq_iff node_at_def)

subsection \<open>Walking a path\<close>

datatype errno = ENOENT | ENOTDIR | EEXIST | ENOTEMPTY | EINVAL | ELOOP | EIO string

function resolve :: "tree \<Rightarrow> nat \<Rightarrow> bool \<Rightarrow> place \<Rightarrow> string list \<Rightarrow> (errno, place) result" where
  "resolve nd n follow d [] = Inr d"
| "resolve nd n follow d (c # cs) =
     (if c = [] \<or> c = dot then resolve nd n follow d cs
      else if c = dotdot then resolve nd n follow (butlast d) cs
      else case nd (d @ [c]) of
        None \<Rightarrow> Inl ENOENT
      | Some Dir \<Rightarrow> resolve nd n follow (d @ [c]) cs
      | Some (Reg t x) \<Rightarrow> if cs = [] then Inr (d @ [c]) else Inl ENOTDIR
      | Some (Link t) \<Rightarrow>
          if \<not> follow \<and> cs = [] then Inr (d @ [c])
          else if n = 0 then Inl ELOOP
          else resolve nd (n - 1) follow (if is_abs t then [] else d) (split_on ''/'' t @ cs))"
  by pat_completeness auto
termination by (relation "measures [\<lambda>(nd, n, fl, d, cs). n, \<lambda>(nd, n, fl, d, cs). length cs]") auto

definition path_of :: "place \<Rightarrow> string" where
  "path_of d = ''/'' @ join_on ''/'' d"

definition lookup :: "fs \<Rightarrow> string \<Rightarrow> (errno, place) result" where
  "lookup fs p = resolve (node_at fs) 40 True [] (split_on ''/'' p)"

definition stat :: "fs \<Rightarrow> string \<Rightarrow> (errno, node) result" where
  "stat fs p = map_sum (\<lambda>e. e) (\<lambda>q. the (node_at fs q)) (lookup fs p)"

definition lstat :: "fs \<Rightarrow> string \<Rightarrow> (errno, node) result" where
  "lstat fs p =
     map_sum (\<lambda>e. e) (\<lambda>q. the (node_at fs q)) (resolve (node_at fs) 40 False [] (split_on ''/'' p))"

definition evalSymlinks :: "fs \<Rightarrow> string \<Rightarrow> (errno, string) result" where
  "evalSymlinks fs p = map_sum (\<lambda>e. e) path_of (resolve (node_at fs) 255 True [] (split_on ''/'' p))"

text \<open>The place a path names, its last name not followed; its directory must exist.\<close>

definition place_of :: "fs \<Rightarrow> string \<Rightarrow> (errno, place) result" where
  "place_of fs p =
     (let cs = filter (\<lambda>c. c \<noteq> []) (split_on ''/'' p)
      in if cs = [] \<or> last cs = dot \<or> last cs = dotdot then Inl EINVAL
         else case resolve (node_at fs) 40 True [] (butlast cs) of
           Inl e \<Rightarrow> Inl e
         | Inr d \<Rightarrow> if node_at fs d = Some Dir then Inr (d @ [last cs]) else Inl ENOTDIR)"

subsection \<open>Calls\<close>

definition sys_mkdir :: "string \<Rightarrow> fs \<Rightarrow> (errno, fs) result" where
  "sys_mkdir p fs =
     (case place_of fs p of
        Inl e \<Rightarrow> Inl e
      | Inr q \<Rightarrow> if node_at fs q \<noteq> None then Inl EEXIST else Inr (put_node q Dir fs))"

definition sys_symlink :: "string \<Rightarrow> string \<Rightarrow> fs \<Rightarrow> (errno, fs) result" where
  "sys_symlink t p fs =
     (if t = [] then Inl ENOENT
      else case place_of fs p of
        Inl e \<Rightarrow> Inl e
      | Inr q \<Rightarrow> if node_at fs q \<noteq> None then Inl EEXIST else Inr (put_node q (Link t) fs))"

text \<open>Creating a file with \<^verbatim>\<open>O_CREATE|O_EXCL\<close>, and writing its whole contents.\<close>

definition sys_create :: "string \<Rightarrow> bool \<Rightarrow> fs \<Rightarrow> (errno, fs) result" where
  "sys_create p x fs =
     (case place_of fs p of
        Inl e \<Rightarrow> Inl e
      | Inr q \<Rightarrow> if node_at fs q \<noteq> None then Inl EEXIST else Inr (put_node q (Reg [] x) fs))"

definition sys_write :: "string \<Rightarrow> string \<Rightarrow> bool \<Rightarrow> fs \<Rightarrow> (errno, fs) result" where
  "sys_write p s x fs =
     (case place_of fs p of Inl e \<Rightarrow> Inl e | Inr q \<Rightarrow> Inr (put_node q (Reg s x) fs))"

text \<open>\<^verbatim>\<open>os.Rename\<close>, which refuses a directory as the new name.\<close>

definition sys_rename :: "string \<Rightarrow> string \<Rightarrow> fs \<Rightarrow> (errno, fs) result" where
  "sys_rename old new fs =
     (case (place_of fs old, place_of fs new) of
        (Inr a, Inr b) \<Rightarrow>
          if node_at fs a = None then Inl ENOENT
          else if node_at fs b = Some Dir then Inl EEXIST
          else if a = b then Inr fs
          else if prefix a b then Inl EINVAL
          else if node_at fs a = Some Dir \<and> node_at fs b \<noteq> None then Inl ENOTDIR
          else Inr (move_tree a b fs)
      | (Inl e, _) \<Rightarrow> Inl e
      | (_, Inl e) \<Rightarrow> Inl e)"

definition sys_remove :: "string \<Rightarrow> fs \<Rightarrow> (errno, fs) result" where
  "sys_remove p fs =
     (case place_of fs p of
        Inl e \<Rightarrow> Inl e
      | Inr q \<Rightarrow>
          if node_at fs q = None then Inl ENOENT
          else if node_at fs q = Some Dir \<and> list_ex (\<lambda>e. strict_prefix q (fst e)) fs then Inl ENOTEMPTY
          else Inr (drop_tree q fs))"

definition sys_remove_all :: "string \<Rightarrow> fs \<Rightarrow> (errno, fs) result" where
  "sys_remove_all p fs =
     (case place_of fs p of
        Inl e \<Rightarrow> if e = ENOENT then Inr fs else Inl e
      | Inr q \<Rightarrow> Inr (drop_tree q fs))"

subsection \<open>The disk\<close>

record disk =
  files :: fs
  past :: "fs list"
  made :: nat
  faults :: "nat \<Rightarrow> string option"
  randoms :: "nat \<Rightarrow> nat option"
  drawn :: nat

definition attempt :: "(fs \<Rightarrow> (errno, fs) result) \<Rightarrow> disk \<Rightarrow> errno option \<times> disk" where
  "attempt op d =
     (let d1 = d\<lparr>made := Suc (made d)\<rparr>
      in case faults d (made d) of
           Some e \<Rightarrow> (Some (EIO e), d1)
         | None \<Rightarrow>
             (case op (files d) of
                Inl e \<Rightarrow> (Some e, d1)
              | Inr fs \<Rightarrow> (None, d1\<lparr>files := fs, past := past d @ [files d]\<rparr>)))"

definition is_dir :: "(errno, node) result \<Rightarrow> bool" where
  "is_dir r = (r = Inr Dir)"

text \<open>\<^verbatim>\<open>os.MkdirAll\<close>: the directories of the path, one after the other.\<close>

fun mkdir_all_from :: "string \<Rightarrow> string list \<Rightarrow> disk \<Rightarrow> errno option \<times> disk" where
  "mkdir_all_from pre [] d = (None, d)"
| "mkdir_all_from pre (c # cs) d =
     (let p = pre @ ''/'' @ c
      in if is_dir (stat (files d) p) then mkdir_all_from p cs d
         else if is_ok (stat (files d) p) then (Some ENOTDIR, d)
         else case attempt (sys_mkdir p) d of
           (None, d1) \<Rightarrow> mkdir_all_from p cs d1
         | (Some e, d1) \<Rightarrow> if is_dir (lstat (files d1) p) then mkdir_all_from p cs d1 else (Some e, d1))"

definition mkdir_all :: "string \<Rightarrow> disk \<Rightarrow> errno option \<times> disk" where
  "mkdir_all p d = mkdir_all_from [] (filter (\<lambda>c. c \<noteq> []) (split_on ''/'' p)) d"

text \<open>One random number; \<open>None\<close> when reading it fails.\<close>

definition draw :: "disk \<Rightarrow> nat option \<times> disk" where
  "draw d = (randoms d (drawn d), d\<lparr>drawn := Suc (drawn d)\<rparr>)"

subsection \<open>Programs over the disk\<close>

type_synonym 'a io = "disk \<Rightarrow> (go_error, 'a) result \<times> disk"

definition bind_io :: "'a io \<Rightarrow> ('a \<Rightarrow> 'b io) \<Rightarrow> 'b io" where
  "bind_io m f d = (case m d of (Inl e, d1) \<Rightarrow> (Inl e, d1) | (Inr x, d1) \<Rightarrow> f x d1)"

definition return_io :: "'a \<Rightarrow> 'a io" where
  "return_io x d = (Inr x, d)"

definition fail_io :: "go_error \<Rightarrow> 'a io" where
  "fail_io e d = (Inl e, d)"

text \<open>A query of the files; a call whose error is mapped; a call whose error is ignored.\<close>

definition ask_io :: "(fs \<Rightarrow> (go_error, 'a) result) \<Rightarrow> 'a io" where
  "ask_io q d = (q (files d), d)"

definition call_io :: "(errno \<Rightarrow> go_error) \<Rightarrow> (disk \<Rightarrow> errno option \<times> disk) \<Rightarrow> unit io" where
  "call_io f m d = (case m d of (Some e, d1) \<Rightarrow> (Inl (f e), d1) | (None, d1) \<Rightarrow> (Inr (), d1))"

definition ignore_io :: "(disk \<Rightarrow> errno option \<times> disk) \<Rightarrow> unit io" where
  "ignore_io m d = (Inr (), snd (m d))"

text \<open>\<open>on_error m h\<close>: the error of \<open>m\<close> is returned after \<open>h\<close> has run.\<close>

definition on_error :: "'a io \<Rightarrow> (disk \<Rightarrow> disk) \<Rightarrow> 'a io" where
  "on_error m h d = (case m d of (Inl e, d1) \<Rightarrow> (Inl e, h d1) | (Inr x, d1) \<Rightarrow> (Inr x, d1))"

definition wrap_io :: "string \<Rightarrow> 'a io \<Rightarrow> 'a io" where
  "wrap_io msg m d = (case m d of (Inl e, d1) \<Rightarrow> (Inl (WrapErr msg e), d1) | (Inr x, d1) \<Rightarrow> (Inr x, d1))"

definition errno_text :: "errno \<Rightarrow> string" where
  "errno_text e =
     (case e of
        ENOENT \<Rightarrow> ''no such file or directory''
      | ENOTDIR \<Rightarrow> ''not a directory''
      | EEXIST \<Rightarrow> ''file exists''
      | ENOTEMPTY \<Rightarrow> ''directory not empty''
      | EINVAL \<Rightarrow> ''invalid argument''
      | ELOOP \<Rightarrow> ''too many levels of symbolic links''
      | EIO t \<Rightarrow> t)"

text \<open>The texts of \<^verbatim>\<open>*os.PathError\<close> and \<^verbatim>\<open>*os.LinkError\<close>.\<close>

definition path_error :: "string \<Rightarrow> string \<Rightarrow> errno \<Rightarrow> go_error" where
  "path_error op p e = PlainErr (op @ '' '' @ p @ '': '' @ errno_text e)"

definition link_error :: "string \<Rightarrow> string \<Rightarrow> string \<Rightarrow> errno \<Rightarrow> go_error" where
  "link_error op a b e = PlainErr (op @ '' '' @ a @ '' '' @ b @ '': '' @ errno_text e)"

definition io_mkdir_all :: "string \<Rightarrow> unit io" where
  "io_mkdir_all p = call_io (path_error ''mkdir'' p) (mkdir_all p)"

definition io_symlink :: "string \<Rightarrow> string \<Rightarrow> unit io" where
  "io_symlink t p = call_io (link_error ''symlink'' t p) (attempt (sys_symlink t p))"

definition io_rename :: "string \<Rightarrow> string \<Rightarrow> unit io" where
  "io_rename a b = call_io (link_error ''rename'' a b) (attempt (sys_rename a b))"

definition io_remove_all :: "string \<Rightarrow> unit io" where
  "io_remove_all p = ignore_io (attempt (sys_remove_all p))"

end
