(* ===== verification/FsLogic.thy ===== *)
theory FsLogic
  imports GoFs
begin

section \<open>Reasoning about paths and about programs over the disk\<close>

text \<open>
  The first part relates paths to places and shows how a walk splits along a chain of real
  directories and how it stays inside a subtree whose links do not lead out of it. The second part
  is a small program logic: \<open>stays I m\<close> says that the program keeps \<open>I\<close> true at every moment,
  \<open>triple I P m Q E\<close> that from files with \<open>P\<close> it goes through files with \<open>I\<close> only, ends in \<open>Q\<close> when
  it returns a value and in \<open>E\<close> when it returns an error. Faults of the disk are in all of them: a
  call may fail wherever the program makes one.
\<close>

subsection \<open>Paths and places\<close>

definition good :: "place \<Rightarrow> bool" where
  "good p = (list_all plain_elem p \<and> dotdot \<notin> set p)"

lemma good_simps [simp]:
  "good []" "good (c # p) \<longleftrightarrow> plain_elem c \<and> c \<noteq> dotdot \<and> good p" "good (p @ q) \<longleftrightarrow> good p \<and> good q"
  by (auto simp: good_def)

lemma good_prefix: "good q \<Longrightarrow> prefix p q \<Longrightarrow> good p"
  by (auto simp: prefix_def)

lemma good_normal: "good p \<Longrightarrow> normal r p"
  by (intro normalI [of p 0 p]) (simp_all add: good_def)

lemma good_slashless: "good p \<Longrightarrow> \<forall>e \<in> set p. slash \<notin> set e"
  by (auto simp: good_def list_all_iff plain_elem_def)

lemma elems_path_of [simp]: "good p \<Longrightarrow> elems (path_of p) = p"
  unfolding path_of_def by (rule elems_rooted_join [OF good_normal])

lemma is_abs_path_of [simp]: "is_abs (path_of p)"
  by (simp add: path_of_def)

lemma clean_path_of [simp]: "good p \<Longrightarrow> clean (path_of p) = path_of p"
  by (simp add: clean_def) (simp add: path_of_def)

lemma path_of_ne [simp]: "path_of p \<noteq> []"
  by (simp add: path_of_def)

lemma split_join_good: "good p \<Longrightarrow> p \<noteq> [] \<Longrightarrow> split_on ''/'' (join_on ''/'' p) = p"
  by (rule split_join_byte) (simp_all add: good_slashless)

lemma split_path_of:
  "good p \<Longrightarrow> split_on ''/'' (path_of p) = [] # (if p = [] then [[]] else p)"
  by (simp add: path_of_def split_on_byte_Cons split_join_good)

lemma filter_good: "good p \<Longrightarrow> filter (\<lambda>c. c \<noteq> []) p = p"
  by (induction p) (auto simp: plain_elem_def)

lemma comps_path_of [simp]: "good p \<Longrightarrow> filter (\<lambda>c. c \<noteq> []) (split_on ''/'' (path_of p)) = p"
  by (simp add: split_path_of filter_good)

lemma path_join_good:
  assumes "good p" "good q" "q \<noteq> []"
  shows "path_join [path_of p, join_on ''/'' q] = path_of (p @ q)"
proof -
  have ne: "join_on ''/'' q \<noteq> []"
    using assms(2,3) join_on_ne [of q] by (auto simp: good_def list_all_iff plain_elem_def)
  have "elems (path_of p @ ''/'' @ join_on ''/'' q) = p @ q"
    using assms elems_append [of "path_of p" "join_on ''/'' q"] by (simp add: split_join_good good_def)
  then show ?thesis
    using ne by (simp add: path_join_two) (simp add: clean_def path_of_def)
qed

lemma path_join_elems:
  assumes "good p" "good q" "q \<noteq> []"
  shows "path_join (path_of p # q) = path_of (p @ q)"
proof -
  have "filter (\<lambda>e. e \<noteq> []) (path_of p # q) = path_of p # q" using assms by (simp add: filter_good)
  then have "path_join (path_of p # q) = clean (join_on ''/'' (path_of p # q))"
    by (simp add: path_join_def)
  also have "join_on ''/'' (path_of p # q) = path_of p @ ''/'' @ join_on ''/'' q"
    using assms(3) by (simp add: join_on_Cons)
  also have "clean \<dots> = path_join [path_of p, join_on ''/'' q]"
    using assms join_on_ne [of q] by (subst path_join_two) (auto simp: good_def list_all_iff plain_elem_def)
  finally show ?thesis using path_join_good [OF assms] by simp
qed

lemma path_of_snoc: "p \<noteq> [] \<Longrightarrow> path_of (p @ [c]) = path_of p @ ''/'' @ c"
proof -
  have "ss \<noteq> [] \<Longrightarrow> join_on ''/'' (ss @ [c]) = join_on ''/'' ss @ ''/'' @ c" for ss
  proof (induction ss)
    case (Cons a ss)
    then show ?case by (cases "ss = []") (simp_all add: join_on_Cons)
  qed simp
  then show "p \<noteq> [] \<Longrightarrow> ?thesis" by (simp add: path_of_def)
qed

lemma path_dir_path_of:
  assumes "good (p @ [c])"
  shows "path_dir (path_of (p @ [c])) = path_of p"
proof -
  have c: "slash \<notin> set c" using assms by (simp add: plain_elem_def)
  then have "dropWhile (\<lambda>d. d \<noteq> slash) (rev c @ s) = dropWhile (\<lambda>d. d \<noteq> slash) s" for s
    by (induction c arbitrary: s) auto
  then have "path_dir (path_of (p @ [c])) = clean (if p = [] then ''/'' else path_of p @ ''/'')"
    by (cases "p = []") (simp_all add: path_dir_def path_of_snoc, simp add: path_of_def)
  also have "\<dots> = path_of p"
  proof (cases "p = []")
    case False
    have a: "is_abs (path_of p @ ''/'')" by (simp add: path_of_def)
    have "elems (path_of p @ ''/'') = elems (path_of p)"
      using split_on_byte_append_any [of slash "path_of p" "[]"] by (simp add: elems_def a)
    then have "elems (path_of p @ ''/'') = p" using assms by simp
    then show ?thesis using False a by (simp add: clean_def) (simp add: path_of_def)
  qed (simp add: path_of_def clean_def elems_def split_on_byte_Cons)
  finally show ?thesis .
qed

subsection \<open>Walks\<close>

text \<open>A chain of real directories, and a subtree none of whose links leads out of it.\<close>

definition real_dir :: "tree \<Rightarrow> place \<Rightarrow> bool" where
  "real_dir nd p = (\<forall>q. prefix q p \<longrightarrow> nd q = Some Dir)"

definition closed :: "tree \<Rightarrow> bool" where
  "closed nd = (\<forall>p t. nd p = Some (Link t) \<longrightarrow> \<not> is_abs t \<and> dotdot \<notin> set (split_on ''/'' t))"

definition sub :: "tree \<Rightarrow> place \<Rightarrow> tree" where
  "sub nd b = (\<lambda>p. nd (b @ p))"

lemma real_dirD: "real_dir nd p \<Longrightarrow> prefix q p \<Longrightarrow> nd q = Some Dir"
  by (simp add: real_dir_def)

lemma real_dir_self: "real_dir nd p \<Longrightarrow> nd p = Some Dir"
  by (simp add: real_dir_def)

lemma real_dir_prefix: "real_dir nd p \<Longrightarrow> prefix q p \<Longrightarrow> real_dir nd q"
  by (meson prefix_order.order_trans real_dir_def)

lemma real_dir_snoc: "real_dir nd (p @ [c]) \<longleftrightarrow> real_dir nd p \<and> nd (p @ [c]) = Some Dir"
  by (auto simp: real_dir_def prefix_snoc)

lemma real_dir_node [simp]: "real_dir (node_at fs) []"
  by (simp add: real_dir_def)

lemma resolve_real:
  assumes "\<forall>q. strict_prefix d q \<and> prefix q (d @ p) \<longrightarrow> nd q = Some Dir" "good p"
  shows "resolve nd n fl d (p @ cs) = resolve nd n fl (d @ p) cs"
  using assms
proof (induction p arbitrary: d)
  case (Cons c p)
  have "nd (d @ [c]) = Some Dir"
    by (rule Cons.prems(1) [rule_format]) (auto simp: strict_prefix_def)
  moreover have "\<forall>q. strict_prefix (d @ [c]) q \<and> prefix q ((d @ [c]) @ p) \<longrightarrow> nd q = Some Dir"
    using Cons.prems(1) by (auto simp: strict_prefix_def prefix_def)
  ultimately show ?case
    using Cons.prems(2) Cons.IH [of "d @ [c]"] by (simp add: plain_elem_def)
qed simp

lemma resolve_dir:
  assumes "real_dir nd p" "good p"
  shows "resolve nd n fl [] (p @ cs) = resolve nd n fl p cs"
  using resolve_real [of "[]" p nd n fl cs] assms by (simp add: real_dir_def)

lemma resolve_empty [simp]: "resolve nd n fl d ([] # cs) = resolve nd n fl d cs"
  by simp

lemma resolve_path_of:
  "good p \<Longrightarrow> resolve nd n fl d (split_on ''/'' (path_of p)) = resolve nd n fl d p"
  by (simp add: split_path_of)

text \<open>Inside a closed subtree a walk without \<open>..\<close> is a walk of the subtree alone.\<close>

lemma resolve_sub:
  assumes "closed (sub nd b)" "dotdot \<notin> set cs"
  shows "resolve nd n fl (b @ r) cs = map_sum (\<lambda>e. e) ((@) b) (resolve (sub nd b) n fl r cs)"
  using assms
proof (induction nd n fl "b @ r" cs arbitrary: r rule: resolve.induct)
  case (2 nd n fl c cs)
  have nd: "nd (b @ r @ [c]) = sub nd b (r @ [c])" by (simp add: sub_def)
  have c: "c \<noteq> dotdot" "dotdot \<notin> set cs" using 2(6) by auto
  show ?case
  proof (cases "c = [] \<or> c = dot")
    case True
    with 2(1) [OF True] 2(5) c show ?thesis by simp
  next
    case plain: False
    show ?thesis
    proof (cases "sub nd b (r @ [c])")
      case None
      with plain c show ?thesis by (simp add: nd)
    next
      case (Some x)
      show ?thesis
      proof (cases x)
        case Dir
        with 2(3) [OF plain c(1), of Dir "r @ [c]"] plain c Some 2(5) show ?thesis
          by (simp add: nd)
      next
        case (Reg u v)
        with plain c Some show ?thesis by (simp add: nd)
      next
        case (Link t)
        with Some 2(5) have t: "\<not> is_abs t" "dotdot \<notin> set (split_on ''/'' t)"
          by (auto simp: closed_def)
        show ?thesis
        proof (cases "\<not> fl \<and> cs = [] \<or> n = 0")
          case True
          with plain c Some Link show ?thesis by (auto simp: nd)
        next
          case False
          then have "resolve nd (n - 1) fl (b @ r) (split_on ''/'' t @ cs) =
              map_sum (\<lambda>e. e) ((@) b) (resolve (sub nd b) (n - 1) fl r (split_on ''/'' t @ cs))"
            using 2(4) [OF plain c(1), of "Link t" t r] t c Some Link 2(5) by (simp add: nd)
          with plain c Some Link False t show ?thesis by (auto simp: nd)
        qed
      qed
    qed
  qed
qed simp

text \<open>A walk depends on the nodes it can reach: inside a closed subtree, on that subtree.\<close>

lemma resolve_inside:
  "closed (sub nd b) \<Longrightarrow> dotdot \<notin> set cs \<Longrightarrow> resolve nd n fl (b @ r) cs = Inr q \<Longrightarrow> prefix b q"
  by (auto simp: resolve_sub map_sum_Inr_iff)

text \<open>More links may be followed than are needed.\<close>

lemma resolve_more: "resolve nd n fl d cs = Inr q \<Longrightarrow> n \<le> m \<Longrightarrow> resolve nd m fl d cs = Inr q"
proof (induction nd n fl d cs arbitrary: m rule: resolve.induct)
  case (2 nd n fl d c cs)
  show ?case
  proof -
    consider "c = [] \<or> c = dot" | "\<not> (c = [] \<or> c = dot)" "c = dotdot"
      | "\<not> (c = [] \<or> c = dot)" "c \<noteq> dotdot" by blast
    then show ?thesis
    proof cases
      case 1
      with "2"(1) [OF 1] "2"(5,6) show ?thesis by simp
    next
      case 2
      with "2.IH"(2) [OF 2] "2.prems" show ?thesis by simp
    next
    case c: 3
    show ?thesis
    proof (cases "nd (d @ [c])")
      case None
      with 2(5) c show ?thesis by simp
    next
      case (Some x)
      then show ?thesis
      proof (cases x)
        case Dir
        with 2(3) [OF c Some] 2(5,6) c Some show ?thesis by simp
      next
        case (Reg u v)
        with 2(5) c Some show ?thesis by (simp split: if_splits)
      next
        case (Link t)
        show ?thesis
        proof (cases "\<not> fl \<and> cs = []")
          case True
          with 2(5) c Some Link show ?thesis by simp
        next
          case False
          with 2(5) c Some Link have "0 < n"
            "resolve nd (n - 1) fl (if is_abs t then [] else d) (split_on ''/'' t @ cs) = Inr q"
            by (auto split: if_splits)
          with 2(4) [OF c Some Link False, of "m - 1"] 2(6) c Some Link False show ?thesis
            by auto
        qed
      qed
    qed
    qed
  qed
qed simp

subsection \<open>Calls on real directories\<close>

lemma place_of_real:
  assumes "real_dir (node_at fs) p" "good (p @ [c])"
  shows "place_of fs (path_of (p @ [c])) = Inr (p @ [c])"
proof -
  have "resolve (node_at fs) 40 True [] p = Inr p"
    using resolve_dir [OF assms(1), of 40 True "[]"] assms(2) by simp
  moreover have "filter (\<lambda>x. x \<noteq> []) (split_on ''/'' (path_of (p @ [c]))) = p @ [c]"
    using assms(2) by (rule comps_path_of)
  ultimately show ?thesis
    using assms real_dir_self [OF assms(1)] by (simp add: place_of_def Let_def plain_elem_def)
qed

lemma place_of_under:
  assumes "real_dir (node_at fs) b" "good (b @ p @ [c])" "closed (sub (node_at fs) b)"
    and "place_of fs (path_of (b @ p @ [c])) = Inr q"
  obtains r where "q = b @ r @ [c]" "resolve (sub (node_at fs) b) 40 True [] p = Inr r"
proof -
  have g: "good (b @ p)" "good b" using assms(2) by simp_all
  have "filter (\<lambda>x. x \<noteq> []) (split_on ''/'' (path_of (b @ p @ [c]))) = b @ p @ [c]"
    using assms(2) by (rule comps_path_of)
  moreover have "butlast (b @ p @ [c]) = b @ p" "last (b @ p @ [c]) = c" by (simp_all add: butlast_append)
  ultimately obtain d where d: "resolve (node_at fs) 40 True [] (b @ p) = Inr d" "q = d @ [c]"
    using assms(4) unfolding place_of_def Let_def by (auto split: sum.splits if_splits)
  then have "resolve (node_at fs) 40 True (b @ []) p = Inr d"
    using resolve_dir [OF assms(1) g(2)] by simp
  moreover have "dotdot \<notin> set p" using g by (simp add: good_def)
  ultimately have "map_sum (\<lambda>e. e) ((@) b) (resolve (sub (node_at fs) b) 40 True [] p) = Inr d"
    using resolve_sub [OF assms(3), of p 40 True "[]"] by metis
  then obtain r where "d = b @ r" "resolve (sub (node_at fs) b) 40 True [] p = Inr r"
    unfolding map_sum_Inr_iff by blast
  with d(2) that show thesis by simp
qed

lemma stat_real:
  "real_dir (node_at fs) p \<Longrightarrow> good p \<Longrightarrow> stat fs (path_of p) = Inr Dir"
  using resolve_dir [of "node_at fs" p 40 True "[]"]
  by (simp add: stat_def lookup_def resolve_path_of real_dir_self)

subsection \<open>Programs that keep an invariant\<close>

text \<open>\<open>went I d d'\<close>: from \<open>d\<close> to \<open>d'\<close> the files were in states of \<open>I\<close> only.\<close>

definition went :: "(fs \<Rightarrow> bool) \<Rightarrow> disk \<Rightarrow> disk \<Rightarrow> bool" where
  "went I d d' = (I (files d') \<and> (\<exists>new. past d' = past d @ new \<and> list_all I new))"

definition stays :: "(fs \<Rightarrow> bool) \<Rightarrow> (disk \<Rightarrow> 'r \<times> disk) \<Rightarrow> bool" where
  "stays I m = (\<forall>d. I (files d) \<longrightarrow> went I d (snd (m d)))"

named_theorems stay

lemma went_refl: "I (files d) \<Longrightarrow> went I d d"
  by (simp add: went_def)

lemma went_trans: "went I a b \<Longrightarrow> went I b c \<Longrightarrow> went I a c"
  by (auto simp: went_def)

lemma went_mono: "went I a b \<Longrightarrow> (\<And>fs. I fs \<Longrightarrow> J fs) \<Longrightarrow> went J a b"
  by (auto simp: went_def list_all_iff)

lemma went_end: "went I a b \<Longrightarrow> I (files b)"
  by (simp add: went_def)

lemma went_same: "went I a b \<Longrightarrow> files c = files b \<Longrightarrow> past c = past b \<Longrightarrow> went I a c"
  by (simp add: went_def)

lemma staysI: "(\<And>d. I (files d) \<Longrightarrow> went I d (snd (m d))) \<Longrightarrow> stays I m"
  by (simp add: stays_def)

lemma staysD: "stays I m \<Longrightarrow> I (files d) \<Longrightarrow> went I d (snd (m d))"
  by (simp add: stays_def)

lemma stays_step: "stays I m \<Longrightarrow> went I a d \<Longrightarrow> went I a (snd (m d))"
  by (meson went_end went_trans staysD)

lemma stays_bind [stay]:
  assumes "stays I m" "\<And>x. stays I (f x)"
  shows "stays I (bind_io m f)"
proof (rule staysI)
  fix d :: disk assume d: "I (files d)"
  obtain r d1 where m: "m d = (r, d1)" by (metis prod.collapse)
  then have "went I d d1" using staysD [OF assms(1) d] by simp
  then show "went I d (snd (bind_io m f d))"
    using stays_step [OF assms(2)] by (cases r) (auto simp: bind_io_def m)
qed

lemma stays_return [stay]: "stays I (return_io x)"
  by (simp add: stays_def return_io_def went_refl)

lemma stays_fail [stay]: "stays I (fail_io e)"
  by (simp add: stays_def fail_io_def went_refl)

lemma stays_ask [stay]: "stays I (ask_io q)"
  by (simp add: stays_def ask_io_def went_refl)

lemma snd_call_io [simp]: "snd (call_io f m d) = snd (m d)"
  by (simp add: call_io_def split: prod.split option.split)

lemma snd_wrap_io [simp]: "snd (wrap_io msg m d) = snd (m d)"
  by (simp add: wrap_io_def split: prod.split sum.split)

lemma snd_ignore_io [simp]: "snd (ignore_io m d) = snd (m d)"
  by (simp add: ignore_io_def)

lemma stays_call [stay]: "stays I m \<Longrightarrow> stays I (call_io f m)"
  by (simp add: stays_def)

lemma stays_ignore [stay]: "stays I m \<Longrightarrow> stays I (ignore_io m)"
  by (simp add: stays_def)

lemma stays_wrap [stay]: "stays I m \<Longrightarrow> stays I (wrap_io msg m)"
  by (simp add: stays_def)

lemma stays_on_error [stay]:
  assumes "stays I m" "\<And>d. I (files d) \<Longrightarrow> went I d (h d)"
  shows "stays I (on_error m h)"
proof (rule staysI)
  fix d :: disk assume d: "I (files d)"
  obtain r d1 where m: "m d = (r, d1)" by (metis prod.collapse)
  then have w: "went I d d1" using staysD [OF assms(1) d] by simp
  have "went I d (h d1)" by (rule went_trans [OF w assms(2) [OF went_end [OF w]]])
  with w show "went I d (snd (on_error m h d))" by (cases r) (auto simp: on_error_def m)
qed

lemma stays_draw [stay]: "stays I draw"
  by (simp add: stays_def draw_def went_def)

lemma attempt_cases:
  obtains e where "attempt op d = (Some e, d\<lparr>made := Suc (made d)\<rparr>)"
  | fs where "op (files d) = Inr fs"
      "attempt op d = (None, d\<lparr>made := Suc (made d), files := fs, past := past d @ [files d]\<rparr>)"
proof (cases "faults d (made d)")
  case None
  with that show thesis by (cases "op (files d)") (auto simp: attempt_def)
next
  case (Some e)
  with that(1) show thesis by (simp add: attempt_def)
qed

lemma stays_attempt [stay]:
  assumes "\<And>fs fs'. I fs \<Longrightarrow> op fs = Inr fs' \<Longrightarrow> I fs'"
  shows "stays I (attempt op)"
proof (rule staysI)
  fix d :: disk assume "I (files d)"
  then show "went I d (snd (attempt op d))"
    by (rule_tac attempt_cases [of op d]) (auto simp: went_def assms)
qed

lemma stays_mkdir_all:
  assumes "\<And>cs c. prefix (cs @ [c]) p \<Longrightarrow> stays I (attempt (sys_mkdir (path_of (cs @ [c]))))"
    and "good p"
  shows "stays I (mkdir_all (path_of p))"
proof -
  define raw where "raw q = concat (map (\<lambda>c. ''/'' @ c) q)" for q :: place
  have raw: "raw (q @ [c]) = path_of (q @ [c])" for q c
  proof (induction q arbitrary: c rule: rev_induct)
    case (snoc x q)
    have "raw ((q @ [x]) @ [c]) = raw (q @ [x]) @ ''/'' @ c" by (simp add: raw_def)
    also have "\<dots> = path_of ((q @ [x]) @ [c])"
      unfolding snoc.IH by (rule path_of_snoc [symmetric]) simp
    finally show ?case .
  qed (simp add: raw_def path_of_def)
  have "stays I (mkdir_all_from (raw q) cs)" if "q @ cs = p" for q cs
    using that
  proof (induction cs arbitrary: q)
    case Nil
    then show ?case by (simp add: stays_def went_refl)
  next
    case (Cons c cs)
    have n: "raw q @ ''/'' @ c = path_of (q @ [c])" using raw [of q c] by (simp add: raw_def)
    have IH: "stays I (mkdir_all_from (path_of (q @ [c])) cs)"
      using Cons.IH [of "q @ [c]"] Cons.prems raw [of q c] by simp
    have m: "stays I (attempt (sys_mkdir (path_of (q @ [c]))))"
      by (rule assms(1)) (use Cons.prems in \<open>auto simp: prefix_def\<close>)
    show ?case
    proof (rule staysI)
      fix d :: disk assume d: "I (files d)"
      obtain r d1 where a: "attempt (sys_mkdir (path_of (q @ [c]))) d = (r, d1)" by (metis prod.collapse)
      then have "went I d d1" using staysD [OF m d] by simp
      then show "went I d (snd (mkdir_all_from (raw q) (c # cs) d))"
        unfolding mkdir_all_from.simps Let_def n
        using staysD [OF IH d] stays_step [OF IH] went_refl [of I d, OF d] a by (simp split: option.split)
    qed
  qed
  from this [of "[]" p] show ?thesis
    using assms(2) by (simp add: mkdir_all_def [abs_def] raw_def)
qed

lemma mkdir_all_real:
  assumes "real_dir (node_at (files d)) p" "good p"
  shows "mkdir_all (path_of p) d = (None, d)"
proof -
  define raw where "raw q = concat (map (\<lambda>c. ''/'' @ c) q)" for q :: place
  have raw: "raw (q @ [c]) = path_of (q @ [c])" for q c
  proof (induction q arbitrary: c rule: rev_induct)
    case (snoc x q)
    have "raw ((q @ [x]) @ [c]) = raw (q @ [x]) @ ''/'' @ c" by (simp add: raw_def)
    also have "\<dots> = path_of ((q @ [x]) @ [c])"
      unfolding snoc.IH by (rule path_of_snoc [symmetric]) simp
    finally show ?case .
  qed (simp add: raw_def path_of_def)
  have "mkdir_all_from (raw q) cs d = (None, d)" if "q @ cs = p" for q cs
    using that
  proof (induction cs arbitrary: q)
    case (Cons c cs)
    have n: "raw q @ ''/'' @ c = raw (q @ [c])" by (simp add: raw_def)
    have pre: "prefix (q @ [c]) p" using Cons.prems by (auto simp: prefix_def)
    have "stat (files d) (raw (q @ [c])) = Inr Dir"
      unfolding raw using assms pre by (intro stat_real real_dir_prefix [OF _ pre] good_prefix [OF _ pre])
    with Cons.IH [of "q @ [c]"] Cons.prems show ?case
      unfolding mkdir_all_from.simps Let_def n by (simp add: is_dir_def)
  qed simp
  from this [of "[]" p] show ?thesis using assms(2) by (simp add: mkdir_all_def raw_def)
qed

subsection \<open>Programs with a condition before and after\<close>

fun outcome :: "('a \<Rightarrow> fs \<Rightarrow> bool) \<Rightarrow> (fs \<Rightarrow> bool) \<Rightarrow> (go_error, 'a) result \<Rightarrow> fs \<Rightarrow> bool" where
  "outcome Q E (Inl e) fs = E fs"
| "outcome Q E (Inr x) fs = Q x fs"

definition triple ::
    "(fs \<Rightarrow> bool) \<Rightarrow> (fs \<Rightarrow> bool) \<Rightarrow> 'a io \<Rightarrow> ('a \<Rightarrow> fs \<Rightarrow> bool) \<Rightarrow> (fs \<Rightarrow> bool) \<Rightarrow> bool" where
  "triple I P m Q E =
     (\<forall>d r d'. P (files d) \<and> m d = (r, d') \<longrightarrow> went I d d' \<and> outcome Q E r (files d'))"

named_theorems hoare

lemma tripleI:
  "(\<And>d r d'. P (files d) \<Longrightarrow> m d = (r, d') \<Longrightarrow> went I d d' \<and> outcome Q E r (files d')) \<Longrightarrow> triple I P m Q E"
  unfolding triple_def by blast

lemma tripleD:
  assumes "triple I P m Q E" "P (files d)" "m d = (r, d')"
  shows "went I d d'" "outcome Q E r (files d')"
  using assms by (auto simp: triple_def)

lemma outcome_mono:
  "outcome Q E r fs \<Longrightarrow> (\<And>x fs. Q x fs \<Longrightarrow> Q' x fs) \<Longrightarrow> (\<And>fs. E fs \<Longrightarrow> E' fs) \<Longrightarrow> outcome Q' E' r fs"
  by (cases r) simp_all

lemma triple_mono:
  assumes "triple I P m Q E" "\<And>fs. P' fs \<Longrightarrow> P fs" "\<And>x fs. Q x fs \<Longrightarrow> Q' x fs" "\<And>fs. E fs \<Longrightarrow> E' fs"
  shows "triple I P' m Q' E'"
  using tripleD [OF assms(1)] assms(2-) by (intro tripleI conjI) (blast intro: outcome_mono)+

lemma triple_if [hoare]:
  "(b \<Longrightarrow> triple I P m Q E) \<Longrightarrow> (\<not> b \<Longrightarrow> triple I P m' Q E) \<Longrightarrow> triple I P (if b then m else m') Q E"
  by simp

lemma triple_bind:
  assumes "triple I P m Q E" "\<And>x. triple I (Q x) (f x) R E"
  shows "triple I P (bind_io m f) R E"
proof (rule tripleI)
  fix d r d' assume P: "P (files d)" and b: "bind_io m f d = (r, d')"
  obtain r1 d1 where m: "m d = (r1, d1)" by (metis prod.collapse)
  note M = tripleD [OF assms(1) P m]
  show "went I d d' \<and> outcome R E r (files d')"
  proof (cases r1)
    case (Inr x)
    then have "f x d1 = (r, d')" "Q x (files d1)" using b m M(2) by (simp_all add: bind_io_def)
    with tripleD [OF assms(2)] went_trans [OF M(1)] show ?thesis by blast
  qed (use M b m in \<open>auto simp: bind_io_def\<close>)
qed

lemma triple_return: "(\<And>fs. P fs \<Longrightarrow> I fs \<and> Q x fs) \<Longrightarrow> triple I P (return_io x) Q E"
  by (auto simp: triple_def return_io_def went_refl)

lemma triple_fail: "(\<And>fs. P fs \<Longrightarrow> I fs \<and> E fs) \<Longrightarrow> triple I P (fail_io e) Q E"
  by (auto simp: triple_def fail_io_def went_refl)

lemma triple_ask: "(\<And>fs. P fs \<Longrightarrow> I fs \<and> outcome Q E (q fs) fs) \<Longrightarrow> triple I P (ask_io q) Q E"
  by (auto simp: triple_def ask_io_def went_refl)

text \<open>One call: nothing changes when it fails.\<close>

lemma triple_call:
  assumes "\<And>fs. P fs \<Longrightarrow> I fs \<and> E fs" "\<And>fs fs'. P fs \<Longrightarrow> op fs = Inr fs' \<Longrightarrow> I fs' \<and> Q () fs'"
  shows "triple I P (call_io f (attempt op)) Q E"
proof (rule tripleI)
  fix d :: disk and r d' assume "P (files d)" "call_io f (attempt op) d = (r, d')"
  then show "went I d d' \<and> outcome Q E r (files d')"
    using assms by (rule_tac attempt_cases [of op d]) (auto simp: call_io_def went_def)
qed

lemma triple_ignore:
  assumes "\<And>fs. P fs \<Longrightarrow> I fs \<and> Q () fs" "\<And>fs fs'. P fs \<Longrightarrow> op fs = Inr fs' \<Longrightarrow> I fs' \<and> Q () fs'"
  shows "triple I P (ignore_io (attempt op)) Q E"
proof (rule tripleI)
  fix d :: disk and r d' assume "P (files d)" "ignore_io (attempt op) d = (r, d')"
  then show "went I d d' \<and> outcome Q E r (files d')"
    using assms by (rule_tac attempt_cases [of op d]) (auto simp: ignore_io_def went_def)
qed

lemma triple_wrap [hoare]: "triple I P m Q E \<Longrightarrow> triple I P (wrap_io msg m) Q E"
proof (rule tripleI)
  fix d :: disk and r d' assume t: "triple I P m Q E" "P (files d)" "wrap_io msg m d = (r, d')"
  obtain r1 d1 where m: "m d = (r1, d1)" by (metis prod.collapse)
  show "went I d d' \<and> outcome Q E r (files d')"
    using tripleD [OF t(1,2) m] t(3) m by (cases r1) (auto simp: wrap_io_def)
qed

lemma triple_on_error:
  assumes "triple I P m Q E1" "\<And>d. E1 (files d) \<Longrightarrow> went I d (h d) \<and> E (files (h d))"
  shows "triple I P (on_error m h) Q E"
proof (rule tripleI)
  fix d r d' assume P: "P (files d)" and b: "on_error m h d = (r, d')"
  obtain r1 d1 where m: "m d = (r1, d1)" by (metis prod.collapse)
  note M = tripleD [OF assms(1) P m]
  show "went I d d' \<and> outcome Q E r (files d')"
    using M assms(2) [of d1] went_trans [OF M(1)] b m by (cases r1) (auto simp: on_error_def)
qed

text \<open>A handler that makes ignored calls: it keeps every condition the calls keep.\<close>

lemma went_ignore:
  assumes "E (files d)" "\<And>fs. E fs \<Longrightarrow> I fs" "\<And>fs fs'. E fs \<Longrightarrow> op fs = Inr fs' \<Longrightarrow> E fs'"
  shows "went I d (snd (attempt op d)) \<and> E (files (snd (attempt op d)))"
  using assms by (rule_tac attempt_cases [of op d]) (auto simp: went_def)

lemma triple_mkdir_real:
  assumes "\<And>fs. P fs \<Longrightarrow> I fs \<and> real_dir (node_at fs) p" "good p"
  shows "triple I P (io_mkdir_all (path_of p)) (\<lambda>_. P) E"
  using assms by (auto simp: triple_def io_mkdir_all_def call_io_def mkdir_all_real went_refl)

end
