(* ===== verification/GoJson.thy ===== *)
theory GoJson
  imports GoStrings
begin

section \<open>Go's encoding/json package\<close>

text \<open>
  JSON values and the decoder. An object is an association list without repeated keys, in an
  order in which Go may iterate over the resulting \<^verbatim>\<open>map[string]any\<close>; a number keeps its
  literal (\<^verbatim>\<open>json.Number\<close>), from which \<open>int64_of_float\<close> computes what \<^verbatim>\<open>int64(float64)\<close>
  of it is.

  The decoder follows the scanner of encoding/json: white space is space, tab, CR and LF; a
  nesting deeper than 10000 is an error; strings are unescaped, lone surrogates and bytes that
  are no UTF-8 become U+FFFD; of a repeated key the last value counts.
\<close>

datatype json =
    JNull
  | JBool bool
  | JNum string
  | JStr string
  | JArr "json list"
  | JObj "(string \<times> json) list"

subsection \<open>UTF-8\<close>

definition cont :: "char \<Rightarrow> bool" where
  "cont c = (128 \<le> byte c \<and> byte c < 192)"

text \<open>The length of the well-formed encoding of a rune at the head of the string, 0 for none.\<close>

definition rune_len :: "string \<Rightarrow> nat" where
  "rune_len s =
     (case s of
        [] \<Rightarrow> 0
      | a # t \<Rightarrow>
          if byte a < 128 then 1
          else (case t of
            [] \<Rightarrow> 0
          | b # u \<Rightarrow>
              if 194 \<le> byte a \<and> byte a < 224 then (if cont b then 2 else 0)
              else (case u of
                [] \<Rightarrow> 0
              | c # v \<Rightarrow>
                  if 224 \<le> byte a \<and> byte a < 240 then
                    (if cont b \<and> cont c \<and> (byte a = 224 \<longrightarrow> 160 \<le> byte b) \<and>
                        (byte a = 237 \<longrightarrow> byte b < 160) then 3 else 0)
                  else (case v of
                    [] \<Rightarrow> 0
                  | d # w \<Rightarrow>
                      if 240 \<le> byte a \<and> byte a < 245 \<and> cont b \<and> cont c \<and> cont d \<and>
                         (byte a = 240 \<longrightarrow> 144 \<le> byte b) \<and> (byte a = 244 \<longrightarrow> byte b < 144)
                      then 4 else 0))))"

definition encode_rune :: "int \<Rightarrow> string" where
  "encode_rune n =
     (if n < 128 then [char_of n]
      else if n < 2048 then [char_of (192 + n div 64), char_of (128 + n mod 64)]
      else if n < 65536 then
        [char_of (224 + n div 4096), char_of (128 + n div 64 mod 64), char_of (128 + n mod 64)]
      else [char_of (240 + n div 262144), char_of (128 + n div 4096 mod 64),
            char_of (128 + n div 64 mod 64), char_of (128 + n mod 64)])"

definition replacement_rune :: int where
  "replacement_rune = 65533"

subsection \<open>Literals\<close>

definition json_ws :: "char \<Rightarrow> bool" where
  "json_ws c = (c = CHR 0x20 \<or> c = CHR 0x09 \<or> c = CHR 0x0D \<or> c = CHR 0x0A)"

definition skip_ws :: "string \<Rightarrow> string" where
  "skip_ws s = dropWhile json_ws s"

definition digit :: "char \<Rightarrow> bool" where
  "digit c = (48 \<le> byte c \<and> byte c < 58)"

text \<open>The longest number at the head of the string: literal and rest.\<close>

definition lex_digits1 :: "string \<Rightarrow> (string \<times> string) option" where
  "lex_digits1 s = (if takeWhile digit s = [] then None else Some (takeWhile digit s, dropWhile digit s))"

definition lex_int :: "string \<Rightarrow> (string \<times> string) option" where
  "lex_int s =
     (case s of
        [] \<Rightarrow> None
      | c # t \<Rightarrow> if c = CHR ''0'' then Some (''0'', t) else lex_digits1 s)"

definition lex_frac :: "string \<Rightarrow> (string \<times> string) option" where
  "lex_frac s =
     (case s of
        [] \<Rightarrow> Some ([], [])
      | c # t \<Rightarrow>
          if c = CHR ''.'' then map_option (\<lambda>(ds, r). (c # ds, r)) (lex_digits1 t)
          else Some ([], s))"

definition lex_exp :: "string \<Rightarrow> (string \<times> string) option" where
  "lex_exp s =
     (case s of
        [] \<Rightarrow> Some ([], [])
      | c # t \<Rightarrow>
          if c = CHR ''e'' \<or> c = CHR ''E'' then
            (case t of
               [] \<Rightarrow> None
             | d # u \<Rightarrow>
                 if d = CHR ''+'' \<or> d = CHR ''-''
                 then map_option (\<lambda>(ds, r). (c # d # ds, r)) (lex_digits1 u)
                 else map_option (\<lambda>(ds, r). (c # ds, r)) (lex_digits1 t))
          else Some ([], s))"

definition lex_number :: "string \<Rightarrow> (string \<times> string) option" where
  "lex_number s =
     (let neg = prefix ''-'' s;
          sg = (if neg then ''-'' else []);
          s0 = (if neg then drop 1 s else s)
      in case lex_int s0 of
           None \<Rightarrow> None
         | Some (i, s1) \<Rightarrow>
             (case lex_frac s1 of
                None \<Rightarrow> None
              | Some (f, s2) \<Rightarrow>
                  (case lex_exp s2 of
                     None \<Rightarrow> None
                   | Some (e, s3) \<Rightarrow> Some (sg @ i @ f @ e, s3))))"

definition hex_val :: "char \<Rightarrow> int option" where
  "hex_val c =
     (if digit c then Some (byte c - 48)
      else if 97 \<le> byte c \<and> byte c \<le> 102 then Some (byte c - 87)
      else if 65 \<le> byte c \<and> byte c \<le> 70 then Some (byte c - 55)
      else None)"

text \<open>Four hexadecimal digits at the head.\<close>

definition hex4 :: "string \<Rightarrow> int option" where
  "hex4 s =
     (case s of
        a # b # c # d # _ \<Rightarrow>
          (case (hex_val a, hex_val b, hex_val c, hex_val d) of
             (Some w, Some x, Some y, Some z) \<Rightarrow> Some (((w * 16 + x) * 16 + y) * 16 + z)
           | _ \<Rightarrow> None)
      | _ \<Rightarrow> None)"

definition simple_escape :: "char \<Rightarrow> char option" where
  "simple_escape c =
     (if c = CHR 0x22 \<or> c = CHR 0x5C \<or> c = CHR ''/'' then Some c
      else if c = CHR ''b'' then Some CHR 0x08
      else if c = CHR ''f'' then Some CHR 0x0C
      else if c = CHR ''n'' then Some CHR 0x0A
      else if c = CHR ''r'' then Some CHR 0x0D
      else if c = CHR ''t'' then Some CHR 0x09
      else None)"

text \<open>
  After \<^verbatim>\<open>\u\<close> with value \<open>r\<close>: the rune, and how many further bytes belong to it (6 when a
  second escape completes a surrogate pair).
\<close>

definition surrogate :: "int \<Rightarrow> string \<Rightarrow> int \<times> nat" where
  "surrogate r rest =
     (if r < 55296 \<or> 57344 \<le> r then (r, 0)
      else if r < 56320 then
        (case rest of
           a # b # t \<Rightarrow>
             (if a = CHR 0x5C \<and> b = CHR ''u'' then
                (case hex4 t of
                   Some l \<Rightarrow>
                     if 56320 \<le> l \<and> l < 57344
                     then (65536 + (r - 55296) * 1024 + (l - 56320), 6)
                     else (replacement_rune, 0)
                 | None \<Rightarrow> (replacement_rune, 0))
              else (replacement_rune, 0))
         | _ \<Rightarrow> (replacement_rune, 0))
      else (replacement_rune, 0))"

text \<open>
  One unit of a string body, which is not the closing quote: the decoded bytes and what follows.
\<close>

definition dec_unit :: "string \<Rightarrow> (string \<times> string) option" where
  "dec_unit s =
     (case s of
        [] \<Rightarrow> None
      | c # t \<Rightarrow>
          if byte c < 32 then None
          else if c = CHR 0x5C then
            (case t of
               [] \<Rightarrow> None
             | e # u \<Rightarrow>
                 if e = CHR ''u'' then
                   (case hex4 u of
                      None \<Rightarrow> None
                    | Some r \<Rightarrow>
                        let (n, k) = surrogate r (drop 4 u)
                        in Some (encode_rune n, drop (4 + k) u))
                 else (case simple_escape e of
                         None \<Rightarrow> None
                       | Some x \<Rightarrow> Some ([x], u)))
          else if rune_len s = 0 then Some (encode_rune replacement_rune, t)
          else Some (take (rune_len s) s, drop (rune_len s) s))"

lemma dec_unit_shorter: "dec_unit s = Some (x, r) \<Longrightarrow> length r < length s"
  by (auto simp: dec_unit_def split: list.splits if_splits option.splits prod.splits)

text \<open>The rest of a string after its opening quote: the decoded bytes and what follows.\<close>

function dec_string :: "string \<Rightarrow> (string \<times> string) option" where
  "dec_string s =
     (if prefix [CHR 0x22] s then Some ([], drop 1 s)
      else (case dec_unit s of
              None \<Rightarrow> None
            | Some (x, r) \<Rightarrow> map_option (\<lambda>(y, z). (x @ y, z)) (dec_string r)))"
  by pat_completeness auto
termination by (relation "measure length") (auto dest: dec_unit_shorter)

declare dec_string.simps [simp del]

subsection \<open>Values\<close>

definition put_member :: "string \<Rightarrow> json \<Rightarrow> (string \<times> json) list \<Rightarrow> (string \<times> json) list" where
  "put_member k v m = filter (\<lambda>(k', _). k' \<noteq> k) m @ [(k, v)]"

definition literal :: "string \<Rightarrow> json \<Rightarrow> string \<Rightarrow> (json \<times> string) option" where
  "literal word v s = (if prefix word s then Some (v, drop (length word) s) else None)"

text \<open>
  The elements of an array and the members of an object, for a decoder \<open>p\<close> of one value. Each
  round consumes at least a comma or the closing bracket, so the length of the input bounds the
  number of rounds.
\<close>

fun dec_elems :: "(string \<Rightarrow> (json \<times> string) option) \<Rightarrow> nat \<Rightarrow> string \<Rightarrow> (json list \<times> string) option" where
  "dec_elems p 0 s = None"
| "dec_elems p (Suc n) s =
     (case p s of
        None \<Rightarrow> None
      | Some (v, r) \<Rightarrow>
          (case skip_ws r of
             [] \<Rightarrow> None
           | c # t \<Rightarrow>
               if c = CHR '','' then map_option (\<lambda>(vs, u). (v # vs, u)) (dec_elems p n t)
               else if c = CHR '']'' then Some ([v], t)
               else None))"

text \<open>One member, up to its value: key and rest after the colon.\<close>

definition dec_key :: "string \<Rightarrow> (string \<times> string) option" where
  "dec_key s =
     (case skip_ws s of
        [] \<Rightarrow> None
      | q # s1 \<Rightarrow>
          if q \<noteq> CHR 0x22 then None
          else (case dec_string s1 of
            None \<Rightarrow> None
          | Some (k, s2) \<Rightarrow>
              (case skip_ws s2 of
                 [] \<Rightarrow> None
               | c # s3 \<Rightarrow> if c = CHR '':'' then Some (k, s3) else None)))"

text \<open>
  \<open>put\<close> adds a member to those decoded so far: \<open>put_member\<close> for a map, where the last value of a
  key counts, and \<open>add_member\<close> for a struct, whose fields are set one member after the other.
\<close>

definition add_member :: "string \<Rightarrow> json \<Rightarrow> (string \<times> json) list \<Rightarrow> (string \<times> json) list" where
  "add_member k v m = m @ [(k, v)]"

type_synonym put = "string \<Rightarrow> json \<Rightarrow> (string \<times> json) list \<Rightarrow> (string \<times> json) list"

fun dec_members ::
    "put \<Rightarrow> (string \<Rightarrow> (json \<times> string) option) \<Rightarrow> nat \<Rightarrow> (string \<times> json) list \<Rightarrow> string
      \<Rightarrow> ((string \<times> json) list \<times> string) option" where
  "dec_members put p 0 m s = None"
| "dec_members put p (Suc n) m s =
     (case dec_key s of
        None \<Rightarrow> None
      | Some (k, s3) \<Rightarrow>
          (case p s3 of
             None \<Rightarrow> None
           | Some (v, s4) \<Rightarrow>
               (case skip_ws s4 of
                  [] \<Rightarrow> None
                | c # t \<Rightarrow>
                    if c = CHR '','' then dec_members put p n (put k v m) t
                    else if c = CHR ''}'' then Some (put k v m, t)
                    else None)))"

text \<open>
  One value. \<open>inner\<close> decodes the values inside it; there is none when the nesting limit is
  reached, and then an opening bracket is an error.
\<close>

definition dec_shape ::
    "put \<Rightarrow> (string \<Rightarrow> (json \<times> string) option) option \<Rightarrow> string \<Rightarrow> (json \<times> string) option" where
  "dec_shape put inner s =
     (case skip_ws s of
        [] \<Rightarrow> None
      | c # t \<Rightarrow>
          if c = CHR 0x22 then map_option (\<lambda>(x, r). (JStr x, r)) (dec_string t)
          else if c = CHR ''{'' then
            (case inner of
               None \<Rightarrow> None
             | Some p \<Rightarrow>
                 (if prefix ''}'' (skip_ws t) then Some (JObj [], drop 1 (skip_ws t))
                  else map_option (\<lambda>(m, r). (JObj m, r)) (dec_members put p (length t) [] t)))
          else if c = CHR ''['' then
            (case inner of
               None \<Rightarrow> None
             | Some p \<Rightarrow>
                 (if prefix '']'' (skip_ws t) then Some (JArr [], drop 1 (skip_ws t))
                  else map_option (\<lambda>(xs, r). (JArr xs, r)) (dec_elems p (length t) t)))
          else if c = CHR ''t'' then literal ''true'' (JBool True) (c # t)
          else if c = CHR ''f'' then literal ''false'' (JBool False) (c # t)
          else if c = CHR ''n'' then literal ''null'' JNull (c # t)
          else map_option (\<lambda>(l, r). (JNum l, r)) (lex_number (c # t)))"

text \<open>\<open>dec_value d\<close> allows \<open>d\<close> levels of nesting.\<close>

fun dec_value :: "nat \<Rightarrow> string \<Rightarrow> (json \<times> string) option" where
  "dec_value 0 s = dec_shape put_member None s"
| "dec_value (Suc d) s = dec_shape put_member (Some (\<lambda>u. dec_value d u)) s"

text \<open>
  \<^verbatim>\<open>Decoder.Decode\<close>: the first value of the input and what follows it, end of input, or an
  error. \<^verbatim>\<open>json.Unmarshal\<close> wants nothing but white space after the value.
\<close>

datatype decoded = DecEOF | DecErr | DecOk json string

definition decode_first :: "string \<Rightarrow> decoded" where
  "decode_first s =
     (if skip_ws s = [] then DecEOF
      else case dec_value 10000 s of
             None \<Rightarrow> DecErr
           | Some (v, r) \<Rightarrow> DecOk v r)"

definition decode_all :: "string \<Rightarrow> json option" where
  "decode_all s =
     (case decode_first s of
        DecOk v r \<Rightarrow> if skip_ws r = [] then Some v else None
      | _ \<Rightarrow> None)"

text \<open>
  Decoding into a \<^verbatim>\<open>map[string]any\<close>: \<^verbatim>\<open>null\<close> leaves the nil map, which reads like an empty
  one, and another value is an error.
\<close>

definition as_map :: "json \<Rightarrow> (string \<times> json) list option" where
  "as_map v = (case v of JObj m \<Rightarrow> Some m | JNull \<Rightarrow> Some [] | _ \<Rightarrow> None)"

text \<open>
  \<^verbatim>\<open>json.Unmarshal\<close> into a struct: the members of the object in their order, none for
  \<^verbatim>\<open>null\<close> and other values (whose error the caller of \<open>struct_members\<close> ignores), or \<open>None\<close> when
  the text is no JSON. \<open>field_is\<close> says which members set a field: names match without regard to
  case.
\<close>

definition struct_members :: "string \<Rightarrow> (string \<times> json) list option" where
  "struct_members s =
     (case dec_shape add_member (Some (dec_value 9999)) s of
        None \<Rightarrow> None
      | Some (v, r) \<Rightarrow>
          if skip_ws r \<noteq> [] then None
          else Some (case v of JObj m \<Rightarrow> m | _ \<Rightarrow> []))"

definition field_is :: "string \<Rightarrow> string \<Rightarrow> bool" where
  "field_is name key = equal_fold name key"

subsection \<open>Numbers\<close>

text \<open>
  A literal stands for \<open>\<plusminus> m * 10 ^ e\<close>. \<open>float_trunc n d\<close> is the integer part of the float64
  nearest to \<open>n / d\<close> (53 bits, ties to even; a value below 1 needs no more care, since only its
  integer part is wanted). \<open>int64_of_float\<close> is \<^verbatim>\<open>int64(f)\<close> of that float; the language leaves
  the result open when it does not fit, and the value here is the one of amd64, for which the
  plugin is built.
\<close>

fun int_of_digits :: "int \<Rightarrow> string \<Rightarrow> int" where
  "int_of_digits acc [] = acc"
| "int_of_digits acc (c # s) = int_of_digits (10 * acc + (byte c - 48)) s"

definition lit_parts :: "string \<Rightarrow> bool \<times> int \<times> int" where
  "lit_parts l =
     (let neg = prefix ''-'' l;
          s0 = (if neg then drop 1 l else l);
          i = takeWhile digit s0;
          s1 = dropWhile digit s0;
          f = (if prefix ''.'' s1 then takeWhile digit (drop 1 s1) else []);
          s2 = (if prefix ''.'' s1 then dropWhile digit (drop 1 s1) else s1);
          ex = (if prefix ''e'' s2 \<or> prefix ''E'' s2 then
                  (let s3 = drop 1 s2
                   in if prefix ''-'' s3 then - int_of_digits 0 (drop 1 s3)
                      else if prefix ''+'' s3 then int_of_digits 0 (drop 1 s3)
                      else int_of_digits 0 s3)
                else 0)
      in (neg, int_of_digits 0 (i @ f), ex - int (length f)))"

text \<open>The absolute value of a literal as a fraction.\<close>

definition lit_ratio :: "string \<Rightarrow> int \<times> int" where
  "lit_ratio l =
     (let (_, m, e) = lit_parts l
      in if 0 \<le> e then (m * 10 ^ nat e, 1) else (m, 10 ^ nat (- e)))"

definition round_half_even :: "int \<Rightarrow> int \<Rightarrow> int" where
  "round_half_even n d =
     (let q = n div d; r = n mod d
      in if 2 * r < d \<or> (2 * r = d \<and> even q) then q else q + 1)"

function bit_length :: "int \<Rightarrow> nat" where
  "bit_length n = (if n \<le> 0 then 0 else Suc (bit_length (n div 2)))"
  by pat_completeness auto
termination by (relation "measure nat") auto

declare bit_length.simps [simp del]

function scale_up :: "int \<Rightarrow> int \<Rightarrow> int \<Rightarrow> int \<times> int" where
  "scale_up k n d =
     (if k < 1074 \<and> n * 2 < d * 9007199254740992 then scale_up (k + 1) (n * 2) d else (k, n))"
  by pat_completeness auto
termination by (relation "measure (\<lambda>(k, n, d). nat (1074 - k))") auto

declare scale_up.simps [simp del]

text \<open>The constants are \<open>2 ^ 53\<close> here, and \<open>2 ^ 63\<close> and \<open>2 ^ 64\<close> below.\<close>

definition float_trunc :: "int \<Rightarrow> int \<Rightarrow> int" where
  "float_trunc n d =
     (if n = 0 then 0
      else if n div d \<ge> 9007199254740992 then
        (let e = bit_length (n div d) - 53 in round_half_even n (d * 2 ^ e) * 2 ^ e)
      else (let (k, m) = scale_up 0 n d in round_half_even m d div 2 ^ nat k))"

text \<open>Whether \<^verbatim>\<open>strconv.ParseFloat\<close> accepts the literal: it does not round to infinity.\<close>

definition float_in_range :: "string \<Rightarrow> bool" where
  "float_in_range l =
     (let (n, d) = lit_ratio l
      in if n < d * 18446744073709551616 then True else n < d * ((2 ^ 54 - 1) * 2 ^ 970))"

definition int64_of_float :: "string \<Rightarrow> int" where
  "int64_of_float l =
     (if \<not> float_in_range l then - 9223372036854775808
      else let (n, d) = lit_ratio l;
               t = float_trunc n d;
               v = (if fst (lit_parts l) then - t else t)
           in if - 9223372036854775808 \<le> v \<and> v < 9223372036854775808 then v
              else - 9223372036854775808)"

text \<open>
  Without \<^verbatim>\<open>UseNumber\<close> the decoder turns every number into a float64 and fails when one does
  not fit.
\<close>

fun floats_ok :: "json \<Rightarrow> bool" where
  "floats_ok (JNum l) = float_in_range l"
| "floats_ok (JArr xs) = list_all floats_ok xs"
| "floats_ok (JObj m) = list_all (\<lambda>(k, v). floats_ok v) m"
| "floats_ok _ = True"

definition unmarshal_any :: "string \<Rightarrow> json option" where
  "unmarshal_any s =
     (case decode_all s of
        None \<Rightarrow> None
      | Some v \<Rightarrow> if floats_ok v then Some v else None)"

subsection \<open>Objects have distinct keys\<close>

fun wf_json :: "json \<Rightarrow> bool" where
  "wf_json (JArr xs) = list_all wf_json xs"
| "wf_json (JObj m) = (distinct (map fst m) \<and> list_all (\<lambda>(k, v). wf_json v) m)"
| "wf_json _ = True"

lemma put_member_keys: "distinct (map fst m) \<Longrightarrow> distinct (map fst (put_member k v m))"
  by (auto simp: put_member_def distinct_map_filter)

lemma put_member_wf:
  "list_all (\<lambda>(k, v). wf_json v) m \<Longrightarrow> wf_json v \<Longrightarrow> list_all (\<lambda>(k, v). wf_json v) (put_member k v m)"
  by (auto simp: put_member_def list_all_iff)

lemma map_of_put_member: "map_of (put_member k v m) = (map_of m)(k \<mapsto> v)"
proof
  fix x
  have "map_of (filter (\<lambda>(k', _). k' \<noteq> k) m) x = (if x = k then None else map_of m x)"
    by (induction m) auto
  then show "map_of (put_member k v m) x = ((map_of m)(k \<mapsto> v)) x"
    by (auto simp: put_member_def map_add_def split: option.splits)
qed

lemma put_member_obj:
  "wf_json (JObj m) \<Longrightarrow> wf_json v \<Longrightarrow> wf_json (JObj (put_member k v m))"
  by (simp add: put_member_keys put_member_wf)

lemma dec_elems_wf:
  assumes "\<And>u v r. p u = Some (v, r) \<Longrightarrow> wf_json v"
  shows "dec_elems p n s = Some (vs, r) \<Longrightarrow> list_all wf_json vs"
  by (induction n arbitrary: s vs) (auto split: option.splits list.splits if_splits dest!: assms)

lemma dec_members_wf:
  assumes "\<And>u v r. p u = Some (v, r) \<Longrightarrow> wf_json v"
  shows "dec_members put_member p n m s = Some (m', r) \<Longrightarrow> wf_json (JObj m) \<Longrightarrow> wf_json (JObj m')"
proof (induction n arbitrary: m s)
  case (Suc n)
  from Suc.prems(1) obtain k s3 v s4 c t where
    k: "dec_key s = Some (k, s3)" "p s3 = Some (v, s4)" "skip_ws s4 = c # t"
    and step: "dec_members put_member p n (put_member k v m) t = Some (m', r) \<or> m' = put_member k v m"
    by (auto split: option.splits list.splits if_splits)
  have "wf_json (JObj (put_member k v m))"
    by (rule put_member_obj [OF Suc.prems(2) assms [OF k(2)]])
  with step Suc.IH show ?case by blast
qed simp

lemma dec_shape_wf:
  assumes "\<And>p u v r. inner = Some p \<Longrightarrow> p u = Some (v, r) \<Longrightarrow> wf_json v"
    and "dec_shape put_member inner s = Some (v, r)"
  shows "wf_json v"
  using assms(2)
  by (auto simp: dec_shape_def literal_def split: list.splits if_splits option.splits
      dest!: dec_elems_wf [rotated] dec_members_wf [rotated] dest: assms(1))

lemma dec_value_wf: "dec_value d s = Some (v, r) \<Longrightarrow> wf_json v"
proof (induction d arbitrary: s v r)
  case (Suc d)
  from Suc.prems have "dec_shape put_member (Some (\<lambda>u. dec_value d u)) s = Some (v, r)" by simp
  then show ?case by (rule dec_shape_wf [rotated]) (use Suc.IH in auto)
qed (auto intro: dec_shape_wf [rotated])

lemma decode_first_wf: "decode_first s = DecOk v r \<Longrightarrow> wf_json v"
  by (auto simp: decode_first_def dec_value_wf split: if_splits option.splits)

lemma decode_all_wf: "decode_all s = Some v \<Longrightarrow> wf_json v"
  by (auto simp: decode_all_def decode_first_wf split: decoded.splits if_splits)

lemma unmarshal_any_wf: "unmarshal_any s = Some v \<Longrightarrow> wf_json v"
  by (auto simp: unmarshal_any_def decode_all_wf split: option.splits if_splits)

subsection \<open>Decoding consumes its input\<close>

text \<open>
  What follows a decoded value is shorter than the input, so the bounds on the loops over
  elements and members are never what stops them.
\<close>

lemma skip_ws_length: "length (skip_ws s) \<le> length s"
  by (simp add: skip_ws_def length_dropWhile_le)

lemma skip_ws_idem [simp]: "skip_ws (skip_ws s) = skip_ws s"
  by (simp add: skip_ws_def)

lemma skip_ws_Cons: "skip_ws s = c # t \<Longrightarrow> length t < length s"
  using skip_ws_length [of s] by simp

lemma dec_string_shorter: "dec_string s = Some (x, r) \<Longrightarrow> length r < length s"
proof (induction s arbitrary: x r rule: dec_string.induct)
  case (1 s)
  show ?case
  proof (cases "prefix [CHR 0x22] s")
    case True
    then have "s \<noteq> []" by auto
    with True 1(2) show ?thesis by (cases s) (simp_all add: dec_string.simps)
  next
    case False
    with 1(2) obtain y z w where u: "dec_unit s = Some (y, z)" "dec_string z = Some (w, r)"
      by (subst (asm) dec_string.simps) (auto split: option.splits)
    with 1(1) [OF False u(1) refl] dec_unit_shorter [of s] show ?thesis by fastforce
  qed
qed

lemma lex_digits1_shorter: "lex_digits1 s = Some (x, r) \<Longrightarrow> length r < length s"
proof -
  assume "lex_digits1 s = Some (x, r)"
  then have "takeWhile digit s \<noteq> []" "r = dropWhile digit s"
    by (auto simp: lex_digits1_def split: if_splits)
  moreover have "length (takeWhile digit s) + length (dropWhile digit s) = length s"
    by (metis length_append takeWhile_dropWhile_id)
  ultimately show ?thesis by (cases "takeWhile digit s") auto
qed

lemma lex_number_shorter: "lex_number s = Some (x, r) \<Longrightarrow> length r < length s"
proof -
  assume n: "lex_number s = Some (x, r)"
  define s0 where "s0 = (if prefix ''-'' s then drop 1 s else s)"
  have "length s0 \<le> length s" by (simp add: s0_def)
  moreover from n obtain i s1 f s2 e where
    "lex_int s0 = Some (i, s1)" "lex_frac s1 = Some (f, s2)" "lex_exp s2 = Some (e, r)"
    by (auto simp: lex_number_def Let_def s0_def split: option.splits if_splits)
  moreover from this have "length s1 < length s0"
    by (auto simp: lex_int_def dest: lex_digits1_shorter split: list.splits if_splits)
  moreover from calculation have "length s2 \<le> length s1"
    by (auto simp: lex_frac_def dest!: lex_digits1_shorter split: list.splits if_splits)
  moreover from calculation have "length r \<le> length s2"
    by (auto simp: lex_exp_def dest!: lex_digits1_shorter split: list.splits if_splits)
  ultimately show ?thesis by simp
qed

lemma dec_key_shorter: "dec_key s = Some (k, r) \<Longrightarrow> length r < length s"
  by (fastforce simp: dec_key_def dest!: skip_ws_Cons dec_string_shorter
      split: list.splits if_splits option.splits)

lemma dec_elems_shorter:
  assumes "\<And>u v r. p u = Some (v, r) \<Longrightarrow> length r < length u"
  shows "dec_elems p n s = Some (vs, r) \<Longrightarrow> length r < length s"
  by (induction n arbitrary: s vs)
    (fastforce split: option.splits list.splits if_splits dest!: assms skip_ws_Cons)+

lemma dec_members_shorter:
  assumes "\<And>u v r. p u = Some (v, r) \<Longrightarrow> length r < length u"
  shows "dec_members put p n m s = Some (m', r) \<Longrightarrow> length r < length s"
  by (induction n arbitrary: s m)
    (fastforce split: option.splits list.splits if_splits dest!: assms skip_ws_Cons dec_key_shorter)+

lemma dec_shape_shorter:
  assumes "\<And>p u v r. inner = Some p \<Longrightarrow> p u = Some (v, r) \<Longrightarrow> length r < length u"
    and "dec_shape put inner s = Some (v, r)"
  shows "length r < length s"
proof -
  obtain c t where c: "skip_ws s = c # t" using assms(2)
    by (auto simp: dec_shape_def split: list.splits)
  then have t: "length t < length s" by (rule skip_ws_Cons)
  have d: "length (drop (Suc 0) (skip_ws t)) \<le> length t" using skip_ws_length [of t] by simp
  have l: "length (drop n (c # t)) < length s" if "0 < n" for n using t that by auto
  show ?thesis
    using assms(2) c t d l
    by (auto simp: dec_shape_def literal_def split: if_splits option.splits
        dest!: dec_string_shorter lex_number_shorter
          dec_elems_shorter [rotated] dec_members_shorter [rotated] dest: assms(1))
qed

lemma dec_value_shorter: "dec_value d s = Some (v, r) \<Longrightarrow> length r < length s"
proof (induction d arbitrary: s v r)
  case (Suc d)
  from Suc.prems have "dec_shape put_member (Some (\<lambda>u. dec_value d u)) s = Some (v, r)" by simp
  then show ?case by (rule dec_shape_shorter [rotated]) (use Suc.IH in auto)
qed (auto intro: dec_shape_shorter [rotated])

text \<open>More rounds than the length of the input change nothing.\<close>

lemma dec_elems_enough:
  assumes "\<And>u v r. p u = Some (v, r) \<Longrightarrow> length r < length u"
  shows "length s \<le> n \<Longrightarrow> length s \<le> n' \<Longrightarrow> dec_elems p n s = dec_elems p n' s"
proof (induction n arbitrary: s n')
  case 0
  then show ?case by (cases n') (auto split: option.splits dest: assms)
next
  case (Suc n)
  show ?case
  proof (cases "p s")
    case None
    then show ?thesis by (cases n') auto
  next
    case (Some vr)
    then obtain v r where p: "p s = Some (v, r)" by (cases vr) auto
    then have r: "length r < length s" by (rule assms)
    with Suc.prems obtain m where m: "n' = Suc m" by (cases n') auto
    show ?thesis
    proof (cases "skip_ws r")
      case (Cons c t)
      then have "length t < length r" by (rule skip_ws_Cons)
      with r Suc.prems m have "dec_elems p n t = dec_elems p m t" by (intro Suc.IH) auto
      with p m Cons show ?thesis by simp
    qed (use p m in simp)
  qed
qed

end
