(* ===== verification/GoMarshal.thy ===== *)
theory GoMarshal
  imports GoJson Errors
begin

section \<open>Go's json.Marshal\<close>

text \<open>
  The encoder of encoding/json: the keys of a map in ascending order, no white space, and the
  escapes of the default (HTML-safe) mode. Integers are the \<open>JNum\<close> of their decimal text.
\<close>

subsection \<open>Integers\<close>

function digits_of :: "int \<Rightarrow> string" where
  "digits_of n = (if n < 10 then [char_of (48 + n)] else digits_of (n div 10) @ [char_of (48 + n mod 10)])"
  by pat_completeness auto
termination by (relation "measure nat") auto

declare digits_of.simps [simp del]

definition show_int :: "int \<Rightarrow> string" where
  "show_int n = (if n < 0 then ''-'' @ digits_of (- n) else digits_of n)"

definition json_int :: "int \<Rightarrow> json" where
  "json_int n = JNum (show_int n)"

subsection \<open>Strings\<close>

definition enc_ascii :: "char \<Rightarrow> string" where
  "enc_ascii c =
     (if c = CHR 0x22 \<or> c = CHR 0x5C then [CHR 0x5C, c]
      else if c = CHR 0x08 then [CHR 0x5C, CHR ''b'']
      else if c = CHR 0x0C then [CHR 0x5C, CHR ''f'']
      else if c = CHR 0x0A then [CHR 0x5C, CHR ''n'']
      else if c = CHR 0x0D then [CHR 0x5C, CHR ''r'']
      else if c = CHR 0x09 then [CHR 0x5C, CHR ''t'']
      else if byte c < 32 \<or> c = CHR ''<'' \<or> c = CHR ''>'' \<or> c = CHR ''&''
        then [CHR 0x5C, CHR ''u'', CHR ''0'', CHR ''0'', hex_digit (byte c div 16), hex_digit (byte c)]
      else [c])"

definition enc_rune :: "string \<Rightarrow> string" where
  "enc_rune r =
     (if r = [CHR 0xE2, CHR 0x80, CHR 0xA8] then CHR 0x5C # ''u2028''
      else if r = [CHR 0xE2, CHR 0x80, CHR 0xA9] then CHR 0x5C # ''u2029''
      else r)"

lemma rune_len_pos_le: "rune_len s \<le> length s"
  by (auto simp: rune_len_def split: list.splits)

function enc_bytes :: "string \<Rightarrow> string" where
  "enc_bytes s =
     (case s of
        [] \<Rightarrow> []
      | c # t \<Rightarrow>
          if byte c < 128 then enc_ascii c @ enc_bytes t
          else if rune_len s = 0 then CHR 0x5C # ''ufffd'' @ enc_bytes t
          else enc_rune (take (rune_len s) s) @ enc_bytes (drop (rune_len s) s))"
  by pat_completeness auto
termination by (relation "measure length") auto

declare enc_bytes.simps [simp del]

definition enc_string :: "string \<Rightarrow> string" where
  "enc_string s = [CHR 0x22] @ enc_bytes s @ [CHR 0x22]"

subsection \<open>Values\<close>

definition sort_members :: "'v go_map \<Rightarrow> 'v go_map" where
  "sort_members m = sort_key fst m"

text \<open>The members are encoded where they stand, and the encoded members sorted by key.\<close>

fun marshal :: "json \<Rightarrow> string" where
  "marshal JNull = ''null''"
| "marshal (JBool b) = (if b then ''true'' else ''false'')"
| "marshal (JNum l) = l"
| "marshal (JStr s) = enc_string s"
| "marshal (JArr xs) = ''['' @ join_on '','' (map marshal xs) @ '']''"
| "marshal (JObj m) =
     ''{'' @ join_on '','' (map (\<lambda>(k, t). enc_string k @ '':'' @ t)
              (sort_members (map (\<lambda>(k, v). (k, marshal v)) m))) @ ''}''"

text \<open>A struct: its fields in the order of their declaration.\<close>

definition marshal_fields :: "(string \<times> json) list \<Rightarrow> string" where
  "marshal_fields fs =
     ''{'' @ join_on '','' (map (\<lambda>(k, v). enc_string k @ '':'' @ marshal v) fs) @ ''}''"

end
