(* ===== verification/Archive.thy ===== *)
theory Archive
  imports FsLogic GoMarshal "HOL-Library.Word"
begin

section \<open>Unpacking the agent package (internal/provider/installer.go)\<close>

text \<open>
  \<^verbatim>\<open>gzip\<close> and \<^verbatim>\<open>tar\<close> are modelled by what their readers deliver: an error when the package is
  opened, the entries in order, and the error that ends them if it is not the end of the archive.
  An entry has the bytes that can be read of it, and the error (other than the end of the data)
  with which reading it stops. Sizes are 64-bit integers; the tar reader delivers no negative one.
\<close>

datatype tar_type = TypeDir | TypeReg | TypeSymlink | TypeOther int

record tar_entry =
  te_Name :: string
  te_Type :: tar_type
  te_Mode :: int
  te_Linkname :: string
  te_Size :: "64 word"
  te_Data :: string
  te_CopyErr :: "string option"

record package =
  pk_OpenErr :: "string option"
  pk_Entries :: "tar_entry list"
  pk_EndErr :: "string option"

record extractLimits =
  MaxEntries :: int
  MaxExpandedBytes_lim :: int

record extractedArchive =
  BinaryPath :: string
  ArchiveRelativeBinaryPath :: string

text \<open>The variables of the loop.\<close>

record extraction =
  xt_entries :: int
  xt_total :: "64 word"
  xt_seen :: "string list"
  xt_bin :: string
  xt_binRel :: string

definition start_extraction :: extraction where
  "start_extraction = \<lparr>xt_entries = 0, xt_total = 0, xt_seen = [], xt_bin = [], xt_binRel = []\<rparr>"

definition safeArchivePath :: "string \<Rightarrow> (go_error, string) result" where
  "safeArchivePath name =
     (let c = clean (trim_prefix name ''./'')
      in if c = dot \<or> is_abs c \<or> prefix dotdot c \<or> contains c ''/../'' \<or> contains c [CHR 0x00]
         then Inl (PlainErr (''unsafe archive path '' @ quoted name))
         else Inr c)"

text \<open>\<open>safeMode\<close> as far as a file is executable or not; the mode of a directory is fixed.\<close>

definition safeMode :: "int \<Rightarrow> bool" where
  "safeMode m = (m div 1 mod 2 = 1 \<or> m div 8 mod 2 = 1 \<or> m div 64 mod 2 = 1)"

definition plain :: "string \<Rightarrow> go_error" where
  "plain s = PlainErr s"

definition extract_dir :: "string \<Rightarrow> extraction \<Rightarrow> extraction io" where
  "extract_dir target st = bind_io (io_mkdir_all target) (\<lambda>_. return_io st)"

definition is_agent :: "string \<Rightarrow> bool" where
  "is_agent c = (path_base c = ''agent'' \<or> path_base c = ''cursor-agent'')"

text \<open>Copying writes what can be read, then reports the error of reading.\<close>

definition copy_data :: "string \<Rightarrow> tar_entry \<Rightarrow> unit io" where
  "copy_data target h =
     bind_io (call_io (path_error ''write'' target) (attempt (sys_write target (te_Data h) (safeMode (te_Mode h)))))
       (\<lambda>_. case te_CopyErr h of Some e \<Rightarrow> fail_io (plain e) | None \<Rightarrow> return_io ())"

definition extract_file ::
    "extractLimits \<Rightarrow> string \<Rightarrow> string \<Rightarrow> tar_entry \<Rightarrow> extraction \<Rightarrow> extraction io" where
  "extract_file lim target c h st =
     (let total = xt_total st + te_Size h;
          st1 = st\<lparr>xt_total := total\<rparr>
      in if MaxExpandedBytes_lim lim > 0 \<and> sint total > MaxExpandedBytes_lim lim
         then fail_io (plain ''archive expanded size exceeds limit'')
         else bind_io (io_mkdir_all (path_dir target)) (\<lambda>_.
              bind_io (call_io (path_error ''open'' target)
                (attempt (sys_create target (safeMode (te_Mode h))))) (\<lambda>_.
              bind_io (copy_data target h) (\<lambda>_.
              return_io (if is_agent c then st1\<lparr>xt_bin := target, xt_binRel := c\<rparr> else st1)))))"

definition unsafe_link :: "string \<Rightarrow> string \<Rightarrow> bool" where
  "unsafe_link c linkname =
     (\<not> is_ok (safeArchivePath (path_join [path_dir c, linkname])) \<or> is_abs linkname \<or>
      contains linkname dotdot)"

definition extract_symlink :: "string \<Rightarrow> string \<Rightarrow> tar_entry \<Rightarrow> extraction \<Rightarrow> extraction io" where
  "extract_symlink target c h st =
     (if unsafe_link c (te_Linkname h) then fail_io (plain (''unsafe symlink '' @ quoted c))
      else bind_io (io_mkdir_all (path_dir target)) (\<lambda>_.
           bind_io (io_symlink (te_Linkname h) target) (\<lambda>_. return_io st)))"

definition extract_entry :: "extractLimits \<Rightarrow> string \<Rightarrow> tar_entry \<Rightarrow> extraction \<Rightarrow> extraction io" where
  "extract_entry lim dest h st0 =
     (let st1 = st0\<lparr>xt_entries := xt_entries st0 + 1\<rparr>
      in if MaxEntries lim > 0 \<and> xt_entries st1 > MaxEntries lim
         then fail_io (plain ''archive has too many entries'')
         else case safeArchivePath (te_Name h) of
           Inl e \<Rightarrow> fail_io e
         | Inr c \<Rightarrow>
             if List.member (xt_seen st1) c
             then fail_io (plain (''duplicate archive path '' @ quoted c))
             else (let st = st1\<lparr>xt_seen := c # xt_seen st1\<rparr>;
                       target = path_join [dest, c]
                   in case te_Type h of
                        TypeDir \<Rightarrow> extract_dir target st
                      | TypeReg \<Rightarrow> extract_file lim target c h st
                      | TypeSymlink \<Rightarrow> extract_symlink target c h st
                      | TypeOther f \<Rightarrow>
                          fail_io (plain (''unsupported archive entry type '' @ show_int f @ '' for '' @ quoted c))))"

fun extract_all ::
    "extractLimits \<Rightarrow> string \<Rightarrow> tar_entry list \<Rightarrow> extraction \<Rightarrow> extraction io" where
  "extract_all lim dest [] st d = return_io st d"
| "extract_all lim dest (h # hs) st d =
     bind_io (extract_entry lim dest h st) (extract_all lim dest hs) d"

definition safeExtractTarGz ::
    "package \<Rightarrow> string \<Rightarrow> extractLimits \<Rightarrow> extractedArchive io" where
  "safeExtractTarGz pkg dest lim =
     (case pk_OpenErr pkg of
        Some e \<Rightarrow> fail_io (WrapErr ''open Cursor package'' (plain e))
      | None \<Rightarrow>
          bind_io (extract_all lim dest (pk_Entries pkg) start_extraction) (\<lambda>st.
            case pk_EndErr pkg of
              Some e \<Rightarrow> fail_io (plain e)
            | None \<Rightarrow>
                if xt_bin st = [] then fail_io (plain ''cursor package did not contain agent binary'')
                else return_io \<lparr>BinaryPath = xt_bin st, ArchiveRelativeBinaryPath = xt_binRel st\<rparr>))"

text \<open>\<^verbatim>\<open>filepath.Rel\<close> of two paths, by their elements.\<close>

definition path_rel :: "string \<Rightarrow> string \<Rightarrow> string option" where
  "path_rel base targ =
     (let b = elems base; t = elems targ;
          k = length (longest_common_prefix b t);
          up = drop k b;
          down = drop k t
      in if is_abs base \<noteq> is_abs targ \<or> dotdot \<in> set up then None
         else let es = replicate (length up) dotdot @ down
              in Some (if es = [] then dot else join_on ''/'' es))"

text \<open>\<open>rel\<close> leads out of its base (the check that three functions of the code repeat).\<close>

definition escapes_base :: "string option \<Rightarrow> bool" where
  "escapes_base rel =
     (case rel of
        None \<Rightarrow> True
      | Some r \<Rightarrow> r = dot \<or> is_abs r \<or> prefix ''../'' r \<or> r = dotdot)"

definition validateExtractedBinaryPath :: "string \<Rightarrow> string \<Rightarrow> fs \<Rightarrow> (go_error, string) result" where
  "validateExtractedBinaryPath root rel fs =
     (case safeArchivePath rel of
        Inl e \<Rightarrow> Inl e
      | Inr c \<Rightarrow>
          (let candidate = path_join [root, c]
           in case evalSymlinks fs root of
                Inl e \<Rightarrow> Inl (WrapErr ''resolve Cursor agent version dir'' (path_error ''lstat'' root e))
              | Inr resolvedRoot \<Rightarrow>
                  (case evalSymlinks fs candidate of
                     Inl e \<Rightarrow> Inl (WrapErr ''resolve Cursor agent binary'' (path_error ''lstat'' candidate e))
                   | Inr resolved \<Rightarrow>
                       if escapes_base (path_rel resolvedRoot resolved)
                       then Inl (plain ''cursor agent binary escapes version dir'')
                       else Inr candidate)))"

subsection \<open>Paths of the archive\<close>

lemma sublist_join: "e \<in> set es \<Longrightarrow> sublist e (join_on sep es)"
proof (induction es)
  case (Cons a es)
  show ?case
  proof (cases "es = []")
    case False
    then have j: "join_on sep (a # es) = a @ sep @ join_on sep es" by (rule join_on_Cons)
    show ?thesis
    proof (cases "e = a")
      case False
      with Cons have "sublist e (join_on sep es)" by auto
      then show ?thesis unfolding j by (metis append.assoc sublist_appendI sublist_order.order_trans append_Nil2)
    qed (simp add: j)
  qed (use Cons in simp)
qed simp

lemma safeArchivePath_good:
  assumes "safeArchivePath name = Inr c"
  obtains p where "good p" "p \<noteq> []" "c = join_on ''/'' p"
proof -
  define x where "x = trim_prefix name ''./''"
  have c: "c = clean x" "clean x \<noteq> dot" "\<not> is_abs (clean x)" "\<not> prefix dotdot (clean x)"
    using assms by (auto simp: safeArchivePath_def Let_def x_def split: if_splits)
  then have na: "\<not> is_abs x" by simp
  then have e: "elems x \<noteq> []" "clean x = join_on ''/'' (elems x)"
    using c(2) by (auto simp: clean_def)
  obtain n rest where n: "elems x = replicate n dotdot @ rest" "dotdot \<notin> set rest" "list_all plain_elem (elems x)"
    using normal_elems [of x] by (rule normalE)
  have "n = 0"
  proof (rule ccontr)
    assume "n \<noteq> 0"
    then obtain m where "elems x = dotdot # replicate m dotdot @ rest" using n(1) by (cases n) auto
    then have "prefix dotdot (clean x)" unfolding e(2)
      by (cases "replicate m dotdot @ rest = []") (simp_all add: join_on_Cons)
    with c(4) show False by simp
  qed
  with n have "good (elems x)" by (simp add: good_def)
  with e c(1) show thesis by (intro that) simp_all
qed

lemma safe_link_target:
  assumes "\<not> unsafe_link c t"
  shows "\<not> is_abs t \<and> dotdot \<notin> set (split_on ''/'' t)"
proof -
  have "\<not> sublist dotdot t" using assms by (simp add: unsafe_link_def contains_iff)
  then have "dotdot \<notin> set (split_on ''/'' t)"
    using sublist_join [of dotdot "split_on ''/'' t" "''/''"] by auto
  with assms show ?thesis by (simp add: unsafe_link_def)
qed

subsection \<open>Extraction stays in its directory\<close>

text \<open>
  \<open>confined fs0 D fs\<close>: outside the directory \<open>D\<close> the files are those of \<open>fs0\<close>, and no link in \<open>D\<close>
  leads out of it.
\<close>

definition confined :: "fs \<Rightarrow> place \<Rightarrow> fs \<Rightarrow> bool" where
  "confined fs0 D fs =
     (real_dir (node_at fs) D \<and> closed (sub (node_at fs) D) \<and>
      (\<forall>q. \<not> prefix D q \<longrightarrow> node_at fs q = node_at fs0 q))"

definition inward :: "node \<Rightarrow> bool" where
  "inward n = (case n of Link t \<Rightarrow> \<not> is_abs t \<and> dotdot \<notin> set (split_on ''/'' t) | _ \<Rightarrow> True)"

lemma inward_simps [simp]: "inward Dir" "inward (Reg s x)"
  "inward (Link t) \<longleftrightarrow> \<not> is_abs t \<and> dotdot \<notin> set (split_on ''/'' t)"
  by (simp_all add: inward_def)

lemma confined_put:
  assumes "confined fs0 D fs" "inward n"
  shows "confined fs0 D (put_node (D @ r @ [c]) n fs)"
proof -
  have "\<not> prefix (D @ r @ [c]) D" by (auto dest: prefix_length_le)
  then have "real_dir (node_at (put_node (D @ r @ [c]) n fs)) D"
    using assms(1) by (auto simp: confined_def real_dir_def)
  moreover have "closed (sub (node_at (put_node (D @ r @ [c]) n fs)) D)"
    using assms by (cases n) (auto simp: confined_def closed_def sub_def)
  moreover have "\<not> prefix D q \<Longrightarrow> node_at (put_node (D @ r @ [c]) n fs) q = node_at fs0 q" for q
    using assms(1) by (auto simp: confined_def)
  ultimately show ?thesis by (simp add: confined_def)
qed

lemma confined_place:
  assumes "confined fs0 D fs" "good (D @ p @ [c])" "place_of fs (path_of (D @ p @ [c])) = Inr q"
  obtains r where "q = D @ r @ [c]"
  using assms by (auto simp: confined_def elim: place_of_under)

lemma confined_mkdir:
  assumes "good D" "good p"
  shows "stays (confined fs0 D) (mkdir_all (path_of (D @ p)))"
proof (rule stays_mkdir_all)
  fix cs c assume pre: "prefix (cs @ [c]) (D @ p)"
  have g: "good (cs @ [c])" by (rule good_prefix [OF _ pre]) (simp add: assms)
  show "stays (confined fs0 D) (attempt (sys_mkdir (path_of (cs @ [c]))))"
  proof (rule stays_attempt)
    fix fs fs' assume I: "confined fs0 D fs" and m: "sys_mkdir (path_of (cs @ [c])) fs = Inr fs'"
    show "confined fs0 D fs'"
    proof (cases "prefix (cs @ [c]) D")
      case True
      have "real_dir (node_at fs) (cs @ [c])"
        using I True by (auto simp: confined_def intro: real_dir_prefix)
      then have "place_of fs (path_of (cs @ [c])) = Inr (cs @ [c])" "node_at fs (cs @ [c]) = Some Dir"
        using g by (simp_all add: place_of_real real_dir_snoc)
      with m show ?thesis by (simp add: sys_mkdir_def)
    next
      case False
      with pre obtain r where "cs @ [c] = D @ r" "r \<noteq> []"
        by (metis append_Nil2 prefix_append prefix_order.order_refl)
      then obtain p' where p': "cs @ [c] = D @ p' @ [c]"
        by (metis append_is_Nil_conv butlast_append butlast_snoc last_appendR last_snoc append_butlast_last_id)
      from m obtain q where q: "place_of fs (path_of (cs @ [c])) = Inr q" "fs' = put_node q Dir fs"
        by (auto simp: sys_mkdir_def split: sum.splits if_splits)
      have "good (D @ p' @ [c])" using g p' by simp
      then obtain r' where "q = D @ r' @ [c]"
        using q(1) unfolding p' by (rule confined_place [OF I])
      with q(2) I show ?thesis by (simp add: confined_put)
    qed
  qed
qed (use assms in simp)

lemma confined_put_at:
  assumes "good (D @ p @ [c])" "confined fs0 D fs" "place_of fs (path_of (D @ p @ [c])) = Inr q" "inward n"
  shows "confined fs0 D (put_node q n fs)"
  using confined_place [OF assms(2,1,3)] confined_put [OF assms(2,4)] by metis

lemma confined_ops:
  assumes "good (D @ p @ [c])"
  shows "stays (confined fs0 D) (attempt (sys_create (path_of (D @ p @ [c])) x))"
    "stays (confined fs0 D) (attempt (sys_write (path_of (D @ p @ [c])) s x))"
    "inward (Link t) \<Longrightarrow> stays (confined fs0 D) (attempt (sys_symlink t (path_of (D @ p @ [c]))))"
proof -
  note put = confined_put_at [OF assms]
  show "stays (confined fs0 D) (attempt (sys_create (path_of (D @ p @ [c])) x))"
    by (rule stays_attempt) (auto simp: sys_create_def intro: put split: sum.splits if_splits)
  show "stays (confined fs0 D) (attempt (sys_write (path_of (D @ p @ [c])) s x))"
    by (rule stays_attempt) (auto simp: sys_write_def intro: put split: sum.splits)
  assume "inward (Link t)"
  then show "stays (confined fs0 D) (attempt (sys_symlink t (path_of (D @ p @ [c]))))"
    by (intro stays_attempt) (auto simp: sys_symlink_def intro: put split: sum.splits if_splits)
qed

lemma extract_entry_confined:
  assumes "good D"
  shows "stays (confined fs0 D) (extract_entry lim (path_of D) h st)"
proof (cases "safeArchivePath (te_Name h)")
  case (Inl e)
  then show ?thesis by (simp add: extract_entry_def Let_def stay)
next
  case (Inr c)
  then obtain p0 where p0: "good p0" "p0 \<noteq> []" "c = join_on ''/'' p0"
    by (rule safeArchivePath_good)
  then obtain p x where p: "p0 = p @ [x]" by (metis rev_exhaust)
  have g: "good (D @ p @ [x])" using assms p0 p by simp
  have tgt: "path_join [path_of D, c] = path_of (D @ p @ [x])"
    using path_join_good [OF assms p0(1,2)] p0(3) p by simp
  have dir: "path_dir (path_of (D @ p @ [x])) = path_of (D @ p)"
    using path_dir_path_of [of "D @ p" x] g by simp
  have mk: "stays (confined fs0 D) (io_mkdir_all (path_of (D @ q)))" if "good q" for q
    unfolding io_mkdir_all_def by (intro stay confined_mkdir assms that)
  have gp: "good p" "good (p @ [x])" using g by simp_all
  have "stays (confined fs0 D) (extract_dir (path_of (D @ p @ [x])) st')" for st'
    unfolding extract_dir_def by (intro stay mk gp)
  moreover have "stays (confined fs0 D) (extract_file lim (path_of (D @ p @ [x])) c h st')" for st'
    unfolding extract_file_def copy_data_def Let_def dir
    by (auto intro!: stay mk gp confined_ops g split: option.split)
  moreover have "stays (confined fs0 D) (extract_symlink (path_of (D @ p @ [x])) c h st')" for st'
  proof (cases "unsafe_link c (te_Linkname h)")
    case True
    then show ?thesis by (simp add: extract_symlink_def stay)
  next
    case False
    then have "inward (Link (te_Linkname h))" using safe_link_target by simp
    then show ?thesis
      unfolding extract_symlink_def io_symlink_def dir
      by (simp add: False) (intro stays_bind stays_call stays_return mk gp confined_ops g; simp)
  qed
  ultimately show ?thesis
    by (auto simp: extract_entry_def Let_def Inr tgt intro: stay split: tar_type.split)
qed

lemma extract_confined:
  assumes "good D"
  shows "stays (confined fs0 D) (safeExtractTarGz pkg (path_of D) lim)"
proof -
  have "stays (confined fs0 D) (extract_all lim (path_of D) hs st)" for hs st
  proof (induction hs arbitrary: st)
    case Nil
    then show ?case by (simp add: stays_def return_io_def went_refl)
  next
    case (Cons h hs)
    have "extract_all lim (path_of D) (h # hs) st =
        bind_io (extract_entry lim (path_of D) h st) (extract_all lim (path_of D) hs)"
      by (rule ext) simp
    then show ?case using Cons by (simp add: stays_bind extract_entry_confined assms)
  qed
  then show ?thesis
    by (auto simp: safeExtractTarGz_def intro!: stay split: option.split)
qed

text \<open>
  C3: unpacking a package stays inside its directory. Whatever the entries are and whichever calls
  fail, at every moment the files outside the directory are those from before, and no link inside
  it leads out of it.
\<close>

theorem extraction_stays_inside:
  assumes "good D" "real_dir (node_at (files d)) D" "closed (sub (node_at (files d)) D)"
    and "safeExtractTarGz pkg (path_of D) lim d = (x, d')"
  shows "went (\<lambda>fs. (\<forall>q. \<not> prefix D q \<longrightarrow> node_at fs q = node_at (files d) q) \<and> closed (sub (node_at fs) D)) d d'"
proof -
  have "confined (files d) D (files d)" using assms(2,3) by (simp add: confined_def)
  from staysD [OF extract_confined [OF assms(1)] this, of pkg lim] assms(4)
  have "went (confined (files d) D) d d'" by simp
  then show ?thesis by (rule went_mono) (simp add: confined_def)
qed

definition link_package :: package where
  "link_package =
     \<lparr>pk_OpenErr = None,
      pk_Entries =
        [\<lparr>te_Name = ''bin'', te_Type = TypeSymlink, te_Mode = 0, te_Linkname = ''lib'', te_Size = 0, te_Data = [],
          te_CopyErr = None\<rparr>,
         \<lparr>te_Name = ''bin/agent'', te_Type = TypeReg, te_Mode = 493, te_Linkname = [], te_Size = 3, te_Data = ''elf'',
          te_CopyErr = None\<rparr>],
      pk_EndErr = None\<rparr>"

definition one_dir_disk :: disk where
  "one_dir_disk = \<lparr>files = [([''x''], Dir)], past = [], made = 0, faults = (\<lambda>_. None), randoms = Some, drawn = 0\<rparr>"

lemma one_dir:
  "good [''x'']" "real_dir (node_at (files one_dir_disk)) [''x'']" "closed (sub (node_at (files one_dir_disk)) [''x''])"
  by (auto simp: one_dir_disk_def plain_elem_def real_dir_def node_at_def closed_def sub_def prefix_Cons)

theorem extraction_stays_inside_witness:
  "went (\<lambda>fs. (\<forall>q. \<not> prefix [''x''] q \<longrightarrow> node_at fs q = node_at (files one_dir_disk) q) \<and>
      closed (sub (node_at fs) [''x'']))
    one_dir_disk (snd (safeExtractTarGz link_package (path_of [''x'']) \<lparr>MaxEntries = 10, MaxExpandedBytes_lim = 10\<rparr> one_dir_disk))"
  by (rule extraction_stays_inside [OF one_dir]) (rule prod.collapse [symmetric])

subsection \<open>The limits of an extraction\<close>

definition regular_size :: "tar_entry \<Rightarrow> 64 word" where
  "regular_size h = (if te_Type h = TypeReg then te_Size h else 0)"

lemma bind_io_Inr:
  "bind_io m f d = (Inr y, d') \<longleftrightarrow> (\<exists>x d1. m d = (Inr x, d1) \<and> f x d1 = (Inr y, d'))"
  by (auto simp: bind_io_def split: prod.splits sum.splits)

lemma extract_entry_ok:
  assumes "extract_entry lim dest h st d = (Inr st', d')"
  shows "xt_entries st' = xt_entries st + 1 \<and> (MaxEntries lim > 0 \<longrightarrow> xt_entries st' \<le> MaxEntries lim) \<and>
    xt_total st' = xt_total st + regular_size h \<and>
    (MaxExpandedBytes_lim lim > 0 \<longrightarrow> te_Type h = TypeReg \<longrightarrow> sint (xt_total st') \<le> MaxExpandedBytes_lim lim)"
  using assms
  by (auto simp: extract_entry_def extract_dir_def extract_file_def extract_symlink_def Let_def bind_io_Inr
      fail_io_def return_io_def regular_size_def not_less split: if_splits sum.splits tar_type.splits)

lemma extract_all_ok:
  "extract_all lim dest hs st d = (Inr st', d') \<Longrightarrow>
    xt_entries st' = xt_entries st + int (length hs) \<and>
    xt_total st' = xt_total st + sum_list (map regular_size hs) \<and>
    (MaxEntries lim > 0 \<and> hs \<noteq> [] \<longrightarrow> xt_entries st' \<le> MaxEntries lim) \<and>
    (MaxExpandedBytes_lim lim > 0 \<and> sint (xt_total st) \<le> MaxExpandedBytes_lim lim \<longrightarrow>
       sint (xt_total st') \<le> MaxExpandedBytes_lim lim)"
proof (induction hs arbitrary: st d)
  case Nil
  then show ?case by (simp add: return_io_def)
next
  case (Cons h hs)
  then obtain st1 d1 where e: "extract_entry lim dest h st d = (Inr st1, d1)"
    and a: "extract_all lim dest hs st1 d1 = (Inr st', d')" by (auto simp: bind_io_Inr)
  note E = extract_entry_ok [OF e] and IH = Cons.IH [OF a]
  have "hs = [] \<Longrightarrow> st' = st1" using a by (simp add: return_io_def)
  then have n: "MaxEntries lim > 0 \<Longrightarrow> xt_entries st' \<le> MaxEntries lim"
    using conjunct1 [OF conjunct2 [OF E]] conjunct1 [OF conjunct2 [OF conjunct2 [OF IH]]] by (cases "hs = []") simp_all
  have s1: "MaxExpandedBytes_lim lim > 0 \<Longrightarrow> sint (xt_total st) \<le> MaxExpandedBytes_lim lim \<Longrightarrow>
      sint (xt_total st1) \<le> MaxExpandedBytes_lim lim"
  proof (cases "te_Type h = TypeReg")
    case False
    then have "xt_total st1 = xt_total st" using E by (simp add: regular_size_def)
    then show "sint (xt_total st) \<le> MaxExpandedBytes_lim lim \<Longrightarrow> ?thesis" by simp
  qed (use E in blast)
  have t: "xt_total st' = xt_total st + sum_list (map regular_size (h # hs))"
    using E IH by (simp add: add.assoc)
  show ?case
    using conjunct1 [OF E] conjunct1 [OF IH] n s1 t conjunct2 [OF conjunct2 [OF conjunct2 [OF IH]]] by simp
qed

definition declared :: "package \<Rightarrow> int" where
  "declared pkg = sum_list (map (\<lambda>h. uint (regular_size h)) (pk_Entries pkg))"

lemma sum_words: "sum_list (map f hs) = (word_of_int (sum_list (map (\<lambda>h. uint (f h)) hs)) :: 64 word)"
  by (induction hs) simp_all

lemma declared_sint:
  assumes "declared pkg < 2 ^ 63"
  shows "sint (sum_list (map regular_size (pk_Entries pkg))) = declared pkg"
proof -
  have "0 \<le> declared pkg" unfolding declared_def by (intro sum_list_nonneg) auto
  with assms show ?thesis
    unfolding sum_words declared_def [symmetric]
    by (simp add: sint_sbintrunc' signed_take_bit_int_eq_self)
qed

text \<open>
  C22: a package that unpacks has at most as many entries as the limit says; and when the declared
  sizes of its files add up to less than \<open>2 ^ 63\<close>, their sum is within the limit too (the sum is
  kept in 64 bits, see \<open>size_limit_wraps\<close>).
\<close>

theorem extraction_within_limits:
  assumes "safeExtractTarGz pkg dest lim d = (Inr a, d')"
  shows "(MaxEntries lim > 0 \<longrightarrow> int (length (pk_Entries pkg)) \<le> MaxEntries lim) \<and>
    (MaxExpandedBytes_lim lim > 0 \<and> declared pkg < 2 ^ 63 \<longrightarrow> declared pkg \<le> MaxExpandedBytes_lim lim)"
proof -
  from assms obtain st d1 where "extract_all lim dest (pk_Entries pkg) start_extraction d = (Inr st, d1)"
    by (auto simp: safeExtractTarGz_def bind_io_Inr fail_io_def split: option.splits)
  from extract_all_ok [OF this] show ?thesis
    using declared_sint [of pkg] by (cases "pk_Entries pkg = []") (auto simp: start_extraction_def)
qed

definition file_entry :: "string \<Rightarrow> 64 word \<Rightarrow> string \<Rightarrow> tar_entry" where
  "file_entry name n text =
     \<lparr>te_Name = name, te_Type = TypeReg, te_Mode = 493, te_Linkname = [], te_Size = n, te_Data = text,
      te_CopyErr = None\<rparr>"

definition files_package :: "tar_entry list \<Rightarrow> package" where
  "files_package hs = \<lparr>pk_OpenErr = None, pk_Entries = hs, pk_EndErr = None\<rparr>"

lemma unpacks: "is_ok (fst (safeExtractTarGz (files_package [file_entry ''agent'' 3 ''elf'']) ''/x''
    \<lparr>MaxEntries = 1, MaxExpandedBytes_lim = 3\<rparr> one_dir_disk))"
  by code_simp

theorem extraction_within_limits_witness:
  "declared (files_package [file_entry ''agent'' 3 ''elf'']) \<le> 3"
proof -
  have "declared (files_package [file_entry ''agent'' 3 ''elf'']) < 2 ^ 63"
    by (simp add: declared_def files_package_def file_entry_def regular_size_def)
  moreover obtain a d' where "safeExtractTarGz (files_package [file_entry ''agent'' 3 ''elf'']) ''/x''
      \<lparr>MaxEntries = 1, MaxExpandedBytes_lim = 3\<rparr> one_dir_disk = (Inr a, d')"
    using unpacks by (metis is_ok_simps(2) obj_sumE prod.collapse)
  from extraction_within_limits [OF this] calculation show ?thesis by simp
qed

text \<open>
  The sum of the declared sizes wraps around: after one small file, a file that declares the
  largest size makes it negative, so the limit of 4 bytes does not stop the second file from being
  written (reading it then ends with the error of a truncated archive).
\<close>

lemma size_limit_wraps:
  "(let h = (file_entry ''agent'' 0x7FFFFFFFFFFFFFFF ''far beyond'')\<lparr>te_CopyErr := Some ''unexpected EOF''\<rparr>;
        (x, d') = safeExtractTarGz (files_package [file_entry ''a'' 1 ''x'', h]) ''/x''
          \<lparr>MaxEntries = 9, MaxExpandedBytes_lim = 4\<rparr> one_dir_disk
    in node_at (files d') [''x'', ''agent'']) = Some (Reg ''far beyond'' True)"
  by code_simp

end
