(* ===== verification/Managed.thy ===== *)
theory Managed
  imports Archive
begin

section \<open>The managed installation (internal/provider/installer\_transactional.go)\<close>

text \<open>
  Below the managed root, \<open>.local/share/cursor-agent/versions\<close> holds one directory per installed
  version, the link \<open>current\<close> beside it points at one of them, and the two links in
  \<open>.local/bin\<close> lead through \<open>current\<close> to the binary.
\<close>

definition managedShareDir :: "string \<Rightarrow> string" where
  "managedShareDir root = path_join [root, ''.local'', ''share'', ''cursor-agent'']"

definition managedVersionsDir :: "string \<Rightarrow> string" where
  "managedVersionsDir root = path_join [managedShareDir root, ''versions'']"

definition managedCurrentLink :: "string \<Rightarrow> string" where
  "managedCurrentLink root = path_join [managedShareDir root, ''current'']"

definition managedBinDir :: "string \<Rightarrow> string" where
  "managedBinDir root = path_join [root, ''.local'', ''bin'']"

record managedInstallState =
  mi_Installed :: bool
  mi_Version :: string
  mi_ExecutablePath :: string
  mi_ArchiveRelativeBinPath :: string
  mi_ResolvedExecutablePath :: string

definition not_installed :: managedInstallState where
  "not_installed =
     \<lparr>mi_Installed = False, mi_Version = [], mi_ExecutablePath = [], mi_ArchiveRelativeBinPath = [],
      mi_ResolvedExecutablePath = []\<rparr>"

text \<open>The version and the rest of a resolved path below the versions. Every path is absolute here,
  so \<^verbatim>\<open>filepath.Abs\<close> cleans it.\<close>

definition managedVersionAndArchiveRel :: "string \<Rightarrow> string \<Rightarrow> fs \<Rightarrow> (go_error, string \<times> string) result" where
  "managedVersionAndArchiveRel versionsRoot resolved fs =
     (let base = (case evalSymlinks fs versionsRoot of Inr p \<Rightarrow> p | Inl _ \<Rightarrow> clean versionsRoot);
          rel = path_rel base (clean resolved)
      in if escapes_base rel then Inl (plain ''managed Cursor agent link escapes managed versions'')
         else case split_on ''/'' (the rel) of
           v # w # ws \<Rightarrow>
             if v = [] then Inl (plain ''managed Cursor agent link does not include a version'')
             else Inr (v, join_on ''/'' (w # ws))
         | _ \<Rightarrow> Inl (plain ''managed Cursor agent link does not include a version''))"

definition bin_names :: "string list" where
  "bin_names = [''agent'', ''cursor-agent'']"

text \<open>The links that resolve; \<^verbatim>\<open>IsNotExist\<close> holds of \<open>ENOENT\<close> only.\<close>

fun resolve_links :: "string \<Rightarrow> string list \<Rightarrow> fs \<Rightarrow> (go_error, string list) result" where
  "resolve_links binDir [] fs = Inr []"
| "resolve_links binDir (n # ns) fs =
     (case evalSymlinks fs (path_join [binDir, n]) of
        Inl e \<Rightarrow>
          if e = ENOENT then resolve_links binDir ns fs
          else Inl (WrapErr (''resolve managed Cursor agent link '' @ n) (path_error ''lstat'' n e))
      | Inr p \<Rightarrow> map_sum (\<lambda>e. e) (\<lambda>ps. p # ps) (resolve_links binDir ns fs))"

fun check_links :: "string \<Rightarrow> managedInstallState \<Rightarrow> string list \<Rightarrow> fs \<Rightarrow> (go_error, managedInstallState) result" where
  "check_links versionsRoot st [] fs = Inr st"
| "check_links versionsRoot st (p # ps) fs =
     (case managedVersionAndArchiveRel versionsRoot p fs of
        Inl e \<Rightarrow> Inl e
      | Inr (v, r) \<Rightarrow>
          if v \<noteq> mi_Version st \<or> r \<noteq> mi_ArchiveRelativeBinPath st
          then Inl (plain ''managed Cursor agent links are mixed'')
          else check_links versionsRoot st ps fs)"

definition inspectManagedInstall :: "string \<Rightarrow> fs \<Rightarrow> (go_error, managedInstallState) result" where
  "inspectManagedInstall root fs =
     (case resolve_links (managedBinDir root) bin_names fs of
        Inl e \<Rightarrow> Inl e
      | Inr [] \<Rightarrow> Inr not_installed
      | Inr (p # ps) \<Rightarrow>
          if length (p # ps) \<noteq> length bin_names
          then Inl (plain ''managed Cursor agent links are incomplete'')
          else case managedVersionAndArchiveRel (managedVersionsDir root) p fs of
            Inl e \<Rightarrow> Inl e
          | Inr (v, r) \<Rightarrow>
              check_links (managedVersionsDir root)
                \<lparr>mi_Installed = True, mi_Version = v,
                 mi_ExecutablePath = path_join [managedBinDir root, ''agent''],
                 mi_ArchiveRelativeBinPath = r, mi_ResolvedExecutablePath = p\<rparr> ps fs)"

definition pointsToManagedVersion :: "string \<Rightarrow> string \<Rightarrow> string \<Rightarrow> fs \<Rightarrow> bool" where
  "pointsToManagedVersion root current version fs =
     (case evalSymlinks fs current of
        Inl _ \<Rightarrow> False
      | Inr resolved \<Rightarrow> clean resolved = clean (path_join [managedVersionsDir root, version]))"

text \<open>\<^verbatim>\<open>hex.EncodeToString\<close> of 16 bytes, given as one number.\<close>

definition hex_string :: "nat \<Rightarrow> string" where
  "hex_string n = map (\<lambda>i. hex_digit (int n div 16 ^ (31 - i))) [0..<32]"

text \<open>A path beside \<open>dir\<close>'s other entries that does not exist yet; 16 attempts.\<close>

fun random_path :: "nat \<Rightarrow> string \<Rightarrow> string \<Rightarrow> string io" where
  "random_path 0 dir pre d = fail_io (plain ''could not allocate unique temp path'') d"
| "random_path (Suc n) dir pre d =
     (case draw d of
        (None, d1) \<Rightarrow> fail_io (plain ''read random bytes'') d1
      | (Some r, d1) \<Rightarrow>
          (let p = path_join [dir, pre @ hex_string r]
           in case lstat (files d1) p of
                Inl e \<Rightarrow> if e = ENOENT then return_io p d1 else fail_io (path_error ''lstat'' p e) d1
              | Inr _ \<Rightarrow> random_path n dir pre d1))"

definition randomSiblingPath :: "string \<Rightarrow> string \<Rightarrow> string io" where
  "randomSiblingPath dir pre = random_path 16 dir pre"

definition replaceSymlink :: "string \<Rightarrow> string \<Rightarrow> unit io" where
  "replaceSymlink path target =
     bind_io (randomSiblingPath (path_dir path) (''.'' @ path_base path @ ''-tmp-'')) (\<lambda>tmp.
     bind_io (io_symlink target tmp) (\<lambda>_.
     on_error (io_rename tmp path) (\<lambda>d. snd (attempt (sys_remove tmp) d))))"

text \<open>The check after the switch.\<close>

definition check_current :: "string \<Rightarrow> string \<Rightarrow> fs \<Rightarrow> (go_error, unit) result" where
  "check_current root version fs =
     (case evalSymlinks fs (managedCurrentLink root) of
        Inl e \<Rightarrow> Inl (WrapErr ''resolve Cursor agent current link''
                        (path_error ''lstat'' (managedCurrentLink root) e))
      | Inr resolved \<Rightarrow>
          (case evalSymlinks fs (managedVersionsDir root) of
             Inl e \<Rightarrow> Inl (WrapErr ''resolve Cursor agent versions dir''
                             (path_error ''lstat'' (managedVersionsDir root) e))
           | Inr versionsRoot \<Rightarrow>
               if path_rel versionsRoot resolved = Some version then Inr ()
               else Inl (plain ''cursor agent current link escapes managed versions'')))"

definition replaceCurrentLink :: "string \<Rightarrow> string \<Rightarrow> unit io" where
  "replaceCurrentLink root version =
     bind_io (io_mkdir_all (managedShareDir root)) (\<lambda>_.
     bind_io (ask_io (\<lambda>fs. Inr (pointsToManagedVersion root (managedCurrentLink root) version fs))) (\<lambda>same.
       if same then return_io ()
       else bind_io (replaceSymlink (managedCurrentLink root) (path_join [''versions'', version])) (\<lambda>_.
            ask_io (check_current root version))))"

fun link_bins :: "string \<Rightarrow> string \<Rightarrow> string list \<Rightarrow> unit io" where
  "link_bins binDir target [] d = return_io () d"
| "link_bins binDir target (n # ns) d =
     bind_io (replaceSymlink (path_join [binDir, n]) target) (\<lambda>_. link_bins binDir target ns) d"

definition ensureStableBinLinks :: "string \<Rightarrow> string \<Rightarrow> unit io" where
  "ensureStableBinLinks root archiveRel =
     bind_io (io_mkdir_all (managedBinDir root)) (\<lambda>_.
       case path_rel (managedBinDir root) (path_join [managedCurrentLink root, archiveRel]) of
         None \<Rightarrow> fail_io (plain ''Rel: cannot make the binary relative to the bin directory'')
       | Some target \<Rightarrow>
           if is_abs target
           then fail_io (plain ''managed Cursor agent bin link target must be relative'')
           else link_bins (managedBinDir root) target bin_names)"

definition readlink :: "fs \<Rightarrow> string \<Rightarrow> string option" where
  "readlink fs p = (case lstat fs p of Inr (Link t) \<Rightarrow> Some t | _ \<Rightarrow> None)"

definition cleanup_link :: "string \<Rightarrow> string \<Rightarrow> disk \<Rightarrow> disk" where
  "cleanup_link binDir name d =
     (let link = path_join [binDir, name]
      in case readlink (files d) link of
           Some t \<Rightarrow> if contains t ''/current/'' then snd (attempt (sys_remove link) d) else d
         | None \<Rightarrow> d)"

definition cleanupInitialInstallLinks :: "string \<Rightarrow> disk \<Rightarrow> disk" where
  "cleanupInitialInstallLinks root d =
     snd (attempt (sys_remove (managedCurrentLink root))
       (foldl (\<lambda>d n. cleanup_link (managedBinDir root) n d) d bin_names))"

end
