(* ===== verification/Served.thy ===== *)
theory Served
  imports Managed
begin

section \<open>Which version a managed root serves\<close>

text \<open>
  \<open>serves k nd R v q\<close>: below the root place \<open>R\<close> the version \<open>v\<close> is installed and active, and both
  links of \<open>.local/bin\<close> lead to the binary at the place \<open>q\<close> of its directory, over at most \<open>k\<close>
  links inside it. It is the abstract state that an installation switches.
\<close>

definition share :: "place \<Rightarrow> place" where
  "share R = R @ [''.local'', ''share'', ''cursor-agent'']"

definition versions :: "place \<Rightarrow> place" where
  "versions R = share R @ [''versions'']"

definition bins :: "place \<Rightarrow> place" where
  "bins R = R @ [''.local'', ''bin'']"

definition through_current :: string where
  "through_current = ''../share/cursor-agent/current/''"

definition version_target :: "string \<Rightarrow> string" where
  "version_target v = ''versions/'' @ v"

definition leads :: "nat \<Rightarrow> tree \<Rightarrow> place \<Rightarrow> string \<Rightarrow> place \<Rightarrow> string \<Rightarrow> bool" where
  "leads k nd R v q name =
     (\<exists>rel. nd (bins R @ [name]) = Some (Link (through_current @ rel)) \<and>
        dotdot \<notin> set (split_on ''/'' rel) \<and>
        resolve (sub nd (versions R @ [v])) k True [] (split_on ''/'' rel) = Inr q)"

definition complete :: "tree \<Rightarrow> place \<Rightarrow> bool" where
  "complete nd D = (nd D = Some Dir \<and> closed (sub nd D))"

definition serves :: "nat \<Rightarrow> tree \<Rightarrow> place \<Rightarrow> string \<Rightarrow> place \<Rightarrow> bool" where
  "serves k nd R v q =
     (real_dir nd (bins R) \<and> real_dir nd (versions R) \<and>
      nd (share R @ [''current'']) = Some (Link (version_target v)) \<and>
      plain_elem v \<and> v \<noteq> dotdot \<and> complete nd (versions R @ [v]) \<and> q \<noteq> [] \<and>
      leads k nd R v q ''agent'' \<and> leads k nd R v q ''cursor-agent'')"

subsection \<open>Places of the managed paths\<close>

lemma good_places [simp]:
  "good (share R) = good R" "good (versions R) = good R" "good (bins R) = good R"
  by (simp_all add: share_def versions_def bins_def plain_elem_def)

lemma managed_paths [simp]:
  assumes "good R"
  shows "managedShareDir (path_of R) = path_of (share R)"
    "managedVersionsDir (path_of R) = path_of (versions R)"
    "managedCurrentLink (path_of R) = path_of (share R @ [''current''])"
    "managedBinDir (path_of R) = path_of (bins R)"
proof -
  have s: "managedShareDir (path_of R) = path_of (share R)"
    using path_join_elems [OF assms, of "[''.local'', ''share'', ''cursor-agent'']"]
    by (simp add: managedShareDir_def share_def plain_elem_def)
  have g: "good (share R)" using assms by simp
  show "managedShareDir (path_of R) = path_of (share R)" by (rule s)
  show "managedVersionsDir (path_of R) = path_of (versions R)"
    using path_join_elems [OF g, of "[''versions'']"]
    by (simp add: managedVersionsDir_def s versions_def plain_elem_def)
  show "managedCurrentLink (path_of R) = path_of (share R @ [''current''])"
    using path_join_elems [OF g, of "[''current'']"]
    by (simp add: managedCurrentLink_def s plain_elem_def)
  show "managedBinDir (path_of R) = path_of (bins R)"
    using path_join_elems [OF assms, of "[''.local'', ''bin'']"]
    by (simp add: managedBinDir_def bins_def plain_elem_def)
qed

lemma join_name:
  "good p \<Longrightarrow> plain_elem n \<Longrightarrow> n \<noteq> dotdot \<Longrightarrow> path_join [path_of p, n] = path_of (p @ [n])"
  using path_join_elems [of p "[n]"] by simp

lemma path_rel_below:
  assumes "good p" "good q" "q \<noteq> []"
  shows "path_rel (path_of p) (path_of (p @ q)) = Some (join_on ''/'' q)"
proof -
  have "longest_common_prefix p (p @ q) = p" by (induction p) auto
  then show ?thesis using assms by (simp add: path_rel_def Let_def)
qed

lemma join_good_head:
  assumes "good q" "q \<noteq> []"
  shows "join_on ''/'' q \<noteq> []" "\<not> is_abs (join_on ''/'' q)" "join_on ''/'' q \<noteq> dot"
    "join_on ''/'' q \<noteq> dotdot" "\<not> prefix ''../'' (join_on ''/'' q)"
proof -
  have s: "split_on ''/'' (join_on ''/'' q) = q" by (rule split_join_good [OF assms])
  show "join_on ''/'' q \<noteq> []" using s assms by (auto simp: plain_elem_def)
  show "\<not> is_abs (join_on ''/'' q)"
    using normal_join_not_abs [OF good_normal [OF assms(1)] assms(2)] .
  show "join_on ''/'' q \<noteq> dot" using s assms by (auto simp: split_on_byte_absent plain_elem_def)
  show "join_on ''/'' q \<noteq> dotdot" using s assms by (auto simp: split_on_byte_absent)
  show "\<not> prefix ''../'' (join_on ''/'' q)"
  proof
    assume "prefix ''../'' (join_on ''/'' q)"
    then obtain r where "join_on ''/'' q = dotdot @ slash # r" by (auto simp: prefix_def)
    with s have "q = dotdot # split_on ''/'' r" by (simp add: split_on_byte_Cons)
    with assms(1) show False by simp
  qed
qed

lemma escapes_below:
  assumes "good p" "good q" "q \<noteq> []"
  shows "\<not> escapes_base (path_rel (path_of p) (path_of (p @ q)))"
  using path_rel_below [OF assms] join_good_head [OF assms(2,3)] by (simp add: escapes_base_def)

text \<open>A walk over names without slashes ends in a good place.\<close>

lemma resolve_good:
  "resolve nd n fl d cs = Inr q \<Longrightarrow> good d \<Longrightarrow> \<forall>c \<in> set cs. slash \<notin> set c \<Longrightarrow> good q"
proof (induction nd n fl d cs rule: resolve.induct)
  case (2 nd n fl d c cs)
  have gb: "good (butlast d)" using 2(6) by (metis append_butlast_last_id butlast.simps(1) good_simps(3))
  consider "c = [] \<or> c = dot" | "\<not> (c = [] \<or> c = dot)" "c = dotdot"
    | "\<not> (c = [] \<or> c = dot)" "c \<noteq> dotdot" by blast
  then show ?case
  proof cases
    case 1
    with "2.IH"(1) [OF 1] "2.prems" show ?thesis by simp
  next
    case 2
    with "2.IH"(2) [OF 2] "2.prems" gb show ?thesis by simp
  next
    case c: 3
    have gc: "good (d @ [c])" using c "2.prems" by (simp add: plain_elem_def)
    show ?thesis
    proof (cases "nd (d @ [c])")
      case None
      with "2.prems"(1) c show ?thesis by simp
    next
      case (Some x)
      show ?thesis
      proof (cases x)
        case Dir
        with "2.IH"(3) [OF c Some] "2.prems" c Some gc show ?thesis by simp
      next
        case (Reg u v)
        with "2.prems"(1) c Some gc show ?thesis by (auto split: if_splits)
      next
        case (Link t)
        show ?thesis
        proof (cases "\<not> fl \<and> cs = []")
          case True
          with "2.prems"(1) c Some Link gc show ?thesis by simp
        next
          case False
          with "2.prems"(1) c Some Link have n: "n \<noteq> 0"
            "resolve nd (n - 1) fl (if is_abs t then [] else d) (split_on ''/'' t @ cs) = Inr q"
            by (auto split: if_splits)
          have "\<forall>c \<in> set (split_on ''/'' t @ cs). slash \<notin> set c"
            using "2.prems"(3) by (auto dest: split_on_byte_pieces)
          with "2.IH"(4) [OF c Some Link False n(1)] n(2) "2.prems"(2) show ?thesis by simp
        qed
      qed
    qed
  qed
qed simp

subsection \<open>What the links resolve to\<close>

lemma split_four:
  "c \<notin> set a \<Longrightarrow> c \<notin> set b \<Longrightarrow> c \<notin> set d \<Longrightarrow> c \<notin> set e \<Longrightarrow>
     split_on [c] (a @ c # b @ c # d @ c # e @ c # r) = [a, b, d, e] @ split_on [c] r"
  by (simp add: split_on_byte_append)

lemma split_through: "split_on ''/'' (through_current @ rel) =
    [dotdot, ''share'', ''cursor-agent'', ''current''] @ split_on ''/'' rel"
  using split_four [of slash dotdot "''share''" "''cursor-agent''" "''current''" rel]
  by (simp add: through_current_def)

lemma split_versions: "plain_elem v \<Longrightarrow> split_on ''/'' (version_target v) = [''versions'', v]"
  using split_on_byte_append [of slash "''versions''" v] by (simp add: version_target_def plain_elem_split)

lemma resolve_bin:
  assumes "serves k nd R v q" "good R" "name = ''agent'' \<or> name = ''cursor-agent''"
  shows "resolve nd (Suc (Suc k)) True [] (bins R @ [name]) = Inr (versions R @ v # q)"
proof -
  obtain rel where rel: "nd (bins R @ [name]) = Some (Link (through_current @ rel))"
    "dotdot \<notin> set (split_on ''/'' rel)"
    "resolve (sub nd (versions R @ [v])) k True [] (split_on ''/'' rel) = Inr q"
    using assms(1,3) by (auto simp: serves_def leads_def)
  have s: "real_dir nd (bins R)" "real_dir nd (versions R)" "plain_elem v" "v \<noteq> dotdot"
    "nd (share R @ [''current'']) = Some (Link (version_target v))"
    "nd (versions R @ [v]) = Some Dir" "closed (sub nd (versions R @ [v]))"
    using assms(1) by (auto simp: serves_def complete_def)
  have dirs: "nd (R @ [''.local'']) = Some Dir" "nd (R @ [''.local'', ''share'']) = Some Dir"
    "nd (share R) = Some Dir" "nd (versions R) = Some Dir"
    by (rule real_dirD [OF s(2)], simp add: versions_def share_def)+
  have name: "name \<noteq> []" "name \<noteq> dot" "name \<noteq> dotdot" using assms(3) by auto
  have abs: "\<not> is_abs (through_current @ rel)" "\<not> is_abs (version_target v)"
    by (simp_all add: through_current_def version_target_def)
  have "resolve nd (Suc (Suc k)) True [] (bins R @ [name]) = resolve nd (Suc (Suc k)) True (bins R) [name]"
    using resolve_dir [OF s(1)] assms(2) by simp
  also have "\<dots> = resolve nd (Suc k) True (bins R) (split_on ''/'' (through_current @ rel))"
    using name rel(1) abs by simp
  also have "\<dots> = resolve nd (Suc k) True (R @ [''.local''])
      ([''share'', ''cursor-agent'', ''current''] @ split_on ''/'' rel)"
    by (simp add: split_through bins_def butlast_append)
  also have "\<dots> = resolve nd (Suc k) True (share R) ([''current''] @ split_on ''/'' rel)"
    using dirs by (simp add: share_def)
  also have "\<dots> = resolve nd k True (share R) ([''versions'', v] @ split_on ''/'' rel)"
    using s(3,5) abs by (simp add: split_versions)
  also have "\<dots> = resolve nd k True (versions R @ [v]) (split_on ''/'' rel)"
    using s(3,4,6) dirs by (simp add: versions_def plain_elem_def)
  also have "\<dots> = Inr (versions R @ v # q)"
    using resolve_sub [OF s(7) rel(2), of k True "[]"] rel(3) by simp
  finally show ?thesis .
qed

lemma serves_good:
  assumes "serves k nd R v q" shows "good q"
proof -
  obtain rel where "resolve (sub nd (versions R @ [v])) k True [] (split_on ''/'' rel) = Inr q"
    using assms by (auto simp: serves_def leads_def)
  then show ?thesis by (rule resolve_good) (auto dest: split_on_byte_pieces)
qed

lemma evalSymlinks_bin:
  assumes "serves k (node_at fs) R v q" "good R" "k \<le> 253" "name = ''agent'' \<or> name = ''cursor-agent''"
  shows "evalSymlinks fs (path_of (bins R @ [name])) = Inr (path_of (versions R @ v # q))"
proof -
  have "good (bins R @ [name])" using assms(2,4) by (auto simp: plain_elem_def)
  then show ?thesis
    using resolve_more [OF resolve_bin [OF assms(1,2,4)], of 255] assms(3)
    by (simp add: evalSymlinks_def resolve_path_of)
qed

lemma evalSymlinks_real:
  "real_dir (node_at fs) p \<Longrightarrow> good p \<Longrightarrow> evalSymlinks fs (path_of p) = Inr (path_of p)"
  using resolve_dir [of "node_at fs" p 255 True "[]"] by (simp add: evalSymlinks_def resolve_path_of)

lemma version_of_resolved:
  assumes "real_dir (node_at fs) (versions R)" "good R" "good (v # q)" "q \<noteq> []"
  shows "managedVersionAndArchiveRel (path_of (versions R)) (path_of (versions R @ v # q)) fs =
    Inr (v, join_on ''/'' q)"
proof -
  have g: "good (versions R)" "good (versions R @ v # q)" using assms(2,3) by simp_all
  have "split_on ''/'' (join_on ''/'' (v # q)) = v # q" by (rule split_join_good [OF assms(3)]) simp
  moreover obtain w ws where "q = w # ws" using assms(4) by (cases q) auto
  ultimately show ?thesis
    using evalSymlinks_real [OF assms(1) g(1)] clean_path_of [OF g(2)]
      path_rel_below [OF g(1) assms(3)] escapes_below [OF g(1) assms(3)] assms(3)
    by (simp add: managedVersionAndArchiveRel_def plain_elem_def)
qed

text \<open>What \<open>inspectManagedInstall\<close> reports is the version that is served.\<close>

lemma inspect_serves:
  assumes "serves k (node_at fs) R v q" "good R" "k \<le> 253"
  shows "inspectManagedInstall (path_of R) fs =
    Inr \<lparr>mi_Installed = True, mi_Version = v, mi_ExecutablePath = path_of (bins R @ [''agent'']),
         mi_ArchiveRelativeBinPath = join_on ''/'' q,
         mi_ResolvedExecutablePath = path_of (versions R @ v # q)\<rparr>"
proof -
  have e: "evalSymlinks fs (path_of (bins R @ [''agent''])) = Inr (path_of (versions R @ v # q))"
    "evalSymlinks fs (path_of (bins R @ [''cursor-agent''])) = Inr (path_of (versions R @ v # q))"
    using evalSymlinks_bin [OF assms] by simp_all
  have j: "path_join [path_of (bins R), ''agent''] = path_of (bins R @ [''agent''])"
    "path_join [path_of (bins R), ''cursor-agent''] = path_of (bins R @ [''cursor-agent''])"
    using assms(2) by (simp_all add: join_name plain_elem_def)
  have v: "managedVersionAndArchiveRel (path_of (versions R)) (path_of (versions R @ v # q)) fs =
      Inr (v, join_on ''/'' q)"
    using assms(1,2) serves_good [OF assms(1)] by (intro version_of_resolved) (auto simp: serves_def)
  show ?thesis
    using assms(2) by (simp add: inspectManagedInstall_def bin_names_def e j v)
qed

subsection \<open>What the served version depends on\<close>

definition relevant :: "place \<Rightarrow> string \<Rightarrow> place \<Rightarrow> bool" where
  "relevant R v p =
     (prefix p (bins R) \<or> prefix p (versions R) \<or> p = share R @ [''current''] \<or>
      p = bins R @ [''agent''] \<or> p = bins R @ [''cursor-agent''] \<or> prefix (versions R @ [v]) p)"

lemma sub_cong: "(\<And>p. prefix b p \<Longrightarrow> nd' p = nd p) \<Longrightarrow> sub nd' b = sub nd b"
  by (auto simp: sub_def fun_eq_iff)

lemma serves_cong:
  assumes "serves k nd R v q" "\<And>p. relevant R v p \<Longrightarrow> nd' p = nd p"
  shows "serves k nd' R v q"
proof -
  have s: "sub nd' (versions R @ [v]) = sub nd (versions R @ [v])"
    by (rule sub_cong) (simp add: assms(2) relevant_def)
  have n: "nd' (versions R @ [v]) = nd (versions R @ [v])"
    "nd' (share R @ [''current'']) = nd (share R @ [''current''])"
    "nd' (bins R @ [''agent'']) = nd (bins R @ [''agent''])"
    "nd' (bins R @ [''cursor-agent'']) = nd (bins R @ [''cursor-agent''])"
    by (simp_all add: assms(2) relevant_def)
  have d: "real_dir nd' (bins R) = real_dir nd (bins R)" "real_dir nd' (versions R) = real_dir nd (versions R)"
    by (auto simp: real_dir_def assms(2) relevant_def)
  show ?thesis using assms(1) by (simp add: serves_def leads_def complete_def s n d)
qed

text \<open>\<open>touched p fs fs'\<close>: only what is at or below \<open>p\<close> may have changed.\<close>

definition touched :: "place \<Rightarrow> fs \<Rightarrow> fs \<Rightarrow> bool" where
  "touched p fs fs' = (\<forall>q. \<not> prefix p q \<longrightarrow> node_at fs' q = node_at fs q)"

lemma touched_refl [simp]: "touched p fs fs"
  by (simp add: touched_def)

lemma touched_trans: "touched p a b \<Longrightarrow> touched p b c \<Longrightarrow> touched p a c"
  by (simp add: touched_def)

text \<open>A place beside the relevant ones: a new name in one of the directories.\<close>

definition beside :: "place \<Rightarrow> string \<Rightarrow> place \<Rightarrow> string \<Rightarrow> bool" where
  "beside R v b x =
     (b = bins R \<and> x \<notin> {''agent'', ''cursor-agent''} \<or> b = share R \<and> x \<notin> {''current'', ''versions''} \<or>
      b = versions R \<and> x \<noteq> v \<or> b = R \<and> x \<noteq> ''.local'')"

lemma beside_simps [simp]:
  "beside R v (versions R) x \<longleftrightarrow> x \<noteq> v" "x \<noteq> ''.local'' \<Longrightarrow> beside R v R x"
  "x \<notin> {''agent'', ''cursor-agent''} \<Longrightarrow> beside R v (bins R) x"
  "x \<notin> {''current'', ''versions''} \<Longrightarrow> beside R v (share R) x"
  by (auto simp: beside_def versions_def share_def bins_def)

lemma relevant_beside:
  assumes "relevant R v p" "prefix (b @ [x]) p"
    and "beside R v b x"
  shows False
  using assms
  by (auto simp: beside_def relevant_def bins_def versions_def share_def prefix_def append_eq_append_conv2
      append_eq_Cons_conv Cons_eq_append_conv)

lemma serves_touched:
  assumes "serves k (node_at fs) R v q" "touched (b @ [x]) fs fs'"
    and "beside R v b x"
  shows "serves k (node_at fs') R v q"
  using assms(1)
proof (rule serves_cong)
  fix p assume "relevant R v p"
  then have "\<not> prefix (b @ [x]) p" using relevant_beside assms(3) by blast
  then show "node_at fs' p = node_at fs p" using assms(2) by (simp add: touched_def)
qed

subsection \<open>Where a walk ends\<close>

lemma resolve_chain:
  assumes "resolve nd n True d cs = Inr q" "real_dir nd d"
  shows "(\<forall>p. strict_prefix p q \<longrightarrow> nd p = Some Dir) \<and> (nd q = Some Dir \<or> (\<exists>s x. nd q = Some (Reg s x)))"
  using assms
proof (induction nd n True d cs rule: resolve.induct)
  case (1 nd n d)
  then show ?case by (auto simp: real_dir_def strict_prefix_def)
next
  case (2 nd n d c cs)
  have gb: "real_dir nd (butlast d)"
    using "2.prems"(2) by (metis append_butlast_last_id butlast.simps(1) prefixI real_dir_prefix)
  consider "c = [] \<or> c = dot" | "\<not> (c = [] \<or> c = dot)" "c = dotdot"
    | "\<not> (c = [] \<or> c = dot)" "c \<noteq> dotdot" by blast
  then show ?case
  proof cases
    case 1
    with "2.hyps"(1) [OF 1] "2.prems" show ?thesis by simp
  next
    case 2
    with "2.hyps"(2) [OF 2] "2.prems" gb show ?thesis by simp
  next
    case c: 3
    show ?thesis
    proof (cases "nd (d @ [c])")
      case None
      with "2.prems"(1) c show ?thesis by simp
    next
      case (Some x)
      show ?thesis
      proof (cases x)
        case Dir
        with "2.hyps"(3) [OF c Some] "2.prems" c Some show ?thesis by (simp add: real_dir_snoc)
      next
        case (Reg u v)
        with "2.prems" c Some show ?thesis
          by (auto simp: real_dir_def strict_prefix_def prefix_snoc split: if_splits)
      next
        case (Link t)
        have "real_dir nd (if is_abs t then [] else d)"
          using "2.prems"(2) by (auto simp: real_dir_def)
        with "2.hyps"(4) [OF c Some Link] "2.prems" c Some Link show ?thesis
          by (auto split: if_splits)
      qed
    qed
  qed
qed

lemma resolve_again:
  assumes "resolve nd n True [] cs = Inr q" "nd [] = Some Dir" "good q"
  shows "resolve nd m True [] q = Inr q"
proof -
  have ch: "(\<forall>p. strict_prefix p q \<longrightarrow> nd p = Some Dir) \<and> (nd q = Some Dir \<or> (\<exists>s x. nd q = Some (Reg s x)))"
    using assms(1,2) by (intro resolve_chain) (auto simp: real_dir_def)
  show ?thesis
  proof (cases q rule: rev_cases)
    case (snoc p c)
    have "resolve nd m True [] (p @ [c]) = resolve nd m True p [c]"
      using ch assms(3) snoc by (intro resolve_dir) (auto simp: real_dir_def strict_prefix_def prefix_def)
    with ch assms(3) snoc show ?thesis by (auto simp: plain_elem_def)
  qed simp
qed

subsection \<open>Replacing a link\<close>

definition tmp_name :: "string \<Rightarrow> nat \<Rightarrow> string" where
  "tmp_name name r = ''.'' @ name @ ''-tmp-'' @ hex_string r"

definition switched :: "place \<Rightarrow> string \<Rightarrow> place \<Rightarrow> fs \<Rightarrow> fs \<Rightarrow> bool" where
  "switched p t tmp fs fs' =
     (node_at fs' p = Some (Link t) \<and>
      (\<forall>q. \<not> prefix p q \<and> \<not> prefix tmp q \<longrightarrow> node_at fs' q = node_at fs q))"

lemma hex_digit_not_slash: "hex_digit n \<noteq> slash"
proof
  assume "hex_digit n = slash"
  then have "byte (hex_digit n) = 47" by simp
  moreover have "0 \<le> n mod 16" "n mod 16 < 16" by simp_all
  ultimately show False by (auto simp: hex_digit_def Let_def of_char_of split: if_splits)
qed

lemma tmp_name_good:
  "plain_elem name \<Longrightarrow> plain_elem (tmp_name name r) \<and> tmp_name name r \<noteq> dotdot \<and> tmp_name name r \<noteq> name"
proof -
  have "length (tmp_name name r) > length name + 2" by (simp add: tmp_name_def)
  moreover assume "plain_elem name"
  moreover have "slash \<notin> set (hex_string r)" using hex_digit_not_slash by (force simp: hex_string_def)
  ultimately show ?thesis by (auto simp: tmp_name_def plain_elem_def)
qed

lemma path_base_path_of:
  assumes "good (p @ [c])"
  shows "path_base (path_of (p @ [c])) = c"
proof -
  have c: "slash \<notin> set c" "c \<noteq> []" using assms by (simp_all add: plain_elem_def)
  obtain u where u: "path_of (p @ [c]) = u @ slash # c"
    by (cases "p = []") (auto simp: path_of_snoc, simp add: path_of_def)
  have "rev (dropWhile (\<lambda>d. d = slash) (rev (u @ slash # c))) = u @ slash # c"
    using c by (cases c rule: rev_cases) auto
  moreover have "takeWhile (\<lambda>d. d \<noteq> slash) (rev c @ slash # rev u) = rev c"
    using c(1) by (subst takeWhile_append2) auto
  ultimately show ?thesis unfolding u by (simp add: path_base_def Let_def)
qed

lemma random_path_files:
  "files (snd (random_path n dir pre d)) = files d \<and> past (snd (random_path n dir pre d)) = past d"
  by (induction n dir pre d rule: random_path.induct)
    (auto simp: fail_io_def return_io_def draw_def Let_def split: option.splits sum.splits)

lemma random_path_result:
  "fst (random_path n dir pre d) = Inr p \<Longrightarrow>
     \<exists>r. p = path_join [dir, pre @ hex_string r] \<and> lstat (files d) p = Inl ENOENT"
  by (induction n dir pre d rule: random_path.induct)
    (auto simp: fail_io_def return_io_def draw_def Let_def split: option.splits sum.splits if_splits)

lemma lstat_ENOENT:
  assumes "lstat fs (path_of (p @ [c])) = Inl ENOENT" "real_dir (node_at fs) p" "good (p @ [c])"
  shows "node_at fs (p @ [c]) = None"
proof -
  have "resolve (node_at fs) 40 False [] (p @ [c]) = resolve (node_at fs) 40 False p [c]"
    using assms(2,3) by (intro resolve_dir) simp_all
  then have "lstat fs (path_of (p @ [c])) =
      map_sum (\<lambda>e. e) (\<lambda>q. the (node_at fs q)) (resolve (node_at fs) 40 False p [c])"
    using assms(3) by (simp add: lstat_def resolve_path_of del: good_simps)
  with assms(1,3) show ?thesis
    by (auto simp: plain_elem_def split: option.splits node.splits)
qed

lemma replaceSymlink_steps:
  assumes b: "good (b @ [name])" "real_dir (node_at (files d)) b"
    and run: "replaceSymlink (path_of (b @ [name])) t d = (x, d')"
  shows "\<exists>r. went (\<lambda>fs. touched (b @ [tmp_name name r]) (files d) fs \<or>
        switched (b @ [name]) t (b @ [tmp_name name r]) (files d) fs) d d' \<and>
    (case x of Inl e \<Rightarrow> touched (b @ [tmp_name name r]) (files d) (files d')
     | Inr _ \<Rightarrow> switched (b @ [name]) t (b @ [tmp_name name r]) (files d) (files d'))"
proof -
  have pl: "plain_elem name" using b(1) by simp
  obtain y d1 where rp: "randomSiblingPath (path_of b) (''.'' @ name @ ''-tmp-'') d = (y, d1)"
    by (metis prod.collapse)
  have d1: "files d1 = files d" "past d1 = past d"
    using random_path_files [of 16 "path_of b" "''.'' @ name @ ''-tmp-''" d] rp
    by (simp_all add: randomSiblingPath_def)
  have run1: "(x, d') = (case y of Inl e \<Rightarrow> (Inl e, d1)
      | Inr tmp \<Rightarrow> bind_io (io_symlink t tmp) (\<lambda>_. on_error (io_rename tmp (path_of (b @ [name])))
          (\<lambda>d. snd (attempt (sys_remove tmp) d))) d1)"
    using run rp path_dir_path_of [OF b(1)] path_base_path_of [OF b(1)]
    by (simp add: replaceSymlink_def bind_io_def)
  show ?thesis
  proof (cases y)
    case (Inl e)
    with run1 d1 show ?thesis by (intro exI [of _ 0]) (simp add: went_def)
  next
    case (Inr tmp)
    then obtain r where r: "tmp = path_join [path_of b, tmp_name name r]" "lstat (files d) tmp = Inl ENOENT"
      using random_path_result [of 16 "path_of b" "''.'' @ name @ ''-tmp-''" d tmp] rp
      by (auto simp: randomSiblingPath_def tmp_name_def)
    let ?n = "tmp_name name r"
    have n: "plain_elem ?n" "?n \<noteq> dotdot" "?n \<noteq> name" using tmp_name_good [OF pl] by auto
    have gb: "good b" "good (b @ [?n])" using b(1) n by simp_all
    have tmp: "tmp = path_of (b @ [?n])" using r(1) join_name [OF gb(1) n(1,2)] by simp
    have none: "node_at (files d) (b @ [?n]) = None"
      using r(2) lstat_ENOENT [OF _ b(2) gb(2)] unfolding tmp by simp
    show ?thesis
    proof (rule exI [of _ r], rule attempt_cases [of "sys_symlink t tmp" d1])
      fix e assume "attempt (sys_symlink t tmp) d1 = (Some e, d1\<lparr>made := Suc (made d1)\<rparr>)"
      then have "x = Inl (link_error ''symlink'' t tmp e) \<and> d' = d1\<lparr>made := Suc (made d1)\<rparr>"
        using run1 Inr by (simp add: bind_io_def io_symlink_def call_io_def)
      with d1 show "went (\<lambda>fs. touched (b @ [?n]) (files d) fs \<or>
          switched (b @ [name]) t (b @ [?n]) (files d) fs) d d' \<and>
        (case x of Inl e \<Rightarrow> touched (b @ [?n]) (files d) (files d')
         | Inr _ \<Rightarrow> switched (b @ [name]) t (b @ [?n]) (files d) (files d'))"
        by (simp add: went_def)
    next
      fix fs1 let ?d2 = "d1\<lparr>made := Suc (made d1), files := fs1, past := past d1 @ [files d1]\<rparr>"
      assume sy: "sys_symlink t tmp (files d1) = Inr fs1"
        and a: "attempt (sys_symlink t tmp) d1 = (None, ?d2)"
      have fs1: "fs1 = put_node (b @ [?n]) (Link t) (files d)"
        using sy place_of_real [OF b(2) gb(2)] by (simp add: sys_symlink_def d1 tmp split: if_splits)
      have t1: "touched (b @ [?n]) (files d) fs1" by (auto simp: fs1 touched_def)
      have rd: "real_dir (node_at fs1) b"
        using b(2) by (auto simp: fs1 real_dir_def dest: prefix_length_le)
      have pl: "place_of fs1 tmp = Inr (b @ [?n])" "place_of fs1 (path_of (b @ [name])) = Inr (b @ [name])"
        unfolding tmp using place_of_real [OF rd] gb(2) b(1) by simp_all
      have rn: "switched (b @ [name]) t (b @ [?n]) (files d) fs2"
        if r: "sys_rename tmp (path_of (b @ [name])) fs1 = Inr fs2" for fs2
      proof -
        have np: "\<not> prefix (b @ [?n]) (b @ [name])" "\<not> prefix (b @ [name]) (b @ [?n])" using n(3) by auto
        have n1: "node_at fs1 (b @ [?n]) = Some (Link t)" by (simp add: fs1)
        have "fs2 = move_tree (b @ [?n]) (b @ [name]) fs1"
          using r n(3) n1 unfolding sys_rename_def pl by (simp split: if_splits)
        then show ?thesis
          using n1 t1 by (simp add: switched_def touched_def node_at_move [OF np])
      qed
      have rest: "(x, d') = on_error (io_rename tmp (path_of (b @ [name])))
          (\<lambda>d. snd (attempt (sys_remove tmp) d)) ?d2"
        using run1 Inr a by (simp add: bind_io_def io_symlink_def call_io_def)
      show "went (\<lambda>fs. touched (b @ [?n]) (files d) fs \<or>
          switched (b @ [name]) t (b @ [?n]) (files d) fs) d d' \<and>
        (case x of Inl e \<Rightarrow> touched (b @ [?n]) (files d) (files d')
         | Inr _ \<Rightarrow> switched (b @ [name]) t (b @ [?n]) (files d) (files d'))"
      proof (rule attempt_cases [of "sys_rename tmp (path_of (b @ [name]))" ?d2])
        fix e assume ren: "attempt (sys_rename tmp (path_of (b @ [name]))) ?d2 =
            (Some e, ?d2\<lparr>made := Suc (made ?d2)\<rparr>)"
        then have xd: "x = Inl (link_error ''rename'' tmp (path_of (b @ [name])) e)"
          "d' = snd (attempt (sys_remove tmp) (?d2\<lparr>made := Suc (made ?d2)\<rparr>))"
          using rest by (simp_all add: on_error_def io_rename_def call_io_def)
        have rm: "sys_remove tmp fs1 = Inr fs2 \<Longrightarrow> touched (b @ [?n]) (files d) fs2" for fs2
          using t1 by (auto simp: sys_remove_def pl touched_def split: if_splits)
        show ?thesis
          by (rule attempt_cases [of "sys_remove tmp" "?d2\<lparr>made := Suc (made ?d2)\<rparr>"])
            (auto simp: xd went_def d1 t1 rm)
      next
        fix fs2 assume "sys_rename tmp (path_of (b @ [name])) (files ?d2) = Inr fs2"
          and ren: "attempt (sys_rename tmp (path_of (b @ [name]))) ?d2 =
            (None, ?d2\<lparr>made := Suc (made ?d2), files := fs2, past := past ?d2 @ [files ?d2]\<rparr>)"
        then have sw: "switched (b @ [name]) t (b @ [?n]) (files d) fs2" using rn by simp
        from ren have "x = Inr ()"
          "d' = ?d2\<lparr>made := Suc (made ?d2), files := fs2, past := past ?d2 @ [files ?d2]\<rparr>"
          using rest by (simp_all add: on_error_def io_rename_def call_io_def)
        with sw t1 d1 show ?thesis by (simp add: went_def)
      qed
    qed
  qed
qed

end
