(* ===== verification/GoRegexp.thy ===== *)
theory GoRegexp
  imports GoStrings
begin

section \<open>Go's regexp package, for the patterns of the plugin\<close>

text \<open>
  Go finds the match that a backtracking search finds first (leftmost, then by the preference of
  alternatives and of greedy repetitions). \<open>match_re\<close> lists the matches of a pattern at a position
  in that order, so its head is the one Go reports. A repetition is always over one class of
  bytes in the plugin's patterns, so \<open>Rep\<close> takes a class and the search is structural.

  A position is the text before it (reversed) and the text after it. A class that Go states by
  exclusion also matches each byte of a longer rune; in every pattern a run of such a class ends
  at an ASCII byte or at the end of the text, so matching bytes and matching runes agree.
\<close>

type_synonym pos = "string \<times> string"
type_synonym caps = "(nat \<times> string) list"

datatype re =
    Cls "char \<Rightarrow> bool"
  | Rep "char \<Rightarrow> bool" nat "nat option"
  | Seq re re
  | Alt re re
  | Eps
  | Cap nat re
  | WordB
  | TextStart
  | TextEnd

definition word_char :: "char \<Rightarrow> bool" where
  "word_char c = ((48 \<le> byte c \<and> byte c \<le> 57) \<or> (65 \<le> byte c \<and> byte c \<le> 90) \<or>
     (97 \<le> byte c \<and> byte c \<le> 122) \<or> c = CHR ''_'')"

text \<open>\<^verbatim>\<open>\s\<close>.\<close>

definition re_space :: "char \<Rightarrow> bool" where
  "re_space c = (c = CHR 0x09 \<or> c = CHR 0x0A \<or> c = CHR 0x0C \<or> c = CHR 0x0D \<or> c = CHR 0x20)"

definition word_at :: "string \<Rightarrow> bool" where
  "word_at s = (case s of [] \<Rightarrow> False | c # _ \<Rightarrow> word_char c)"

definition run_length :: "(char \<Rightarrow> bool) \<Rightarrow> nat option \<Rightarrow> string \<Rightarrow> nat" where
  "run_length p mx s =
     length (takeWhile p (case mx of None \<Rightarrow> s | Some n \<Rightarrow> take n s))"

definition advance :: "nat \<Rightarrow> pos \<Rightarrow> pos" where
  "advance k q = (rev (take k (snd q)) @ fst q, drop k (snd q))"

text \<open>The text between two positions of the same string.\<close>

definition between :: "pos \<Rightarrow> pos \<Rightarrow> string" where
  "between q r = take (length (snd q) - length (snd r)) (snd q)"

fun match_re :: "re \<Rightarrow> pos \<Rightarrow> (caps \<times> pos) list" where
  "match_re (Cls p) q =
     (case snd q of [] \<Rightarrow> [] | c # _ \<Rightarrow> if p c then [([], advance 1 q)] else [])"
| "match_re (Rep p mn mx) q =
     map (\<lambda>k. ([], advance k q)) (rev [mn..<Suc (run_length p mx (snd q))])"
| "match_re (Seq r s) q =
     concat (map (\<lambda>(cs, q1). map (\<lambda>(cs', q2). (cs @ cs', q2)) (match_re s q1)) (match_re r q))"
| "match_re (Alt r s) q = match_re r q @ match_re s q"
| "match_re Eps q = [([], q)]"
| "match_re (Cap i r) q = map (\<lambda>(cs, q1). ((i, between q q1) # cs, q1)) (match_re r q)"
| "match_re WordB q = (if word_at (fst q) \<noteq> word_at (snd q) then [([], q)] else [])"
| "match_re TextStart q = (if fst q = [] then [([], q)] else [])"
| "match_re TextEnd q = (if snd q = [] then [([], q)] else [])"

text \<open>The leftmost match from a position on: where it starts, its captures, where it ends.\<close>

fun find_from :: "re \<Rightarrow> string \<Rightarrow> string \<Rightarrow> (pos \<times> caps \<times> pos) option" where
  "find_from r b [] =
     (case match_re r (b, []) of [] \<Rightarrow> None | (cs, q) # _ \<Rightarrow> Some ((b, []), cs, q))"
| "find_from r b (c # a) =
     (case match_re r (b, c # a) of
        [] \<Rightarrow> find_from r (c # b) a
      | (cs, q) # _ \<Rightarrow> Some ((b, c # a), cs, q))"

text \<open>
  \<^verbatim>\<open>FindAll\<close> and \<^verbatim>\<open>ReplaceAllString\<close>. No pattern of the plugin matches the empty text, so the
  guard, which stops at an empty match, is never what ends the loop.
\<close>

function find_all :: "re \<Rightarrow> string \<Rightarrow> string \<Rightarrow> string list" where
  "find_all r b a =
     (case find_from r b a of
        None \<Rightarrow> []
      | Some (q, cs, q1) \<Rightarrow>
          if length (snd q1) < length a
          then between q q1 # find_all r (fst q1) (snd q1)
          else [])"
  by pat_completeness auto
termination by (relation "measure (\<lambda>(r, b, a). length a)") auto

function replace_from :: "re \<Rightarrow> (caps \<Rightarrow> string) \<Rightarrow> string \<Rightarrow> string \<Rightarrow> string" where
  "replace_from r f b a =
     (case find_from r b a of
        None \<Rightarrow> a
      | Some (q, cs, q1) \<Rightarrow>
          if length (snd q1) < length a
          then between (b, a) q @ f cs @ replace_from r f (fst q1) (snd q1)
          else a)"
  by pat_completeness auto
termination by (relation "measure (\<lambda>(r, f, b, a). length a)") auto

declare find_all.simps [simp del] replace_from.simps [simp del]

definition find_all_string :: "re \<Rightarrow> string \<Rightarrow> string list" where
  "find_all_string r s = find_all r [] s"

definition replace_all_re :: "re \<Rightarrow> (caps \<Rightarrow> string) \<Rightarrow> string \<Rightarrow> string" where
  "replace_all_re r f s = replace_from r f [] s"

text \<open>A capture group that took no part in the match expands to the empty text.\<close>

definition cap :: "nat \<Rightarrow> caps \<Rightarrow> string" where
  "cap i cs = (case map_of cs i of None \<Rightarrow> [] | Some s \<Rightarrow> s)"

subsection \<open>Building patterns\<close>

fun seqs :: "re list \<Rightarrow> re" where
  "seqs [] = Eps"
| "seqs [r] = r"
| "seqs (r # rs) = Seq r (seqs rs)"

fun alts :: "re list \<Rightarrow> re" where
  "alts [] = Cls (\<lambda>_. False)"
| "alts [r] = r"
| "alts (r # rs) = Alt r (alts rs)"

definition lit :: "string \<Rightarrow> re" where
  "lit s = seqs (map (\<lambda>c. Cls (\<lambda>d. d = c)) s)"

text \<open>
  A letter under \<^verbatim>\<open>(?i)\<close>, given in lower case: both cases, and the two runes beyond ASCII that
  fold with k and s.
\<close>

definition ci_char :: "char \<Rightarrow> re" where
  "ci_char c =
     (let both = Cls (\<lambda>d. lower_char d = c)
      in if c = CHR ''k'' then Alt both (lit [CHR 0xE2, CHR 0x84, CHR 0xAA])
         else if c = CHR ''s'' then Alt both (lit [CHR 0xC5, CHR 0xBF])
         else both)"

definition ci_lit :: "string \<Rightarrow> re" where
  "ci_lit s = seqs (map ci_char s)"

subsection \<open>Matches lie in the text\<close>

definition same_text :: "pos \<Rightarrow> pos \<Rightarrow> bool" where
  "same_text q r = (\<exists>k \<le> length (snd q). r = advance k q)"

lemma advance_0 [simp]: "advance 0 q = q"
  by (simp add: advance_def)

lemma advance_advance: "advance j (advance k q) = advance (k + j) q"
  by (simp add: advance_def take_add add.commute [of j k])

lemma snd_advance [simp]: "snd (advance k q) = drop k (snd q)"
  by (simp add: advance_def)

lemma same_text_refl [simp]: "same_text q q"
  by (force simp: same_text_def intro: exI [of _ 0])

lemma same_text_trans: "same_text q r \<Longrightarrow> same_text r s \<Longrightarrow> same_text q s"
proof -
  assume "same_text q r" "same_text r s"
  then obtain k j where "k \<le> length (snd q)" "r = advance k q" "j \<le> length (snd q) - k" "s = advance j r"
    by (auto simp: same_text_def)
  then have "k + j \<le> length (snd q)" "s = advance (k + j) q" by (auto simp: advance_advance)
  then show ?thesis by (auto simp: same_text_def)
qed

lemma run_length_le: "run_length p mx s \<le> length s"
  by (auto simp: run_length_def split: option.splits
      intro: order_trans [OF length_takeWhile_le])

lemma match_re_same_text: "(cs, q') \<in> set (match_re r q) \<Longrightarrow> same_text q q'"
proof (induction r arbitrary: q q' cs)
  case (Cls p)
  then have "snd q \<noteq> []" "q' = advance 1 q"
    by (auto split: list.splits if_splits)
  then show ?case by (cases "snd q") (auto simp: same_text_def)
next
  case (Rep p mn mx)
  then obtain k where "k < Suc (run_length p mx (snd q))" "q' = advance k q"
    by (auto simp del: upt_Suc)
  then have "k \<le> length (snd q)" using run_length_le [of p mx "snd q"] by simp
  then show ?case using \<open>q' = advance k q\<close> by (auto simp: same_text_def)
next
  case (Seq r s)
  from Seq.prems obtain cs1 cs2 q1 where "(cs1, q1) \<in> set (match_re r q)" "(cs2, q') \<in> set (match_re s q1)"
    by auto
  then show ?case using Seq.IH same_text_trans by blast
qed (auto split: if_splits)

text \<open>The leftmost match starts and ends in the text.\<close>

lemma find_from_same_text:
  "find_from r b a = Some (q, cs, q1) \<Longrightarrow> same_text (b, a) q \<and> same_text q q1"
proof (induction r b a rule: find_from.induct)
  case (1 r b)
  then show ?case
    by (auto split: list.splits) (metis list.set_intros(1) match_re_same_text)
next
  case (2 r b c a)
  show ?case
  proof (cases "match_re r (b, c # a)")
    case Nil
    with 2 have "same_text (c # b, a) q \<and> same_text q q1" by simp
    moreover have "same_text (b, c # a) (c # b, a)"
      by (auto simp: same_text_def advance_def intro!: exI [of _ 1])
    ultimately show ?thesis by (blast intro: same_text_trans)
  next
    case (Cons m ms)
    with 2(2) have "q = (b, c # a)" "(cs, q1) \<in> set (match_re r (b, c # a))"
      by (auto split: prod.splits)
    then show ?thesis by (auto dest: match_re_same_text)
  qed
qed

lemma replace_none: "find_from r [] s = None \<Longrightarrow> replace_all_re r f s = s"
  by (simp add: replace_all_re_def replace_from.simps)

text \<open>Replacing every match by itself gives the text back.\<close>

lemma between_same_text:
  "same_text q r \<Longrightarrow> between q r @ snd r = snd q"
  by (auto simp: same_text_def between_def)

lemma find_all_sublist: "m \<in> set (find_all r b a) \<Longrightarrow> sublist m a"
proof (induction r b a rule: find_all.induct)
  case (1 r b a)
  obtain q cs q1 where f: "find_from r b a = Some (q, cs, q1)" "length (snd q1) < length a"
    and m: "m = between q q1 \<or> m \<in> set (find_all r (fst q1) (snd q1))"
    using 1(2) find_all.simps [of r b a] by (auto split: option.splits if_splits)
  from find_from_same_text [OF f(1)] have t: "same_text (b, a) q" "same_text q q1" by auto
  have sub: "sublist (snd y) (snd x)" if "same_text x y" for x y :: pos
    using that by (auto simp: same_text_def)
  have sq: "sublist (snd q) a" "sublist (snd q1) (snd q)"
    using sub [OF t(1)] sub [OF t(2)] by simp_all
  from m show ?case
  proof
    assume "m = between q q1"
    then have "sublist m (snd q)" by (simp add: between_def)
    with sq show ?thesis by (blast intro: sublist_order.order_trans)
  next
    assume "m \<in> set (find_all r (fst q1) (snd q1))"
    then have "sublist m (snd q1)" using 1(1) f by auto
    with sq show ?thesis by (blast intro: sublist_order.order_trans)
  qed
qed

subsection \<open>What a match consists of\<close>

text \<open>The text of a match is put together from the texts of its parts.\<close>

lemma find_from_match: "find_from r b a = Some (q, cs, q1) \<Longrightarrow> (cs, q1) \<in> set (match_re r q)"
  by (induction r b a rule: find_from.induct) (auto split: list.splits)

lemma find_all_match: "m \<in> set (find_all r b a) \<Longrightarrow> \<exists>q cs q1. (cs, q1) \<in> set (match_re r q) \<and> m = between q q1"
proof (induction r b a rule: find_all.induct)
  case (1 r b a)
  obtain q cs q1 where f: "find_from r b a = Some (q, cs, q1)" "length (snd q1) < length a"
    and m: "m = between q q1 \<or> m \<in> set (find_all r (fst q1) (snd q1))"
    using 1(2) find_all.simps [of r b a] by (auto split: option.splits if_splits)
  show ?case using m
  proof
    assume "m = between q q1"
    with find_from_match [OF f(1)] show ?thesis by blast
  next
    assume "m \<in> set (find_all r (fst q1) (snd q1))"
    with 1(1) f show ?thesis by auto
  qed
qed

lemma between_trans:
  assumes "same_text q r" "same_text r s"
  shows "between q s = between q r @ between r s"
proof -
  have "between q s @ snd s = (between q r @ between r s) @ snd s"
    using assms by (simp add: between_same_text same_text_trans [OF assms])
  then show ?thesis by (simp only: append_same_eq)
qed

lemma match_SeqE:
  assumes "(cs, q') \<in> set (match_re (Seq r s) q)"
  obtains cs1 cs2 q1 where "(cs1, q1) \<in> set (match_re r q)" "(cs2, q') \<in> set (match_re s q1)"
    "cs = cs1 @ cs2" "between q q' = between q q1 @ between q1 q'"
proof -
  from assms have "\<exists>x \<in> set (match_re r q).
      (cs, q') \<in> (\<lambda>y. (fst x @ fst y, snd y)) ` set (match_re s (snd x))"
    by (simp add: case_prod_unfold)
  then obtain cs1 cs2 q1 where m: "(cs1, q1) \<in> set (match_re r q)"
    "(cs2, q') \<in> set (match_re s q1)" "cs = cs1 @ cs2"
    by (elim bexE imageE) (metis fst_conv prod.collapse snd_conv)
  show thesis
    by (rule that [OF m between_trans [OF match_re_same_text [OF m(1)] match_re_same_text [OF m(2)]]])
qed

lemma match_ClsE:
  assumes "(cs, q') \<in> set (match_re (Cls p) q)"
  obtains c where "p c" "between q q' = [c]" "cs = []"
  using assms by (cases "snd q") (auto simp: between_def split: if_splits)

lemma match_RepE:
  assumes "(cs, q') \<in> set (match_re (Rep p mn mx) q)"
  obtains "cs = []" "list_all p (between q q')" "mn \<le> length (between q q')"
    "\<forall>n. mx = Some n \<longrightarrow> length (between q q') \<le> n"
proof -
  from assms obtain k where k: "mn \<le> k" "k \<le> run_length p mx (snd q)" "q' = advance k q" "cs = []"
    by (auto simp del: upt_Suc)
  have bt: "between q q' = take k (snd q)"
    using k(2,3) run_length_le [of p mx "snd q"] by (simp add: between_def)
  define u where "u = (case mx of None \<Rightarrow> snd q | Some n \<Rightarrow> take n (snd q))"
  have len: "k \<le> length (takeWhile p u)" using k(2) by (simp add: run_length_def u_def)
  then have ku: "k \<le> length u" using length_takeWhile_le le_trans by blast
  then have n: "\<forall>n. mx = Some n \<longrightarrow> k \<le> n" by (auto simp: u_def)
  have klen: "k \<le> length (snd q)" using k(2) run_length_le le_trans by blast
  have tk: "take k u = take k (snd q)" using n by (cases mx) (simp_all add: u_def min_absorb1)
  have "take k (takeWhile p u @ dropWhile p u) = take k (takeWhile p u)"
    using len by (simp del: takeWhile_dropWhile_id)
  then have "take k u = take k (takeWhile p u)" by simp
  then have "list_all p (take k (snd q))"
    by (auto simp: tk [symmetric] list_all_iff dest: in_set_takeD set_takeWhileD)
  with k(1,4) n klen show thesis
    by (intro that) (simp_all add: bt)
qed

lemma match_lit:
  assumes "(cs, q') \<in> set (match_re (lit s) q)"
  shows "cs = [] \<and> between q q' = s"
  using assms
proof (induction s arbitrary: q cs)
  case Nil
  then show ?case by (simp add: lit_def between_def)
next
  case (Cons c s)
  show ?case
  proof (cases s)
    case Nil
    with Cons.prems have "(cs, q') \<in> set (match_re (Cls (\<lambda>d. d = c)) q)" by (simp add: lit_def)
    then show ?thesis by (rule match_ClsE) (simp add: Nil)
  next
    case (Cons d u)
    with Cons.prems have "(cs, q') \<in> set (match_re (Seq (Cls (\<lambda>d. d = c)) (lit s)) q)"
      by (simp add: lit_def)
    then obtain cs1 cs2 q1 where m: "(cs1, q1) \<in> set (match_re (Cls (\<lambda>d. d = c)) q)"
      "(cs2, q') \<in> set (match_re (lit s) q1)" "cs = cs1 @ cs2" "between q q' = between q q1 @ between q1 q'"
      by (rule match_SeqE)
    from m(1) have "cs1 = [] \<and> between q q1 = [c]" by (rule match_ClsE) simp
    with m(3,4) Cons.IH [OF m(2)] show ?thesis by simp
  qed
qed

lemma match_CapE:
  assumes "(cs, q') \<in> set (match_re (Cap i r) q)"
  obtains cs' where "(cs', q') \<in> set (match_re r q)" "cs = (i, between q q') # cs'"
  using assms by auto

lemma match_AltE:
  assumes "(cs, q') \<in> set (match_re (Alt r s) q)"
  obtains "(cs, q') \<in> set (match_re r q)" | "(cs, q') \<in> set (match_re s q)"
  using assms by auto

lemma match_Eps: "(cs, q') \<in> set (match_re Eps q) \<Longrightarrow> cs = [] \<and> between q q' = []"
  by (simp add: between_def)

end
