(* ===== verification/Redact.thy ===== *)
theory Redact
  imports GoRegexp
begin

section \<open>Redaction (internal/redact/redact.go)\<close>

text \<open>
  Texts of errors lose what looks like a token, by three regular expressions, and the secrets that
  the caller names.
\<close>

definition redacted :: string where
  "redacted = ''[REDACTED]''"

definition ci_alts :: "string list \<Rightarrow> re" where
  "ci_alts ws = alts (map ci_lit ws)"

definition class_of :: "string \<Rightarrow> char \<Rightarrow> bool" where
  "class_of s c = List.member s c"

text \<open>\<open>(?i)(authorization\s*[:=]\s*(?:bearer|token)\s+)[^\s,;"']+\<close>\<close>

definition auth_pattern :: re where
  "auth_pattern =
     Seq (Cap 1 (seqs [ci_lit ''authorization'', Rep re_space 0 None, Cls (class_of '':=''),
                       Rep re_space 0 None, ci_alts [''bearer'', ''token''], Rep re_space 1 None]))
         (Rep (\<lambda>c. \<not> re_space c \<and> \<not> class_of [CHR '','', CHR '';'', CHR 0x22, CHR 0x27] c) 1 None)"

text \<open>\<open>(?i)("(?:access_token|...|token)"\s*:\s*")[^"]+(")\<close>\<close>

definition json_pattern :: re where
  "json_pattern =
     seqs [Cap 1 (seqs [lit [CHR 0x22],
                        ci_alts [''access_token'', ''refresh_token'', ''github_access_token'',
                                 ''github_refresh_token'', ''token''],
                        lit [CHR 0x22], Rep re_space 0 None, lit '':'', Rep re_space 0 None,
                        lit [CHR 0x22]]),
           Rep (\<lambda>c. c \<noteq> CHR 0x22) 1 None,
           Cap 2 (lit [CHR 0x22])]"

text \<open>\<open>\b(?:gh[opurs]_[A-Za-z0-9_]{20,}|github_pat_[A-Za-z0-9_]{20,})\b\<close>\<close>

definition github_pattern :: re where
  "github_pattern =
     seqs [WordB,
           Alt (seqs [lit ''gh'', Cls (class_of ''opurs''), lit ''_'', Rep word_char 20 None])
               (seqs [lit ''github_pat_'', Rep word_char 20 None]),
           WordB]"

definition tokenPatterns :: "re list" where
  "tokenPatterns = [auth_pattern, json_pattern, github_pattern]"

text \<open>The template \<^verbatim>\<open>${1}[REDACTED]${2}\<close>.\<close>

definition redact_template :: "caps \<Rightarrow> string" where
  "redact_template cs = cap 1 cs @ redacted @ cap 2 cs"

definition redact_secrets :: "string \<Rightarrow> string list \<Rightarrow> string" where
  "redact_secrets value secrets =
     foldl (\<lambda>out secret. let s = trim_space secret
                         in if s = [] then out else replace_all out s redacted) value secrets"

definition redact_text :: "string \<Rightarrow> string list \<Rightarrow> string" where
  "redact_text value secrets =
     foldl (\<lambda>out p. replace_all_re p redact_template out) (redact_secrets value secrets) tokenPatterns"

text \<open>\<open>ErrorBody\<close> cuts the text at 2048 bytes and appends an ellipsis (U+2026) before redacting.\<close>

definition redact_error_body :: "string \<Rightarrow> string list \<Rightarrow> string" where
  "redact_error_body body secrets =
     (let t = trim_space body;
          u = (if length t > 2048 then take 2048 t @ [CHR 0xE2, CHR 0x80, CHR 0xA6] else t)
      in redact_text u secrets)"

end
