(* ===== verification/AgentRun.thy ===== *)
theory AgentRun
  imports Config Redact
begin

section \<open>Running the Cursor agent CLI (internal/provider/cursor_cli.go)\<close>

text \<open>
  One call of \<^verbatim>\<open>runAgent\<close> is a function of the answers that the operating system gives during
  the call (\<open>os_answers\<close>: file operations, the wait for a concurrency slot, the process and what
  it writes), the configuration and the arguments. It returns the events that the call causes
  outside the plugin, in order, the captured output and the error, if any. A deferred call of the
  Go code is an event at the end, in reverse order of its \<^verbatim>\<open>defer\<close>.
\<close>

subsection \<open>Bounded output (\<open>limitedBuffer\<close>)\<close>

record limitedBuffer =
  lb_buf :: string
  lb_limit :: int
  lb_truncated :: bool

definition new_buffer :: "int \<Rightarrow> limitedBuffer" where
  "new_buffer limit = \<lparr>lb_buf = [], lb_limit = limit, lb_truncated = False\<rparr>"

definition lb_write :: "limitedBuffer \<Rightarrow> string \<Rightarrow> limitedBuffer" where
  "lb_write b p =
     (if lb_limit b \<le> 0 then b
      else let remain = lb_limit b - int (length (lb_buf b))
           in if remain \<le> 0 then b\<lparr>lb_truncated := True\<rparr>
              else if int (length p) > remain
                then b\<lparr>lb_buf := lb_buf b @ take (nat remain) p, lb_truncated := True\<rparr>
              else b\<lparr>lb_buf := lb_buf b @ p\<rparr>)"

text \<open>
  The contract of a bounded sink: it keeps the first bytes of what is written, at most its
  limit, and knows whether it dropped any.
\<close>

lemma concat_nonempty: "concat (filter (\<lambda>p. p \<noteq> []) ps) = concat ps"
  by (induction ps) auto

locale bounded_sink =
  fixes fresh :: "int \<Rightarrow> 'b"
    and put :: "'b \<Rightarrow> string \<Rightarrow> 'b"
    and content :: "'b \<Rightarrow> string"
    and dropped :: "'b \<Rightarrow> bool"
    and holds :: "int \<Rightarrow> string \<Rightarrow> 'b \<Rightarrow> bool"
  assumes fresh_holds: "0 < limit \<Longrightarrow> holds limit [] (fresh limit)"
    and put_holds: "holds limit s b \<Longrightarrow> p \<noteq> [] \<Longrightarrow> holds limit (s @ p) (put b p)"
    and content_holds: "holds limit s b \<Longrightarrow> content b = take (nat limit) s"
    and dropped_holds: "holds limit s b \<Longrightarrow> dropped b \<longleftrightarrow> limit < int (length s)"
begin

lemma holds_all:
  "holds limit s b \<Longrightarrow> \<forall>p \<in> set ps. p \<noteq> [] \<Longrightarrow> holds limit (s @ concat ps) (foldl put b ps)"
proof (induction ps arbitrary: s b)
  case (Cons p ps)
  then have "holds limit ((s @ p) @ concat ps) (foldl put (put b p) ps)"
    by (intro Cons.IH put_holds) auto
  then show ?case by simp
qed simp

lemma holds_written:
  "0 < limit \<Longrightarrow> holds limit (concat ps) (foldl put (fresh limit) (filter (\<lambda>p. p \<noteq> []) ps))"
  using holds_all [OF fresh_holds, of limit "filter (\<lambda>p. p \<noteq> []) ps"]
  by (simp add: concat_nonempty)

lemma content_written:
  "0 < limit \<Longrightarrow>
     content (foldl put (fresh limit) (filter (\<lambda>p. p \<noteq> []) ps)) = take (nat limit) (concat ps)"
  by (rule content_holds [OF holds_written])

lemma dropped_written:
  "0 < limit \<Longrightarrow>
     dropped (foldl put (fresh limit) (filter (\<lambda>p. p \<noteq> []) ps)) \<longleftrightarrow> limit < int (length (concat ps))"
  by (rule dropped_holds [OF holds_written])

end

definition lb_holds :: "int \<Rightarrow> string \<Rightarrow> limitedBuffer \<Rightarrow> bool" where
  "lb_holds limit s b =
     (0 < limit \<and> lb_limit b = limit \<and> lb_buf b = take (nat limit) s \<and>
      lb_truncated b = (limit < int (length s)))"

lemma lb_write_holds:
  assumes h: "lb_holds limit s b" and p: "p \<noteq> []"
  shows "lb_holds limit (s @ p) (lb_write b p)"
proof (cases "int (length s) < limit")
  case True
  with h have "lb_buf b = s" "\<not> lb_truncated b" "lb_limit b = limit" "0 < limit"
    by (auto simp: lb_holds_def)
  with True show ?thesis
    by (auto simp: lb_holds_def lb_write_def Let_def nat_diff_distrib)
next
  case False
  with h have len: "int (length (lb_buf b)) = limit" and lim: "lb_limit b = limit" "0 < limit"
    by (auto simp: lb_holds_def)
  then have "lb_write b p = b\<lparr>lb_truncated := True\<rparr>" by (simp add: lb_write_def)
  moreover have "take (nat limit) (s @ p) = take (nat limit) s" using False by simp
  moreover have "limit < int (length (s @ p))" using False p by (cases p) auto
  ultimately show ?thesis using h by (simp add: lb_holds_def)
qed

interpretation captured: bounded_sink new_buffer lb_write lb_buf lb_truncated lb_holds
  by (unfold_locales, simp add: lb_holds_def new_buffer_def, erule (1) lb_write_holds)
    (auto simp: lb_holds_def)

text \<open>
  What a process writes is handed over in non-empty chunks (\<^verbatim>\<open>io.Copy\<close> never passes on an empty
  one).
\<close>

definition capture :: "int \<Rightarrow> string list \<Rightarrow> limitedBuffer" where
  "capture limit writes = foldl lb_write (new_buffer limit) (filter (\<lambda>p. p \<noteq> []) writes)"

lemma capture_unlimited: "limit \<le> 0 \<Longrightarrow> capture limit ws = new_buffer limit"
proof -
  assume "limit \<le> 0"
  then have "foldl lb_write (new_buffer limit) ps = new_buffer limit" for ps
    by (induction ps) (simp_all add: lb_write_def new_buffer_def)
  then show ?thesis by (simp add: capture_def)
qed

lemma capture_content: "0 < limit \<Longrightarrow> lb_buf (capture limit ws) = take (nat limit) (concat ws)"
  unfolding capture_def by (rule captured.content_written)

lemma capture_truncated: "0 < limit \<Longrightarrow> lb_truncated (capture limit ws) \<longleftrightarrow> limit < int (length (concat ws))"
  unfolding capture_def by (rule captured.dropped_written)

lemma capture_bound: "int (length (lb_buf (capture limit ws))) \<le> max 0 limit"
  by (cases "0 < limit") (auto simp: capture_content capture_unlimited new_buffer_def)

lemma capture_complete:
  "0 < limit \<Longrightarrow> \<not> lb_truncated (capture limit ws) \<Longrightarrow> lb_buf (capture limit ws) = concat ws"
  by (simp add: capture_content capture_truncated)

subsection \<open>Environment and arguments\<close>

definition api_key_name :: string where
  "api_key_name = ''CURSOR_API_KEY''"

text \<open>\<^verbatim>\<open>strings.Cut(kv, "=")\<close>: the name, if there is a separator.\<close>

definition env_name :: "string \<Rightarrow> string option" where
  "env_name kv = (case index_of ''='' kv of None \<Rightarrow> None | Some i \<Rightarrow> Some (take i kv))"

definition env_kept :: "string list \<Rightarrow> string \<Rightarrow> bool" where
  "env_kept allow kv =
     (case env_name kv of
        None \<Rightarrow> False
      | Some name \<Rightarrow> List.member allow name \<and> \<not> equal_fold name api_key_name)"

definition filteredEnv :: "string list \<Rightarrow> string list \<Rightarrow> bool \<Rightarrow> string list" where
  "filteredEnv environ allow login =
     filter (env_kept allow) environ @
     (if login then [''NO_OPEN_BROWSER=1''] else []) @ [api_key_name @ ''='']"

definition workspaceArgPlaceholder :: string where
  "workspaceArgPlaceholder = ''{cliproxyapi-cursor-workspace}''"

definition expandWorkspaceArgs :: "string list \<Rightarrow> string \<Rightarrow> string list" where
  "expandWorkspaceArgs args workspace =
     map (\<lambda>arg. if arg = workspaceArgPlaceholder then workspace else arg) args"

definition cursorPromptArgs :: "string \<Rightarrow> string \<Rightarrow> bool \<Rightarrow> string \<Rightarrow> string list" where
  "cursorPromptArgs model format stream prompt =
     [''-p'', ''--trust'', ''--mode'', ''ask'', ''--sandbox'', ''disabled'', ''--workspace'',
      workspaceArgPlaceholder, ''--model'', model, ''--output-format'', format] @
     (if stream then [''--stream-partial-output''] else []) @ [prompt]"

text \<open>
  The markers are found without regard to case but replaced as they are spelled here.
\<close>

definition cursor_markers :: "string list" where
  "cursor_markers = [api_key_name, ''Authorization'', ''Bearer '', ''.cursor'', ''auth'']"

definition redactCursorError :: "string \<Rightarrow> string" where
  "redactCursorError text =
     foldl (\<lambda>t m. if contains (to_lower t) (to_lower m) then replace_all t m redacted else t)
       (redact_text text []) cursor_markers"

subsection \<open>What the operating system answers\<close>

text \<open>
  \<open>os_answers\<close> holds the answers during one call. An operation that can fail answers with the
  text of its error, if any. \<open>os_mkdir_temp\<close> answers with an error or the random part of the
  name; \<open>os_sem_wait\<close> is \<open>None\<close> when the call gets a slot of the semaphore, or the error of
  the context that ended first. \<open>os_end\<close> says how the process ended: by itself, with the error
  of \<^verbatim>\<open>cmd.Wait\<close> if any, or by the timeout, and then whether it exited within two seconds
  after the signal.
\<close>

datatype proc_end = Exited "string option" | TimedOut bool

record os_answers =
  os_environ :: "string list"
  os_home :: string
  os_mkdir_root :: "string option"
  os_chmod_root :: "string option"
  os_mkdir_temp :: "string + string"
  os_chmod_dir :: "string option"
  os_sem_wait :: "string option"
  os_stat :: "string \<Rightarrow> string option"
  os_look_path :: "string \<Rightarrow> string option"
  os_mkdir_managed :: "string option"
  os_start :: "string option"
  os_stdout :: "string list"
  os_stderr :: "string list"
  os_end :: proc_end

text \<open>The effects of a call outside the plugin. Only an operation that succeeds is an event.\<close>

datatype agent_event =
    MkdirAll string
  | MkdirTemp string
  | RemoveAll string
  | Acquire
  | Release
  | StartProcess string "string list" string "string list" "string option"
  | KillGroup

text \<open>\<open>deferred pre post r\<close>: after the effects \<open>pre\<close>, run \<open>r\<close>; the deferred \<open>post\<close> follows
  however \<open>r\<close> ends.\<close>

definition deferred ::
    "agent_event list \<Rightarrow> agent_event list \<Rightarrow> agent_event list \<times> 'a \<Rightarrow> agent_event list \<times> 'a" where
  "deferred pre post r = (pre @ fst r @ post, snd r)"

lemma deferred_sel [simp]:
  "fst (deferred pre post r) = pre @ fst r @ post" "snd (deferred pre post r) = snd r"
  by (simp_all add: deferred_def)

subsection \<open>Workspaces\<close>

definition ensureWorkspace :: "os_answers \<Rightarrow> string \<Rightarrow> agent_event list \<times> go_error option" where
  "ensureWorkspace os path =
     (if trim_space path = [] \<or> \<not> is_abs path
      then ([], Some (PlainErr ''workspace must be an absolute path''))
      else case os_mkdir_root os of
        Some e \<Rightarrow> ([], Some (WrapErr ''create Cursor workspace root'' (PlainErr e)))
      | None \<Rightarrow> ([MkdirAll path],
          map_option (\<lambda>e. WrapErr ''secure Cursor workspace permissions'' (PlainErr e))
            (os_chmod_root os)))"

text \<open>The name \<^verbatim>\<open>os.MkdirTemp(root, "invocation-*")\<close> makes.\<close>

definition temp_name :: "string \<Rightarrow> string \<Rightarrow> string \<Rightarrow> string" where
  "temp_name root pre rand =
     (if root \<noteq> [] \<and> last root = slash then root @ pre @ rand else root @ slash # pre @ rand)"

definition invocationWorkspace ::
    "os_answers \<Rightarrow> string \<Rightarrow> agent_event list \<times> (go_error, string) result" where
  "invocationWorkspace os root =
     (case ensureWorkspace os root of
        (ev, Some e) \<Rightarrow> (ev, Inl e)
      | (ev, None) \<Rightarrow>
          (case os_mkdir_temp os of
             Inl e \<Rightarrow>
               (ev, Inl (WrapErr ''create isolated Cursor invocation workspace'' (PlainErr e)))
           | Inr rand \<Rightarrow>
               (let dir = temp_name root ''invocation-'' rand
                in case os_chmod_dir os of
                     Some e \<Rightarrow>
                       (ev @ [MkdirTemp dir, RemoveAll dir],
                        Inl (WrapErr ''secure Cursor workspace permissions'' (PlainErr e)))
                   | None \<Rightarrow> (ev @ [MkdirTemp dir], Inr dir))))"

subsection \<open>The executable (\<open>managedRoot\<close> and \<open>resolveAgentExecutable\<close> in installer.go)\<close>

definition managedRoot :: "os_answers \<Rightarrow> config \<Rightarrow> agent_event list \<times> (go_error, string) result" where
  "managedRoot os cfg =
     (let root0 = trim_space (ManagedInstallRoot cfg);
          root = (if root0 = [] then os_home os else root0)
      in if root = [] \<or> \<not> is_abs root
         then ([], Inl (PlainErr ''writable persistent HOME or managed_install_root is required''))
         else case os_mkdir_managed os of
           Some e \<Rightarrow> ([], Inl (WrapErr ''managed root is not writable'' (PlainErr e)))
         | None \<Rightarrow> ([MkdirAll root], Inr root))"

definition not_found :: go_error where
  "not_found = PlainErr ''agent executable not found in PATH or managed install''"

definition resolveAgentExecutable ::
    "os_answers \<Rightarrow> config \<Rightarrow> agent_event list \<times> (go_error, string) result" where
  "resolveAgentExecutable os cfg =
     (let exe = ExecutablePath cfg
      in if contains exe [slash] \<or> is_abs exe
         then ([], case os_stat os exe of Some e \<Rightarrow> Inl (PlainErr e) | None \<Rightarrow> Inr exe)
         else case os_look_path os exe of
           Some p \<Rightarrow> ([], Inr p)
         | None \<Rightarrow>
             if exe = defaultAgentPath
             then (case managedRoot os cfg of
                     (ev, Inl e) \<Rightarrow> (ev, Inl not_found)
                   | (ev, Inr root) \<Rightarrow>
                       (let p = path_join [root, ''.local'', ''bin'', ''agent'']
                        in (ev, if os_stat os p = None then Inr p else Inl not_found)))
             else ([], Inl not_found))"

subsection \<open>\<open>runAgent\<close>\<close>

record agentResult =
  ar_Stdout :: string
  ar_Stderr :: string

definition no_output :: agentResult where
  "no_output = \<lparr>ar_Stdout = [], ar_Stderr = []\<rparr>"

type_synonym agent_outcome = "agentResult \<times> go_error option"

definition disabled_error :: go_error where
  "disabled_error = statusError ''plugin_disabled'' ''Cursor plugin is disabled'' 503"

definition setup_required_error :: go_error where
  "setup_required_error =
     statusError ''cursor_agent_setup_required''
       (''Cursor Agent CLI is not installed; open the Cursor setup page to install '' @
        ''the official CLI'') 428"

text \<open>The message of a failed run: standard error, else standard output, redacted.\<close>

definition failure_text :: "agentResult \<Rightarrow> string" where
  "failure_text res =
     (let msg = trim_space (redactCursorError (ar_Stderr res))
      in if msg = [] then trim_space (redactCursorError (ar_Stdout res)) else msg)"

text \<open>What follows a successful start of the process.\<close>

definition await_agent :: "os_answers \<Rightarrow> config \<Rightarrow> agent_event list \<times> agent_outcome" where
  "await_agent os cfg =
     (let out = capture (MaxStdoutBytes cfg) (os_stdout os);
          err = capture (MaxStderrBytes cfg) (os_stderr os);
          res = \<lparr>ar_Stdout = lb_buf out, ar_Stderr = lb_buf err\<rparr>
      in case os_end os of
           TimedOut exited \<Rightarrow>
             ([KillGroup], res,
              Some (statusError ''cursor_timeout''
                (if exited then ''Cursor agent CLI timed out''
                 else ''Cursor agent CLI timed out and process group did not exit promptly'') 504))
         | Exited waitErr \<Rightarrow>
             ([], res,
              if lb_truncated out then
                Some (statusError ''cursor_stdout_limit''
                  ''Cursor agent CLI stdout exceeded configured limit'' 502)
              else case waitErr of
                Some e \<Rightarrow>
                  (let msg = failure_text res
                   in Some (statusError ''cursor_agent_error''
                        (''Cursor agent CLI failed: '' @ (if msg = [] then e else msg)) 502))
              | None \<Rightarrow> None))"

text \<open>From the slot of the semaphore on, in the invocation's own directory \<open>dir\<close>.\<close>

definition run_in ::
    "os_answers \<Rightarrow> config \<Rightarrow> string list \<Rightarrow> string option \<Rightarrow> bool \<Rightarrow> string \<Rightarrow>
     agent_event list \<times> agent_outcome" where
  "run_in os cfg args stdin login dir =
     (let argv = expandWorkspaceArgs args dir
      in case resolveAgentExecutable os cfg of
           (ev, Inl e) \<Rightarrow> (ev, no_output, Some setup_required_error)
         | (ev, Inr exe) \<Rightarrow>
             (case os_start os of
                Some e \<Rightarrow> (ev, no_output, Some (WrapErr ''start Cursor agent CLI'' (PlainErr e)))
              | None \<Rightarrow>
                  deferred
                    (ev @ [StartProcess exe argv dir
                             (filteredEnv (os_environ os) (EnvironmentAllowlist cfg) login) stdin])
                    [] (await_agent os cfg)))"

definition runAgent ::
    "os_answers \<Rightarrow> config \<Rightarrow> string list \<Rightarrow> string option \<Rightarrow> bool \<Rightarrow>
     agent_event list \<times> agent_outcome" where
  "runAgent os cfg args stdin login =
     (if \<not> Enabled cfg then ([], no_output, Some disabled_error)
      else case invocationWorkspace os (Workspace cfg) of
        (ev, Inl e) \<Rightarrow> (ev, no_output, Some e)
      | (ev, Inr dir) \<Rightarrow>
          deferred ev [RemoveAll dir]
            (case os_sem_wait os of
               Some e \<Rightarrow> ([], no_output, Some (PlainErr e))
             | None \<Rightarrow> deferred [Acquire] [Release] (run_in os cfg args stdin login dir)))"

subsection \<open>Resources\<close>

text \<open>
  \<open>clean_trace dirs slots ev\<close>: starting with the directories \<open>dirs\<close> and \<open>slots\<close> held, the
  events \<open>ev\<close> use only what is held (a process runs in a held directory and with a slot) and
  give everything back.
\<close>

fun clean_trace :: "string set \<Rightarrow> nat \<Rightarrow> agent_event list \<Rightarrow> bool" where
  "clean_trace dirs slots [] = (dirs = {} \<and> slots = 0)"
| "clean_trace dirs slots (MkdirAll p # ev) = clean_trace dirs slots ev"
| "clean_trace dirs slots (MkdirTemp d # ev) = (d \<notin> dirs \<and> clean_trace (insert d dirs) slots ev)"
| "clean_trace dirs slots (RemoveAll d # ev) = (d \<in> dirs \<and> clean_trace (dirs - {d}) slots ev)"
| "clean_trace dirs slots (Acquire # ev) = clean_trace dirs (Suc slots) ev"
| "clean_trace dirs slots (Release # ev) = (0 < slots \<and> clean_trace dirs (slots - 1) ev)"
| "clean_trace dirs slots (StartProcess exe argv dir env stdin # ev) =
     (0 < slots \<and> dir \<in> dirs \<and> clean_trace dirs slots ev)"
| "clean_trace dirs slots (KillGroup # ev) = (0 < slots \<and> clean_trace dirs slots ev)"

lemma ensureWorkspace_events: "fst (ensureWorkspace os path) \<in> {[], [MkdirAll path]}"
  by (auto simp: ensureWorkspace_def split: option.splits)

lemma invocationWorkspace_Inr:
  assumes "invocationWorkspace os root = (ev, Inr dir)"
  obtains rand where "os_mkdir_temp os = Inr rand" "dir = temp_name root ''invocation-'' rand"
    "ev = [MkdirAll root, MkdirTemp dir]" "ensureWorkspace os root = ([MkdirAll root], None)"
  using assms
  by (auto simp: invocationWorkspace_def ensureWorkspace_def Let_def
      split: option.splits if_splits sum.splits)

lemma invocationWorkspace_Inl:
  assumes "invocationWorkspace os root = (ev, Inl e)"
  shows "ev \<in> {[], [MkdirAll root]} \<or>
    (\<exists>rand. let dir = temp_name root ''invocation-'' rand in ev = [MkdirAll root, MkdirTemp dir, RemoveAll dir])"
  using assms
  by (auto simp: invocationWorkspace_def ensureWorkspace_def Let_def
      split: option.splits if_splits sum.splits)

lemma resolve_events: "\<exists>ps. fst (resolveAgentExecutable os cfg) = map MkdirAll ps"
proof -
  have m: "\<forall>e \<in> set (fst (managedRoot os cfg)). \<exists>p. e = MkdirAll p"
    by (auto simp: managedRoot_def Let_def split: option.splits)
  have "\<forall>e \<in> set (fst (resolveAgentExecutable os cfg)). \<exists>p. e = MkdirAll p"
    using m by (auto simp: resolveAgentExecutable_def Let_def
        split: option.splits prod.splits sum.splits)
  then show ?thesis by (simp add: ex_map_conv)
qed

lemma await_events: "fst (await_agent os cfg) \<in> {[], [KillGroup]}"
  by (auto simp: await_agent_def Let_def split: proc_end.splits)

lemma clean_trace_MkdirAll [simp]:
  "clean_trace dirs slots (map MkdirAll ps @ ev) = clean_trace dirs slots ev"
  by (induction ps) auto

text \<open>The events of a run after it got a slot.\<close>

lemma run_in_events:
  obtains ps where "fst (run_in os cfg args stdin login dir) = map MkdirAll ps"
  | ps exe rest where "rest \<in> {[], [KillGroup]}"
      "fst (run_in os cfg args stdin login dir) =
         map MkdirAll ps @ StartProcess exe (expandWorkspaceArgs args dir) dir
           (filteredEnv (os_environ os) (EnvironmentAllowlist cfg) login) stdin # rest"
proof -
  obtain ps where ps: "fst (resolveAgentExecutable os cfg) = map MkdirAll ps"
    using resolve_events by blast
  then obtain r where r: "resolveAgentExecutable os cfg = (map MkdirAll ps, r)"
    by (cases "resolveAgentExecutable os cfg") auto
  show thesis
  proof (cases "\<exists>exe. r = Inr exe \<and> os_start os = None")
    case True
    then obtain exe where "r = Inr exe" "os_start os = None" by auto
    with r that(2) [OF await_events [of os cfg], of ps exe] show thesis
      by (simp add: run_in_def Let_def)
  next
    case False
    with r show thesis
      by (intro that(1) [of ps]) (auto simp: run_in_def Let_def split: sum.splits option.splits)
  qed
qed

lemma run_in_clean:
  "dir \<in> dirs \<Longrightarrow> 0 < slots \<Longrightarrow>
     clean_trace dirs slots (fst (run_in os cfg args stdin login dir) @ ev) = clean_trace dirs slots ev"
  by (rule run_in_events [of os cfg args stdin login dir]) auto

lemma runAgent_clean [keeps]: "clean_trace {} 0 (fst (runAgent os cfg args stdin login))"
proof (cases "invocationWorkspace os (Workspace cfg)")
  case (Pair ev r)
  show ?thesis
  proof (cases r)
    case (Inl e)
    with Pair have "clean_trace {} 0 ev"
      using invocationWorkspace_Inl [of os "Workspace cfg" ev e] by (auto simp: Let_def)
    with Pair Inl show ?thesis by (simp add: runAgent_def)
  next
    case (Inr dir)
    with Pair obtain rand where "ev = [MkdirAll (Workspace cfg), MkdirTemp dir]"
      by (auto elim: invocationWorkspace_Inr)
    with Pair Inr show ?thesis
      by (auto simp: runAgent_def run_in_clean split: option.splits)
  qed
qed

subsection \<open>The process that a run starts\<close>

lemma runAgent_start:
  assumes "StartProcess exe argv dir env stdin' \<in> set (fst (runAgent os cfg args stdin login))"
  obtains rand where "os_mkdir_temp os = Inr rand" "Enabled cfg" "stdin' = stdin"
    "dir = temp_name (Workspace cfg) ''invocation-'' rand" "argv = expandWorkspaceArgs args dir"
    "env = filteredEnv (os_environ os) (EnvironmentAllowlist cfg) login"
proof (cases "invocationWorkspace os (Workspace cfg)")
  case (Pair ev r)
  show thesis
  proof (cases r)
    case (Inl e)
    with Pair assms have False
      using invocationWorkspace_Inl [of os "Workspace cfg" ev e]
      by (auto simp: runAgent_def Let_def split: if_splits)
    then show thesis ..
  next
    case (Inr d)
    with Pair obtain rand where i: "os_mkdir_temp os = Inr rand"
      "d = temp_name (Workspace cfg) ''invocation-'' rand" "ev = [MkdirAll (Workspace cfg), MkdirTemp d]"
      by (auto elim: invocationWorkspace_Inr)
    have "StartProcess exe argv dir env stdin' \<in> set (fst (run_in os cfg args stdin login d)) \<and> Enabled cfg"
      using assms Pair Inr i by (auto simp: runAgent_def split: if_splits option.splits)
    with i show thesis
      by (cases rule: run_in_events [of os cfg args stdin login d]) (auto intro: that)
  qed
qed

subsection \<open>The outcome\<close>

text \<open>What every path returns as output: nothing, or what the two buffers hold.\<close>

lemma await_output:
  "fst (snd (await_agent os cfg)) =
     \<lparr>ar_Stdout = lb_buf (capture (MaxStdoutBytes cfg) (os_stdout os)),
      ar_Stderr = lb_buf (capture (MaxStderrBytes cfg) (os_stderr os))\<rparr>"
  by (auto simp: await_agent_def Let_def split: proc_end.splits)

lemma run_in_output:
  "fst (snd (run_in os cfg args stdin login dir)) = no_output \<or>
   snd (run_in os cfg args stdin login dir) = snd (await_agent os cfg)"
  by (auto simp: run_in_def Let_def split: prod.splits sum.splits option.splits)

lemma runAgent_outcome:
  "fst (snd (runAgent os cfg args stdin login)) = no_output \<or>
   snd (runAgent os cfg args stdin login) = snd (await_agent os cfg)"
  using run_in_output
  by (auto simp: runAgent_def split: prod.splits sum.splits option.splits)

lemma runAgent_bounded:
  assumes "res = fst (snd (runAgent os cfg args stdin login))"
  shows "int (length (ar_Stdout res)) \<le> max 0 (MaxStdoutBytes cfg) \<and>
    int (length (ar_Stderr res)) \<le> max 0 (MaxStderrBytes cfg)"
  using runAgent_outcome [of os cfg args stdin login] await_output [of os cfg]
  by (auto simp: assms no_output_def capture_bound)

lemma await_ok:
  "snd (await_agent os cfg) = (res, None) \<longleftrightarrow>
     os_end os = Exited None \<and> \<not> lb_truncated (capture (MaxStdoutBytes cfg) (os_stdout os)) \<and>
     res = \<lparr>ar_Stdout = lb_buf (capture (MaxStdoutBytes cfg) (os_stdout os)),
            ar_Stderr = lb_buf (capture (MaxStderrBytes cfg) (os_stderr os))\<rparr>"
  by (auto simp: await_agent_def Let_def split: proc_end.splits option.splits)

lemma run_in_ok:
  "snd (run_in os cfg args stdin login dir) = (res, None) \<longleftrightarrow>
     is_ok (snd (resolveAgentExecutable os cfg)) \<and> os_start os = None \<and>
     snd (await_agent os cfg) = (res, None)"
  by (auto simp: run_in_def Let_def setup_required_error_def is_ok_def
      split: prod.splits sum.splits option.splits)

lemma runAgent_ok:
  "snd (runAgent os cfg args stdin login) = (res, None) \<longleftrightarrow>
     Enabled cfg \<and> is_ok (snd (invocationWorkspace os (Workspace cfg))) \<and> os_sem_wait os = None \<and>
     is_ok (snd (resolveAgentExecutable os cfg)) \<and> os_start os = None \<and>
     snd (await_agent os cfg) = (res, None)"
  by (auto simp: runAgent_def run_in_ok disabled_error_def is_ok_def
      split: prod.splits sum.splits option.splits)

subsection \<open>The environment of the process\<close>

lemma env_name_simps [simp]:
  "env_name ''NO_OPEN_BROWSER=1'' = Some ''NO_OPEN_BROWSER''"
  "env_name (api_key_name @ ''='') = Some api_key_name"
  by (simp_all add: env_name_def api_key_name_def)

lemma no_browser_not_key: "\<not> equal_fold ''NO_OPEN_BROWSER'' api_key_name"
  by code_simp

lemma filteredEnv_last: "filteredEnv environ allow login = butlast (filteredEnv environ allow login) @ [api_key_name @ ''='']"
  by (simp add: filteredEnv_def butlast_append)

lemma filteredEnv_kept:
  assumes "kv \<in> set (butlast (filteredEnv environ allow login))"
  obtains name where "env_name kv = Some name" "\<not> equal_fold name api_key_name"
    "name \<in> set allow \<and> kv \<in> set environ \<or> login \<and> kv = ''NO_OPEN_BROWSER=1''"
proof -
  have "kv \<in> set (filter (env_kept allow) environ) \<or> login \<and> kv = ''NO_OPEN_BROWSER=1''"
    using assms by (auto simp: filteredEnv_def butlast_append split: if_splits)
  then show thesis
    using that no_browser_not_key
    by (auto simp: env_kept_def List.member_iff split: option.splits)
qed

lemma filteredEnv_complete:
  "kv \<in> set environ \<Longrightarrow> env_name kv = Some name \<Longrightarrow> name \<in> set allow \<Longrightarrow>
     \<not> equal_fold name api_key_name \<Longrightarrow> kv \<in> set (filteredEnv environ allow login)"
  by (simp add: filteredEnv_def env_kept_def List.member_iff)

subsection \<open>Properties of a run\<close>

text \<open>A sample configuration and run, at which the hypotheses below hold.\<close>

definition sample_os :: os_answers where
  "sample_os =
     \<lparr>os_environ = [''HOME=/home/u'', ''CURSOR_API_KEY=k'', ''SECRET=s''], os_home = ''/home/u'',
      os_mkdir_root = None, os_chmod_root = None, os_mkdir_temp = Inr ''42'', os_chmod_dir = None,
      os_sem_wait = None, os_stat = (\<lambda>_. None), os_look_path = (\<lambda>_. Some ''/bin/agent''),
      os_mkdir_managed = None, os_start = None, os_stdout = [''ab'', ''c''], os_stderr = [],
      os_end = Exited None\<rparr>"

definition sample_config :: config where
  "sample_config = default_config ''/tmp''"


text \<open>
  C35: A run that reports no error returns the complete standard output of a process that exited
  without error: output is never cut silently.
\<close>

theorem runAgent_complete_output:
  assumes "in_bounds cfg" and "runAgent os cfg args stdin login = (ev, res, None)"
  shows "ar_Stdout res = concat (os_stdout os) \<and>
    int (length (ar_Stdout res)) \<le> MaxStdoutBytes cfg \<and> os_end os = Exited None"
proof -
  have pos: "0 < MaxStdoutBytes cfg" using assms(1) by (simp add: in_bounds_def)
  have "snd (await_agent os cfg) = (res, None)"
    using assms(2) runAgent_ok [of os cfg args stdin login res] by simp
  then have e: "os_end os = Exited None"
    and t: "\<not> lb_truncated (capture (MaxStdoutBytes cfg) (os_stdout os))"
    and r: "ar_Stdout res = lb_buf (capture (MaxStdoutBytes cfg) (os_stdout os))"
    by (auto simp: await_ok)
  with capture_bound [of "MaxStdoutBytes cfg" "os_stdout os"] pos show ?thesis
    by (simp add: capture_complete [OF pos t])
qed

lemma sample_run:
  "snd (runAgent sample_os sample_config [''models''] None False) =
     (\<lparr>ar_Stdout = ''abc'', ar_Stderr = []\<rparr>, None)"
  by code_simp

lemma sample_in_bounds: "in_bounds sample_config"
  by code_simp

theorem runAgent_complete_output_witness:
  "ar_Stdout (fst (snd (runAgent sample_os sample_config [''models''] None False))) = ''abc''"
proof -
  obtain ev where "runAgent sample_os sample_config [''models''] None False =
      (ev, \<lparr>ar_Stdout = ''abc'', ar_Stderr = []\<rparr>, None)"
    using sample_run by (metis prod.collapse)
  with runAgent_complete_output [OF sample_in_bounds this] show ?thesis by simp
qed

text \<open>
  C12: The environment of a started agent ends with an empty \<^verbatim>\<open>CURSOR_API_KEY\<close>, and every
  entry before it is named otherwise (in any case) and is either an entry of the plugin's own
  environment whose name the configuration allows, or the browser switch of a login.
\<close>

theorem agent_environment_private:
  assumes "StartProcess exe argv dir env stdin' \<in> set (fst (runAgent os cfg args stdin login))"
  shows "last env = ''CURSOR_API_KEY='' \<and>
    (\<forall>kv \<in> set (butlast env). \<exists>name. env_name kv = Some name \<and>
       \<not> equal_fold name ''CURSOR_API_KEY'' \<and>
       (name \<in> set (EnvironmentAllowlist cfg) \<and> kv \<in> set (os_environ os) \<or>
        login \<and> kv = ''NO_OPEN_BROWSER=1''))"
proof -
  obtain rand where env: "env = filteredEnv (os_environ os) (EnvironmentAllowlist cfg) login"
    using assms by (rule runAgent_start)
  have "last env = ''CURSOR_API_KEY=''"
    by (simp add: env filteredEnv_def api_key_name_def)
  then show ?thesis
    by (auto simp: env api_key_name_def elim!: filteredEnv_kept)
qed

lemma sample_start:
  "fst (runAgent sample_os sample_config [''models''] None False) =
     [MkdirAll ''/tmp/cliproxyapi-cursor-workspaces'',
      MkdirTemp ''/tmp/cliproxyapi-cursor-workspaces/invocation-42'', Acquire,
      StartProcess ''/bin/agent'' [''models''] ''/tmp/cliproxyapi-cursor-workspaces/invocation-42''
        [''HOME=/home/u'', ''CURSOR_API_KEY=''] None, Release,
      RemoveAll ''/tmp/cliproxyapi-cursor-workspaces/invocation-42'']"
  by code_simp

theorem agent_environment_private_witness:
  "last [''HOME=/home/u'', ''CURSOR_API_KEY=''] = ''CURSOR_API_KEY''  @ ''=''"
  using agent_environment_private [of "''/bin/agent''" "[''models'']"
      "''/tmp/cliproxyapi-cursor-workspaces/invocation-42''" "[''HOME=/home/u'', ''CURSOR_API_KEY='']"
      None sample_os sample_config "[''models'']" None False]
  by (simp add: sample_start)

text \<open>
  C36: The agent that answers a prompt is started in ask mode in a fresh directory below the
  configured workspace, with that directory as its \<^verbatim>\<open>--workspace\<close> argument and the prompt,
  unchanged, as the last argument.
\<close>

theorem agent_prompt_arguments:
  assumes "StartProcess exe argv dir env stdin' \<in>
      set (fst (runAgent os cfg (cursorPromptArgs model format stream prompt) stdin login))"
    and "workspaceArgPlaceholder \<notin> {model, format, prompt}"
  shows "\<exists>rand. os_mkdir_temp os = Inr rand \<and> dir = temp_name (Workspace cfg) ''invocation-'' rand \<and>
    argv = [''-p'', ''--trust'', ''--mode'', ''ask'', ''--sandbox'', ''disabled'', ''--workspace'', dir,
            ''--model'', model, ''--output-format'', format] @
           (if stream then [''--stream-partial-output''] else []) @ [prompt]"
proof -
  obtain rand where "os_mkdir_temp os = Inr rand" "dir = temp_name (Workspace cfg) ''invocation-'' rand"
    "argv = expandWorkspaceArgs (cursorPromptArgs model format stream prompt) dir"
    using assms(1) by (rule runAgent_start)
  then show ?thesis
    using assms(2)
    by (auto simp: expandWorkspaceArgs_def cursorPromptArgs_def workspaceArgPlaceholder_def)
qed

lemma sample_prompt_start:
  "fst (runAgent sample_os sample_config (cursorPromptArgs ''auto'' ''json'' False ''hi'') None False) ! 3 =
     StartProcess ''/bin/agent''
       [''-p'', ''--trust'', ''--mode'', ''ask'', ''--sandbox'', ''disabled'', ''--workspace'',
        ''/tmp/cliproxyapi-cursor-workspaces/invocation-42'', ''--model'', ''auto'',
        ''--output-format'', ''json'', ''hi'']
       ''/tmp/cliproxyapi-cursor-workspaces/invocation-42'' [''HOME=/home/u'', ''CURSOR_API_KEY=''] None \<and>
   length (fst (runAgent sample_os sample_config (cursorPromptArgs ''auto'' ''json'' False ''hi'') None False)) = 6"
  by code_simp

theorem agent_prompt_arguments_witness:
  "\<exists>rand. os_mkdir_temp sample_os = Inr rand \<and>
     ''/tmp/cliproxyapi-cursor-workspaces/invocation-42'' =
       temp_name (Workspace sample_config) ''invocation-'' rand"
proof -
  have "fst (runAgent sample_os sample_config (cursorPromptArgs ''auto'' ''json'' False ''hi'') None False) ! 3
      \<in> set (fst (runAgent sample_os sample_config (cursorPromptArgs ''auto'' ''json'' False ''hi'') None False))"
    using sample_prompt_start by (intro nth_mem) simp
  then show ?thesis
    using agent_prompt_arguments [of _ _ _ _ _ sample_os sample_config "''auto''" "''json''" False "''hi''" None False]
      sample_prompt_start
    by (fastforce simp: workspaceArgPlaceholder_def)
qed

end
