(* ===== verification/Usage.thy ===== *)
theory Usage
  imports Errors "HOL-Library.Word" "HOL-Library.Product_Lexorder"
begin

section \<open>Usage counters (internal/provider/usage.go)\<close>

text \<open>
  The counters are 64-bit integers that wrap around. A time is a number of nanoseconds, 0 for
  the zero time of Go. \<open>recordUsage\<close> gets the time that \<^verbatim>\<open>s.now()\<close> would return; the
  map \<^verbatim>\<open>usageByModel\<close> is an association list in an order of iteration.
\<close>

type_synonym int64 = "64 word"

record usage_detail =
  ud_Input :: int64
  ud_Output :: int64
  ud_Reasoning :: int64
  ud_Cached :: int64
  ud_CacheRead :: int64
  ud_CacheCreation :: int64
  ud_Total :: int64

record usage_record =
  ur_Provider :: string
  ur_Model :: string
  ur_Alias :: string
  ur_RequestedAt :: int
  ur_Failed :: bool
  ur_Detail :: usage_detail

record usageAggregate =
  ua_Requests :: int64
  ua_Failures :: int64
  ua_Input :: int64
  ua_Output :: int64
  ua_Reasoning :: int64
  ua_Cached :: int64
  ua_CacheRead :: int64
  ua_CacheCreation :: int64
  ua_Total :: int64
  ua_LastUsed :: int

record usage_state =
  us_Started :: int
  us_ByModel :: "usageAggregate go_map"

definition providerID :: string where
  "providerID = ''cursor''"

definition new_aggregate :: usageAggregate where
  "new_aggregate =
     \<lparr>ua_Requests = 0, ua_Failures = 0, ua_Input = 0, ua_Output = 0, ua_Reasoning = 0,
      ua_Cached = 0, ua_CacheRead = 0, ua_CacheCreation = 0, ua_Total = 0, ua_LastUsed = 0\<rparr>"

definition no_usage :: usage_state where
  "no_usage = \<lparr>us_Started = 0, us_ByModel = []\<rparr>"

definition normalizedTotalTokens :: "usage_detail \<Rightarrow> int64" where
  "normalizedTotalTokens d =
     (if 0 <s ud_Total d then ud_Total d
      else let total = ud_Input d + ud_Output d + ud_Reasoning d
           in if 0 <s total then total else ud_CacheRead d + ud_CacheCreation d + ud_Cached d)"

definition accepted_model :: "usage_record \<Rightarrow> string option" where
  "accepted_model r =
     (if \<not> equal_fold (trim_space (ur_Provider r)) providerID then None
      else let model = trim_space (firstNonEmpty [ur_Model r, ur_Alias r])
           in if model = [] then None else Some model)"

definition used_at :: "int \<Rightarrow> usage_record \<Rightarrow> int" where
  "used_at now r = (if ur_RequestedAt r = 0 then now else ur_RequestedAt r)"

definition add_record :: "int \<Rightarrow> usage_record \<Rightarrow> usageAggregate \<Rightarrow> usageAggregate" where
  "add_record usedAt r e =
     (let d = ur_Detail r in
      e\<lparr>ua_Requests := ua_Requests e + 1,
        ua_Failures := (if ur_Failed r then ua_Failures e + 1 else ua_Failures e),
        ua_Input := ua_Input e + ud_Input d,
        ua_Output := ua_Output e + ud_Output d,
        ua_Reasoning := ua_Reasoning e + ud_Reasoning d,
        ua_Cached := ua_Cached e + ud_Cached d,
        ua_CacheRead := ua_CacheRead e + ud_CacheRead d,
        ua_CacheCreation := ua_CacheCreation e + ud_CacheCreation d,
        ua_Total := ua_Total e + normalizedTotalTokens d,
        ua_LastUsed := (if ua_LastUsed e = 0 \<or> ua_LastUsed e < usedAt then usedAt
                        else ua_LastUsed e)\<rparr>)"

definition recordUsage :: "int \<Rightarrow> usage_record \<Rightarrow> usage_state \<Rightarrow> usage_state" where
  "recordUsage now r us =
     (case accepted_model r of
        None \<Rightarrow> us
      | Some model \<Rightarrow>
          (let usedAt = used_at now r;
               started = (if us_Started us = 0 \<or> usedAt < us_Started us then usedAt
                          else us_Started us);
               entry = (case map_of (us_ByModel us) model of
                          None \<Rightarrow> new_aggregate
                        | Some e \<Rightarrow> e)
           in \<lparr>us_Started = started,
               us_ByModel = put_entry model (add_record usedAt r entry) (us_ByModel us)\<rparr>))"

text \<open>\<^verbatim>\<open>Shutdown\<close> clears the counters.\<close>

definition shutdownUsage :: "usage_state \<Rightarrow> usage_state" where
  "shutdownUsage us = us\<lparr>us_Started := 0, us_ByModel := []\<rparr>"

subsection \<open>Snapshots\<close>

record usage_row =
  row_Model :: string
  row_Usage :: usageAggregate

record usage_totals =
  ut_Requests :: int64
  ut_Failures :: int64
  ut_Input :: int64
  ut_Output :: int64
  ut_Reasoning :: int64
  ut_Cached :: int64
  ut_CacheRead :: int64
  ut_CacheCreation :: int64
  ut_Total :: int64

record usage_snapshot =
  snap_Since :: int
  snap_Totals :: usage_totals
  snap_Models :: "usage_row list"

definition no_totals :: usage_totals where
  "no_totals =
     \<lparr>ut_Requests = 0, ut_Failures = 0, ut_Input = 0, ut_Output = 0, ut_Reasoning = 0,
      ut_Cached = 0, ut_CacheRead = 0, ut_CacheCreation = 0, ut_Total = 0\<rparr>"

definition add_row :: "usage_totals \<Rightarrow> usage_row \<Rightarrow> usage_totals" where
  "add_row t row =
     (let e = row_Usage row in
      t\<lparr>ut_Requests := ut_Requests t + ua_Requests e,
        ut_Failures := ut_Failures t + ua_Failures e,
        ut_Input := ut_Input t + ua_Input e,
        ut_Output := ut_Output t + ua_Output e,
        ut_Reasoning := ut_Reasoning t + ua_Reasoning e,
        ut_Cached := ut_Cached t + ua_Cached e,
        ut_CacheRead := ut_CacheRead t + ua_CacheRead e,
        ut_CacheCreation := ut_CacheCreation t + ua_CacheCreation e,
        ut_Total := ut_Total t + ua_Total e\<rparr>)"

text \<open>
  The order of the rows: later use first, then the lower-case name. \<^verbatim>\<open>sort.Slice\<close> leaves the
  order of rows with equal keys open; here they keep the order of the iteration.
\<close>

datatype row_key = RowKey (rk_used: int) (rk_name: string)

instantiation row_key :: linorder
begin

definition less_eq_row_key :: "row_key \<Rightarrow> row_key \<Rightarrow> bool" where
  "less_eq_row_key a b =
     (rk_used b < rk_used a \<or> rk_used a = rk_used b \<and> rk_name a \<le> rk_name b)"

definition less_row_key :: "row_key \<Rightarrow> row_key \<Rightarrow> bool" where
  "less_row_key a b =
     (if rk_used a \<noteq> rk_used b then rk_used b < rk_used a else rk_name a < rk_name b)"

instance
  by standard
    (auto simp: less_eq_row_key_def less_row_key_def row_key.expand split: if_splits)

end

definition row_key_of :: "usage_row \<Rightarrow> row_key" where
  "row_key_of row = RowKey (ua_LastUsed (row_Usage row)) (to_lower (row_Model row))"

definition rows_of :: "usageAggregate go_map \<Rightarrow> usage_row list" where
  "rows_of m = map (\<lambda>(model, e). \<lparr>row_Model = model, row_Usage = e\<rparr>) m"

definition gatewayUsage :: "usage_state \<Rightarrow> usage_snapshot" where
  "gatewayUsage us =
     (let rows = rows_of (us_ByModel us)
      in \<lparr>snap_Since = us_Started us,
          snap_Totals = foldl add_row no_totals rows,
          snap_Models = sort_key row_key_of rows\<rparr>)"

subsection \<open>Counters\<close>

text \<open>The nine counters, to state once what holds of each.\<close>

datatype counter =
  Requests | Failures | Input | Output | Reasoning | Cached | CacheRead | CacheCreation | Total

fun agg_count :: "counter \<Rightarrow> usageAggregate \<Rightarrow> int64" where
  "agg_count Requests e = ua_Requests e"
| "agg_count Failures e = ua_Failures e"
| "agg_count Input e = ua_Input e"
| "agg_count Output e = ua_Output e"
| "agg_count Reasoning e = ua_Reasoning e"
| "agg_count Cached e = ua_Cached e"
| "agg_count CacheRead e = ua_CacheRead e"
| "agg_count CacheCreation e = ua_CacheCreation e"
| "agg_count Total e = ua_Total e"

fun total_count :: "counter \<Rightarrow> usage_totals \<Rightarrow> int64" where
  "total_count Requests t = ut_Requests t"
| "total_count Failures t = ut_Failures t"
| "total_count Input t = ut_Input t"
| "total_count Output t = ut_Output t"
| "total_count Reasoning t = ut_Reasoning t"
| "total_count Cached t = ut_Cached t"
| "total_count CacheRead t = ut_CacheRead t"
| "total_count CacheCreation t = ut_CacheCreation t"
| "total_count Total t = ut_Total t"

text \<open>What one record adds to a counter.\<close>

fun rec_count :: "counter \<Rightarrow> usage_record \<Rightarrow> int64" where
  "rec_count Requests r = 1"
| "rec_count Failures r = (if ur_Failed r then 1 else 0)"
| "rec_count Input r = ud_Input (ur_Detail r)"
| "rec_count Output r = ud_Output (ur_Detail r)"
| "rec_count Reasoning r = ud_Reasoning (ur_Detail r)"
| "rec_count Cached r = ud_Cached (ur_Detail r)"
| "rec_count CacheRead r = ud_CacheRead (ur_Detail r)"
| "rec_count CacheCreation r = ud_CacheCreation (ur_Detail r)"
| "rec_count Total r = normalizedTotalTokens (ur_Detail r)"

lemma agg_count_add_record [simp]:
  "agg_count c (add_record t r e) = agg_count c e + rec_count c r"
  by (cases c) (simp_all add: add_record_def Let_def)

lemma agg_count_new [simp]: "agg_count c new_aggregate = 0"
  by (cases c) (simp_all add: new_aggregate_def)

lemma total_count_none [simp]: "total_count c no_totals = 0"
  by (cases c) (simp_all add: no_totals_def)

lemma total_count_add_row [simp]:
  "total_count c (add_row t row) = total_count c t + agg_count c (row_Usage row)"
  by (cases c) (simp_all add: add_row_def Let_def)

lemma total_count_foldl:
  "total_count c (foldl add_row t rows) =
     total_count c t + sum_list (map (\<lambda>row. agg_count c (row_Usage row)) rows)"
  by (induction rows arbitrary: t) (simp_all add: add.assoc)

lemma totals_eq: "(\<And>c. total_count c t = total_count c u) \<Longrightarrow> t = u"
proof -
  assume a: "\<And>c. total_count c t = total_count c u"
  show ?thesis
    using a [of Requests] a [of Failures] a [of Input] a [of Output] a [of Reasoning]
      a [of Cached] a [of CacheRead] a [of CacheCreation] a [of Total]
    by (intro usage_totals.equality) simp_all
qed

lemma snapshot_total:
  "total_count c (snap_Totals (gatewayUsage us)) =
     sum_list (map (\<lambda>e. agg_count c (snd e)) (us_ByModel us))"
  by (simp add: gatewayUsage_def Let_def total_count_foldl rows_of_def comp_def case_prod_beta)

subsection \<open>Recording many records\<close>

text \<open>A history is a list of records with the time at which each was handled.\<close>

definition record_all :: "(int \<times> usage_record) list \<Rightarrow> usage_state \<Rightarrow> usage_state" where
  "record_all hist us = foldl (\<lambda>us (now, r). recordUsage now r us) us hist"

lemma record_all_simps [simp]:
  "record_all [] us = us"
  "record_all (hist @ [(now, r)]) us = recordUsage now r (record_all hist us)"
  by (simp_all add: record_all_def)

definition accepted :: "(int \<times> usage_record) list \<Rightarrow> (int \<times> usage_record) list" where
  "accepted hist = filter (\<lambda>(now, r). accepted_model r \<noteq> None) hist"

definition accepted_for :: "string \<Rightarrow> (int \<times> usage_record) list \<Rightarrow> (int \<times> usage_record) list" where
  "accepted_for model hist = filter (\<lambda>(now, r). accepted_model r = Some model) hist"

lemma record_distinct [keeps]:
  "distinct (map fst (us_ByModel us)) \<Longrightarrow> distinct (map fst (us_ByModel (recordUsage now r us)))"
  by (simp add: recordUsage_def Let_def put_entry_distinct split: option.splits)

lemma record_all_distinct [keeps]:
  "distinct (map fst (us_ByModel us)) \<Longrightarrow> distinct (map fst (us_ByModel (record_all hist us)))"
  by (induction hist rule: rev_induct) (auto simp: record_distinct)

lemma record_total:
  assumes "distinct (map fst (us_ByModel us))"
  shows "sum_list (map (\<lambda>e. agg_count c (snd e)) (us_ByModel (recordUsage now r us))) =
    sum_list (map (\<lambda>e. agg_count c (snd e)) (us_ByModel us)) +
    (if accepted_model r = None then 0 else rec_count c r)"
  by (simp add: recordUsage_def Let_def sum_put_entry [OF assms] split: option.splits)

lemma no_usage_distinct [simp]: "distinct (map fst (us_ByModel no_usage))"
  by (simp add: no_usage_def)

lemma record_model:
  "map_of (us_ByModel (recordUsage now r us)) model =
     (if accepted_model r = Some model then
        Some (add_record (used_at now r) r
          (case map_of (us_ByModel us) model of None \<Rightarrow> new_aggregate | Some e \<Rightarrow> e))
      else map_of (us_ByModel us) model)"
  by (auto simp: recordUsage_def Let_def split: option.splits)

text \<open>What the row of a model says of its records \<open>rs\<close>, and that one more record keeps it so.\<close>

definition row_counts :: "(int \<times> usage_record) list \<Rightarrow> usageAggregate option \<Rightarrow> bool" where
  "row_counts rs row =
     (case row of
        None \<Rightarrow> rs = []
      | Some e \<Rightarrow> rs \<noteq> [] \<and> (\<forall>c. agg_count c e = sum_list (map (\<lambda>(now, r). rec_count c r) rs)) \<and>
          ua_LastUsed e = Max (set (map (\<lambda>(now, r). used_at now r) rs)))"

lemma row_counts_snoc:
  assumes "row_counts rs row" "\<forall>(now, r) \<in> set rs. 0 < used_at now r" "0 < used_at now r"
  shows "row_counts (rs @ [(now, r)])
    (Some (add_record (used_at now r) r (case row of None \<Rightarrow> new_aggregate | Some e \<Rightarrow> e)))"
proof (cases row)
  case None
  with assms(1) show ?thesis
    by (simp add: row_counts_def) (simp add: add_record_def new_aggregate_def Let_def)
next
  case (Some e)
  with assms(1) have e: "rs \<noteq> []" "\<forall>c. agg_count c e = sum_list (map (\<lambda>(now, r). rec_count c r) rs)"
    "ua_LastUsed e = Max (set (map (\<lambda>(now, r). used_at now r) rs))" by (simp_all add: row_counts_def)
  have "Max (set (map (\<lambda>(now, r). used_at now r) (rs @ [(now, r)]))) = max (used_at now r) (ua_LastUsed e)"
    using e(1,3) by (simp add: Max_insert)
  moreover have "ua_LastUsed e \<in> set (map (\<lambda>(now, r). used_at now r) rs)"
    unfolding e(3) using e(1) by (intro Max_in) simp_all
  then have "0 < ua_LastUsed e" using assms(2) by auto
  moreover have "ua_LastUsed (add_record t r e) = (if ua_LastUsed e = 0 \<or> ua_LastUsed e < t then t else ua_LastUsed e)" for t
    by (simp add: add_record_def Let_def)
  ultimately show ?thesis using Some e(2) assms(3) by (simp add: row_counts_def)
qed

subsection \<open>Properties\<close>

text \<open>
  C15: After any sequence of usage records, each of the nine totals of the snapshot is the sum
  (modulo \<open>2 ^ 64\<close>) of what the records of this provider with a model name contributed; other
  records change nothing.
\<close>

theorem usage_totals_exact:
  "total_count c (snap_Totals (gatewayUsage (record_all hist no_usage))) =
     sum_list (map (\<lambda>(now, r). rec_count c r) (accepted hist))"
  unfolding snapshot_total
proof (induction hist rule: rev_induct)
  case Nil
  then show ?case by (simp add: no_usage_def accepted_def)
next
  case (snoc nr hist)
  obtain now r where "nr = (now, r)" by (cases nr)
  with snoc show ?case
    by (simp add: record_total record_all_distinct accepted_def)
qed

text \<open>
  C31: The row of a model counts exactly the records of that model, and its last use is the latest
  of their times; a model without records has no row. (All times are positive: the clock is
  past the year 1.)
\<close>

theorem usage_rows_exact:
  assumes "\<forall>(now, r) \<in> set hist. 0 < used_at now r"
  shows "case map_of (us_ByModel (record_all hist no_usage)) model of
      None \<Rightarrow> accepted_for model hist = []
    | Some e \<Rightarrow> accepted_for model hist \<noteq> [] \<and>
        (\<forall>c. agg_count c e = sum_list (map (\<lambda>(now, r). rec_count c r) (accepted_for model hist))) \<and>
        ua_LastUsed e = Max (set (map (\<lambda>(now, r). used_at now r) (accepted_for model hist)))"
proof -
  have "row_counts (accepted_for model hist) (map_of (us_ByModel (record_all hist no_usage)) model)"
    using assms
  proof (induction hist rule: rev_induct)
    case Nil
    then show ?case by (simp add: no_usage_def accepted_for_def row_counts_def)
  next
    case (snoc nr hist)
    obtain now r where nr: "nr = (now, r)" by (cases nr)
    with snoc.prems have "\<forall>(now, r) \<in> set (accepted_for model hist). 0 < used_at now r" "0 < used_at now r"
      by (auto simp: accepted_for_def)
    with snoc row_counts_snoc [of "accepted_for model hist"] nr show ?case
      by (simp add: record_model accepted_for_def)
  qed
  then show ?thesis by (simp add: row_counts_def)
qed

definition sample_record :: usage_record where
  "sample_record =
     \<lparr>ur_Provider = '' Cursor'', ur_Model = ''auto'', ur_Alias = [], ur_RequestedAt = 0,
      ur_Failed = True,
      ur_Detail = \<lparr>ud_Input = 11, ud_Output = 7, ud_Reasoning = 3, ud_Cached = 0, ud_CacheRead = 0,
                   ud_CacheCreation = 0, ud_Total = 0\<rparr>\<rparr>"

lemma sample_accepted: "accepted_model sample_record = Some ''auto''"
  by code_simp

theorem usage_rows_exact_witness:
  "\<exists>e. map_of (us_ByModel (record_all [(5, sample_record), (9, sample_record)] no_usage)) ''auto'' = Some e \<and>
     agg_count Input e = 22 \<and> ua_LastUsed e = 9"
proof -
  have a: "accepted_for ''auto'' [(5, sample_record), (9, sample_record)] =
      [(5, sample_record), (9, sample_record)]"
    by (simp add: accepted_for_def sample_accepted)
  have t: "used_at t sample_record = t" for t
    by (simp add: used_at_def sample_record_def)
  have i: "ud_Input (ur_Detail sample_record) = 11"
    by (simp add: sample_record_def)
  show ?thesis
    using usage_rows_exact [of "[(5, sample_record), (9, sample_record)]" "''auto''"]
    by (auto simp: a t split: option.splits dest!: spec [of _ Input]) (auto simp: i)
qed

text \<open>
  \<open>observed_since\<close> is the earliest time of a counted record, and the zero time when there is
  none.
\<close>

theorem usage_observed_since:
  assumes "\<forall>(now, r) \<in> set hist. 0 < used_at now r"
  shows "snap_Since (gatewayUsage (record_all hist no_usage)) =
    (if accepted hist = [] then 0
     else Min (set (map (\<lambda>(now, r). used_at now r) (accepted hist))))"
  using assms
proof (induction hist rule: rev_induct)
  case Nil
  then show ?case by (simp add: no_usage_def accepted_def gatewayUsage_def Let_def)
next
  case (snoc nr hist)
  obtain now r where nr: "nr = (now, r)" by (cases nr)
  let ?us = "record_all hist no_usage" and ?a = "accepted hist"
  have since: "snap_Since (gatewayUsage us) = us_Started us" for us
    by (simp add: gatewayUsage_def Let_def)
  show ?case
  proof (cases "accepted_model r")
    case None
    then have "accepted (hist @ [nr]) = ?a" by (simp add: accepted_def nr)
    with None snoc nr show ?thesis by (simp add: since recordUsage_def)
  next
    case (Some model)
    then have a: "accepted (hist @ [nr]) = ?a @ [(now, r)]" by (simp add: accepted_def nr)
    have s: "us_Started (recordUsage now r ?us) =
        (if us_Started ?us = 0 \<or> used_at now r < us_Started ?us then used_at now r else us_Started ?us)"
      using Some by (simp add: recordUsage_def Let_def)
    show ?thesis
    proof (cases "?a = []")
      case True
      with snoc a s nr show ?thesis by (simp add: since)
    next
      case False
      with snoc have m: "us_Started ?us = Min (set (map (\<lambda>(now, r). used_at now r) ?a))"
        by (simp add: since)
      then have "us_Started ?us \<in> set (map (\<lambda>(now, r). used_at now r) ?a)"
        using False by simp
      then have "0 < us_Started ?us" using snoc.prems by (auto simp: accepted_def)
      moreover have "Min (set (map (\<lambda>(now, r). used_at now r) (?a @ [(now, r)]))) =
          min (used_at now r) (us_Started ?us)"
        unfolding m using False by (simp add: Min_insert)
      ultimately show ?thesis using a s nr by (simp add: since)
    qed
  qed
qed

theorem usage_observed_since_witness:
  "snap_Since (gatewayUsage (record_all [(9, sample_record), (5, sample_record)] no_usage)) = 5"
proof -
  have a: "accepted [(9, sample_record), (5, sample_record)] = [(9, sample_record), (5, sample_record)]"
    by (simp add: accepted_def sample_accepted)
  have t: "used_at t sample_record = t" for t
    by (simp add: used_at_def sample_record_def)
  show ?thesis
    using usage_observed_since [of "[(9, sample_record), (5, sample_record)]"] by (simp add: a t)
qed



end
