(* ===== verification/Service.thy ===== *)
theory Service
  imports AgentRun Usage
begin

section \<open>The service and its surroundings (internal/provider/service.go)\<close>

text \<open>
  \<open>state\<close> is the \<^verbatim>\<open>Service\<close> value with what it talks to: the answers of the operating
  system to its calls (\<open>answers\<close>, consumed one by one), the clock (\<open>clock\<close>, one value per
  reading, in nanoseconds, 0 for the zero time) and the effects so far (\<open>trace\<close>). The
  semaphore has a theory of its own (Slots). Every operation of the plugin is a function from a
  state to its result and the next state.
\<close>

record cursorModel =
  ID :: string
  Name :: string

record loginSession =
  ls_startedAt :: int
  ls_expiresAt :: int
  ls_output :: string
  ls_approvalURL :: string
  ls_err :: string
  ls_done :: bool

record state =
  sv_config :: config
  sv_modelExpires :: int
  sv_modelsCache :: "cursorModel list"
  sv_logins :: "loginSession go_map"
  sv_usage :: usage_state
  answers :: "nat \<Rightarrow> os_answers"
  calls :: nat
  clock :: "nat \<Rightarrow> int"
  ticks :: nat
  trace :: "agent_event list"

definition seconds :: "int \<Rightarrow> int" where
  "seconds n = n * 1000000000"

text \<open>\<^verbatim>\<open>UnixNano\<close> and \<^verbatim>\<open>Unix\<close>: the Unix epoch is 62135596800 seconds after the zero time.\<close>

definition unix_nano :: "int \<Rightarrow> int" where
  "unix_nano t = t - seconds 62135596800"

definition unix_seconds :: "int \<Rightarrow> int" where
  "unix_seconds t = t div 1000000000 - 62135596800"

text \<open>Readings of the clock and answers of the operating system.\<close>

definition now :: "state \<Rightarrow> int \<times> state" where
  "now st = (clock st (ticks st), st\<lparr>ticks := ticks st + 1\<rparr>)"

definition ask :: "state \<Rightarrow> os_answers \<times> state" where
  "ask st = (answers st (calls st), st\<lparr>calls := calls st + 1\<rparr>)"

definition emit :: "agent_event list \<Rightarrow> state \<Rightarrow> state" where
  "emit ev st = st\<lparr>trace := trace st @ ev\<rparr>"

definition run_agent ::
    "config \<Rightarrow> string list \<Rightarrow> string option \<Rightarrow> bool \<Rightarrow> state \<Rightarrow> agent_outcome \<times> state" where
  "run_agent cfg args stdin login st =
     (let (os, st1) = ask st;
          (ev, out) = runAgent os cfg args stdin login
      in (out, emit ev st1))"

definition new_service ::
    "string \<Rightarrow> (nat \<Rightarrow> os_answers) \<Rightarrow> (nat \<Rightarrow> int) \<Rightarrow> state" where
  "new_service tmp ans clk =
     \<lparr>sv_config = default_config tmp, sv_modelExpires = 0, sv_modelsCache = [], sv_logins = [],
      sv_usage = no_usage, answers = ans, calls = 0, clock = clk, ticks = 0, trace = []\<rparr>"

definition configure ::
    "(string \<Rightarrow> config \<Rightarrow> string + config) \<Rightarrow> string \<Rightarrow> string \<Rightarrow> state \<Rightarrow> go_error option \<times> state" where
  "configure yaml tmp raw st =
     (case parse_config yaml tmp raw of
        Inl e \<Rightarrow> (Some e, st)
      | Inr cfg \<Rightarrow>
          (let st1 = st\<lparr>sv_config := cfg\<rparr>;
               st2 = st1\<lparr>sv_modelsCache := [], sv_modelExpires := 0\<rparr>
           in if Enabled cfg
              then (let (os, st3) = ask st2
                    in (None, emit (fst (ensureWorkspace os (Workspace cfg))) st3))
              else (None, st2)))"

definition shutdown :: "state \<Rightarrow> state" where
  "shutdown st =
     st\<lparr>sv_modelsCache := [], sv_modelExpires := 0, sv_logins := [],
       sv_usage := shutdownUsage (sv_usage st)\<rparr>"

text \<open>\<^verbatim>\<open>HandleUsage\<close>: the clock is read only for a counted record without a time.\<close>

definition handle_usage :: "usage_record \<Rightarrow> state \<Rightarrow> state" where
  "handle_usage r st =
     (if accepted_model r \<noteq> None \<and> ur_RequestedAt r = 0
      then (let (t, st1) = now st in st1\<lparr>sv_usage := recordUsage t r (sv_usage st1)\<rparr>)
      else st\<lparr>sv_usage := recordUsage 0 r (sv_usage st)\<rparr>)"

subsection \<open>What the helpers leave alone\<close>

text \<open>\<open>same_service st st'\<close>: only the surroundings changed.\<close>

definition same_service :: "state \<Rightarrow> state \<Rightarrow> bool" where
  "same_service st st' =
     (sv_config st' = sv_config st \<and> sv_modelExpires st' = sv_modelExpires st \<and>
      sv_modelsCache st' = sv_modelsCache st \<and> sv_logins st' = sv_logins st \<and>
      sv_usage st' = sv_usage st \<and> answers st' = answers st \<and> clock st' = clock st)"

lemma same_service_refl [simp]: "same_service st st"
  by (simp add: same_service_def)

lemma same_service_trans: "same_service a b \<Longrightarrow> same_service b c \<Longrightarrow> same_service a c"
  by (simp add: same_service_def)

lemma now_sel [simp]:
  "fst (now st) = clock st (ticks st)" "snd (now st) = st\<lparr>ticks := ticks st + 1\<rparr>"
  by (simp_all add: now_def)

lemma run_agent_eq:
  "run_agent cfg args stdin login st =
     (snd (runAgent (answers st (calls st)) cfg args stdin login),
      st\<lparr>calls := calls st + 1,
        trace := trace st @ fst (runAgent (answers st (calls st)) cfg args stdin login)\<rparr>)"
  by (simp add: run_agent_def ask_def emit_def split_beta)

lemma run_agent_same [simp]: "same_service st (snd (run_agent cfg args stdin login st))"
  by (simp add: run_agent_eq same_service_def)

lemma now_same [simp]: "same_service st (snd (now st))"
  by (simp add: same_service_def)

text \<open>
  What is started and taken is given back: the effects of any number of runs, one after the
  other, form a clean trace.
\<close>

lemma clean_trace_append:
  "clean_trace dirs slots ev \<Longrightarrow> clean_trace {} 0 ev' \<Longrightarrow> clean_trace dirs slots (ev @ ev')"
  by (induction dirs slots ev rule: clean_trace.induct) auto

lemma run_agent_clean [keeps]:
  "clean_trace {} 0 (trace st) \<Longrightarrow> clean_trace {} 0 (trace (snd (run_agent cfg args stdin login st)))"
  by (simp add: run_agent_eq clean_trace_append runAgent_clean)

lemma ensureWorkspace_clean: "clean_trace {} 0 (fst (ensureWorkspace os path))"
  using ensureWorkspace_events [of os path] by auto

lemma configure_clean [keeps]:
  "clean_trace {} 0 (trace st) \<Longrightarrow> clean_trace {} 0 (trace (snd (configure yaml tmp raw st)))"
  by (auto simp: configure_def ask_def emit_def Let_def clean_trace_append ensureWorkspace_clean
      split: sum.splits)

end
