(* ===== verification/Models.thy ===== *)
theory Models
  imports Service
begin

section \<open>The model catalogue (internal/provider/models.go)\<close>

text \<open>
  The output of \<^verbatim>\<open>agent models\<close> becomes a catalogue, filtered by the configuration and cached
  for a time; a request names a model of it. The invariant \<open>cache_ok\<close> says that the cache obeys the
  configuration in force.
\<close>

subsection \<open>Parsing the output of \<^verbatim>\<open>agent models\<close>\<close>

text \<open>The model that one line names, if any.\<close>

definition parse_model_line :: "string \<Rightarrow> cursorModel option" where
  "parse_model_line line0 =
     (let line = trim_space line0
      in if line = [] \<or> equal_fold line ''available models'' then None
         else case split_n2 '' - '' line of
           [p, q] \<Rightarrow>
             (let id = trim_space p; name = trim_space q
              in if id = [] \<or> contains_any id [CHR '' '', CHR 0x09, CHR ''/''] then None
                 else Some \<lparr>ID = id, Name = name\<rparr>)
         | _ \<Rightarrow> None)"

definition model_key :: "cursorModel \<Rightarrow> string" where
  "model_key m = to_lower (ID m)"

fun model_loop :: "string set \<Rightarrow> string list \<Rightarrow> cursorModel list" where
  "model_loop seen [] = []"
| "model_loop seen (line # lines) =
     (case parse_model_line line of
        None \<Rightarrow> model_loop seen lines
      | Some m \<Rightarrow>
          if model_key m \<in> seen then model_loop seen lines
          else m # model_loop (insert (model_key m) seen) lines)"

interpretation catalogue: first_wins parse_model_line model_key model_loop
  by unfold_locales simp_all

definition parseModelLines :: "string \<Rightarrow> cursorModel list" where
  "parseModelLines out = sort_key model_key (model_loop {} (split_on [CHR 0x0A] out))"

lemma set_parseModelLines:
  "m \<in> set (parseModelLines out) \<longleftrightarrow> catalogue.unshadowed {} (split_on [CHR 0x0A] out) m"
  by (simp add: parseModelLines_def catalogue.set_loop)

lemma parse_model_line_id:
  assumes "parse_model_line line = Some m"
  shows "ID m \<noteq> [] \<and> trim_space (ID m) = ID m \<and> CHR '' '' \<notin> set (ID m) \<and> CHR ''/'' \<notin> set (ID m)"
proof -
  obtain p where p: "ID m = trim_space p" "ID m \<noteq> []"
    "\<not> contains_any (ID m) [CHR '' '', CHR 0x09, CHR ''/'']"
  proof (cases "split_n2 '' - '' (trim_space line)")
    case (Cons p ps)
    then show thesis
      using assms that [of p]
      by (cases ps; cases "tl ps") (simp_all add: parse_model_line_def Let_def split: if_splits, auto)
  qed (use assms in \<open>simp add: parse_model_line_def Let_def split: if_splits\<close>)
  then show ?thesis by (auto simp: contains_any_iff)
qed

lemma parse_distinct: "distinct (map model_key (parseModelLines out))"
proof -
  have "mset (map model_key (parseModelLines out)) =
      mset (map model_key (model_loop {} (split_on [CHR 0x0A] out)))"
    by (simp add: parseModelLines_def)
  then show ?thesis
    by (simp add: mset_eq_imp_distinct_iff catalogue.distinct_keys del: mset_map)
qed

subsection \<open>The configured selection\<close>

definition list_keys :: "config \<Rightarrow> string list \<Rightarrow> string list" where
  "list_keys cfg ms = map (\<lambda>m. to_lower (trim_prefix m (ModelPrefix cfg))) ms"

definition filterCursorModels :: "cursorModel list \<Rightarrow> config \<Rightarrow> cursorModel list" where
  "filterCursorModels models cfg =
     (let allowed = list_keys cfg (AllowedModels cfg);
          denied = list_keys cfg (DeniedModels cfg)
      in filter (\<lambda>model.
           let idLower = to_lower (ID model)
           in (allowed = [] \<or> List.member allowed idLower) \<and>
              \<not> List.member denied idLower \<and>
              \<not> list_ex (\<lambda>p. prefix (to_lower p) idLower) (ExcludedModelPrefixes cfg)) models)"

text \<open>A model that the configuration lets through.\<close>

definition permitted :: "config \<Rightarrow> cursorModel \<Rightarrow> bool" where
  "permitted cfg m =
     ((AllowedModels cfg = [] \<or>
         (\<exists>a \<in> set (AllowedModels cfg). model_key m = to_lower (trim_prefix a (ModelPrefix cfg)))) \<and>
      (\<forall>d \<in> set (DeniedModels cfg). model_key m \<noteq> to_lower (trim_prefix d (ModelPrefix cfg))) \<and>
      (\<forall>p \<in> set (ExcludedModelPrefixes cfg). \<not> prefix (to_lower p) (model_key m)))"

lemma filterCursorModels_eq: "filterCursorModels models cfg = filter (permitted cfg) models"
  unfolding filterCursorModels_def Let_def permitted_def model_key_def list_keys_def
  by (intro filter_cong refl) (auto simp: list_ex_iff image_iff)

subsection \<open>Descriptions for the host\<close>

text \<open>\<open>pluginapi.ModelInfo\<close>; \<open>Created\<close> is the time of the clock, in seconds, at each model.\<close>

record model_info =
  mi_ID :: string
  mi_Object :: string
  mi_OwnedBy :: string
  mi_Type :: string
  mi_DisplayName :: string
  mi_Name :: string
  mi_Description :: string
  mi_Methods :: "string list"
  mi_Parameters :: "string list"
  mi_Input :: "string list"
  mi_Output :: "string list"
  mi_Created :: int

definition model_description :: string where
  "model_description =
     ''Experimental Cursor Agent CLI-backed model; runs through official agent CLI in ask mode '' @
     ''with sandbox disabled in a fresh private workspace''"

definition modelInfo :: "string \<Rightarrow> int \<Rightarrow> cursorModel \<Rightarrow> model_info" where
  "modelInfo pre created m =
     \<lparr>mi_ID = pre @ ID m, mi_Object = ''model'', mi_OwnedBy = ''cursor'', mi_Type = ''chat'',
      mi_DisplayName = (if Name m = [] then ID m else Name m), mi_Name = ID m,
      mi_Description = model_description,
      mi_Methods = [''openai-response'', ''openai-chat'', ''claude''],
      mi_Parameters = [''stream''], mi_Input = [''TEXT''], mi_Output = [''TEXT''],
      mi_Created = created\<rparr>"

fun modelInfos :: "cursorModel list \<Rightarrow> string \<Rightarrow> state \<Rightarrow> model_info list \<times> state" where
  "modelInfos [] pre st = ([], st)"
| "modelInfos (m # ms) pre st =
     (let (t, st1) = now st;
          (infos, st2) = modelInfos ms pre st1
      in (modelInfo pre (unix_seconds t) m # infos, st2))"

definition defaultCursorModels :: "cursorModel list" where
  "defaultCursorModels = [\<lparr>ID = ''auto'', Name = ''Cursor Auto''\<rparr>]"

subsection \<open>Discovery\<close>

text \<open>
  \<open>discoverModels\<close> takes its configuration first and stores the catalogue last; the two halves
  are definitions of their own, because other calls can come between them. \<open>discover_begin\<close>
  looks at the cache; \<open>discover_end\<close> handles the output of the agent.
\<close>

definition models_empty_error :: go_error where
  "models_empty_error =
     statusError ''models_empty'' ''Cursor agent models returned no usable models'' 502"

definition discover_begin ::
    "state \<Rightarrow> ((go_error, cursorModel list) result + config \<times> int) \<times> state" where
  "discover_begin st =
     (let cfg = sv_config st
      in if \<not> Enabled cfg then (Inl (Inl disabled_error), st)
         else let (t, st1) = now st
              in if ModelCacheTTLSeconds cfg > 0 \<and> sv_modelsCache st1 \<noteq> [] \<and> sv_modelExpires st1 > t
                 then (Inl (Inr (sv_modelsCache st1)), st1)
                 else (Inr (cfg, t), st1))"

definition discover_end ::
    "config \<Rightarrow> int \<Rightarrow> agent_outcome \<Rightarrow> state \<Rightarrow> (go_error, cursorModel list) result \<times> state" where
  "discover_end cfg t out st =
     (case out of
        (res, Some e) \<Rightarrow> (Inl (WrapErr ''discover Cursor models'' e), st)
      | (res, None) \<Rightarrow>
          (let models = filterCursorModels (parseModelLines (ar_Stdout res)) cfg
           in if models = [] then (Inl models_empty_error, st)
              else (Inr models,
                st\<lparr>sv_modelsCache := models, sv_modelExpires := t + modelCacheTTL cfg\<rparr>)))"

definition discoverModels :: "state \<Rightarrow> (go_error, cursorModel list) result \<times> state" where
  "discoverModels st =
     (case discover_begin st of
        (Inl r, st1) \<Rightarrow> (r, st1)
      | (Inr (cfg, t), st1) \<Rightarrow>
          (let (out, st2) = run_agent cfg [''models''] None False st1
           in discover_end cfg t out st2))"

definition staticModels :: "state \<Rightarrow> model_info list \<times> state" where
  "staticModels st = modelInfos defaultCursorModels (ModelPrefix (sv_config st)) st"

definition modelsForAuth :: "state \<Rightarrow> model_info list \<times> state" where
  "modelsForAuth st =
     (let (r, st1) = discoverModels st;
          models = (case r of Inl e \<Rightarrow> defaultCursorModels | Inr ms \<Rightarrow> ms)
      in modelInfos models (ModelPrefix (sv_config st1)) st1)"

definition model_not_found_error :: go_error where
  "model_not_found_error =
     statusError ''model_not_found''
       ''Cursor model is not present in `agent models` catalog'' 404"

definition model_required_error :: go_error where
  "model_required_error = statusError ''invalid_request'' ''model is required'' 400"

definition resolveModel :: "string \<Rightarrow> state \<Rightarrow> (go_error, string) result \<times> state" where
  "resolveModel requested st =
     (let model = trim_space (trim_prefix requested (ModelPrefix (sv_config st)))
      in if model = [] then (Inl model_required_error, st)
         else case discoverModels st of
           (Inl e, st1) \<Rightarrow> (Inl e, st1)
         | (Inr models, st1) \<Rightarrow>
             (case find (\<lambda>m. equal_fold (ID m) model) models of
                Some m \<Rightarrow> (Inr (ID m), st1)
              | None \<Rightarrow> (Inl model_not_found_error, st1)))"

subsection \<open>The cached catalogue obeys the configuration\<close>

definition usable :: "config \<Rightarrow> cursorModel \<Rightarrow> bool" where
  "usable cfg m =
     (permitted cfg m \<and> ID m \<noteq> [] \<and> trim_space (ID m) = ID m \<and>
      CHR '' '' \<notin> set (ID m) \<and> CHR ''/'' \<notin> set (ID m))"

definition cache_ok :: "state \<Rightarrow> bool" where
  "cache_ok st =
     (list_all (usable (sv_config st)) (sv_modelsCache st) \<and>
      sorted (map model_key (sv_modelsCache st)) \<and> distinct (map model_key (sv_modelsCache st)))"

lemma parse_usable:
  assumes "m \<in> set (filterCursorModels (parseModelLines out) cfg)"
  shows "usable cfg m"
proof -
  have "catalogue.unshadowed {} (split_on [CHR 0x0A] out) m" and p: "permitted cfg m"
    using assms by (simp_all add: filterCursorModels_eq set_parseModelLines)
  then obtain l where "parse_model_line l = Some m" by (auto simp: catalogue.unshadowed_def)
  with p parse_model_line_id show ?thesis by (simp add: usable_def)
qed

lemma filter_parse_sorted:
  "sorted (map model_key (filterCursorModels (parseModelLines out) cfg)) \<and>
   distinct (map model_key (filterCursorModels (parseModelLines out) cfg))"
  using parse_distinct [of out]
  by (auto simp: filterCursorModels_eq parseModelLines_def sorted_filter distinct_map_filter)

lemma cache_ok_cong:
  "sv_config st' = sv_config st \<Longrightarrow> sv_modelsCache st' = sv_modelsCache st \<Longrightarrow> cache_ok st' = cache_ok st"
  by (simp add: cache_ok_def)

lemma cache_ok_same: "same_service st st' \<Longrightarrow> cache_ok st' = cache_ok st"
  by (rule cache_ok_cong) (simp_all add: same_service_def)

lemma new_service_cache [keeps]: "cache_ok (new_service tmp ans clk)"
  by (simp add: cache_ok_def new_service_def)

lemma configure_cache [keeps]: "cache_ok st \<Longrightarrow> cache_ok (snd (configure yaml tmp raw st))"
  by (auto simp: configure_def cache_ok_def ask_def emit_def Let_def split: sum.splits)

lemma shutdown_cache [keeps]: "cache_ok (shutdown st)"
  by (simp add: cache_ok_def shutdown_def)

lemma handle_usage_cache [keeps]: "cache_ok st \<Longrightarrow> cache_ok (handle_usage r st)"
  by (simp add: cache_ok_def handle_usage_def now_def Let_def)

lemma discover_end_eq:
  assumes "discover_end cfg t out st = (r, st')"
  obtains e where "r = Inl e" "st' = st"
  | models where "r = Inr models" "models \<noteq> []" "snd out = None"
      "models = filterCursorModels (parseModelLines (ar_Stdout (fst out))) cfg"
      "st' = st\<lparr>sv_modelsCache := models, sv_modelExpires := t + modelCacheTTL cfg\<rparr>"
  using assms by (cases out) (auto simp: discover_end_def Let_def split: option.splits if_splits)

lemma discover_cases:
  assumes "discoverModels st = (r, st')"
  obtains (same) e where "r = Inl e" "same_service st st'"
  | (cached) "r = Inr (sv_modelsCache st)" "same_service st st'" "trace st' = trace st"
      "clock st (ticks st) < sv_modelExpires st" "0 < ModelCacheTTLSeconds (sv_config st)"
  | (fresh) out where "r = Inr (sv_modelsCache st')" "sv_modelsCache st' \<noteq> []"
      "sv_modelsCache st' = filterCursorModels (parseModelLines out) (sv_config st)"
      "sv_config st' = sv_config st"
      "sv_modelExpires st' = clock st (ticks st) + modelCacheTTL (sv_config st)"
      "sv_logins st' = sv_logins st" "sv_usage st' = sv_usage st"
proof (cases "discover_begin st")
  case (Pair b st1)
  then have s1: "same_service st st1" "trace st1 = trace st"
    by (auto simp: discover_begin_def Let_def now_def same_service_def split: if_splits)
  show thesis
  proof (cases b)
    case (Inl r')
    with Pair assms have r: "r = r'" "st' = st1" by (simp_all add: discoverModels_def)
    show thesis
    proof (cases r')
      case (Inl e)
      with r s1 that(1) show thesis by simp
    next
      case (Inr ms)
      with Pair \<open>b = Inl r'\<close> have "ms = sv_modelsCache st" "clock st (ticks st) < sv_modelExpires st"
        "0 < ModelCacheTTLSeconds (sv_config st)"
        by (auto simp: discover_begin_def Let_def now_def split: if_splits)
      with r s1 Inr that(2) show thesis by simp
    qed
  next
    case (Inr ct)
    then obtain cfg t where b: "b = Inr (cfg, t)" by (cases ct) auto
    with Pair have c: "cfg = sv_config st" "t = clock st (ticks st)"
      by (auto simp: discover_begin_def Let_def now_def split: if_splits)
    define ro where "ro = run_agent cfg [''models''] None False st1"
    have s2: "same_service st (snd ro)"
      using same_service_trans [OF s1(1) run_agent_same] by (simp add: ro_def)
    have "discover_end cfg t (fst ro) (snd ro) = (r, st')"
      using assms Pair b by (simp add: discoverModels_def ro_def split_beta)
    then show thesis
    proof (cases rule: discover_end_eq)
      case (1 e)
      with s2 that(1) show thesis by simp
    next
      case (2 models)
      with s2 c show thesis by (intro that(3)) (simp_all add: same_service_def)
    qed
  qed
qed

lemma discover_keeps [keeps]:
  assumes "cache_ok st" "discoverModels st = (r, st')"
  shows "cache_ok st' \<and> sv_config st' = sv_config st"
  using assms(2)
proof (cases rule: discover_cases)
  case (same e)
  then show ?thesis using assms(1) cache_ok_same [of st st'] by (simp add: same_service_def)
next
  case cached
  then show ?thesis using assms(1) cache_ok_same [of st st'] by (simp add: same_service_def)
next
  case (fresh out)
  then show ?thesis
    using filter_parse_sorted [of out "sv_config st"] parse_usable [of _ out "sv_config st"]
    by (simp add: cache_ok_def list_all_iff)
qed

lemma discover_usable:
  assumes "cache_ok st" "discoverModels st = (Inr models, st')"
  shows "models = sv_modelsCache st'"
  using assms(2) by (cases rule: discover_cases) (simp_all add: same_service_def)

lemma discover_clean [keeps]:
  assumes "clean_trace {} 0 (trace st)"
  shows "clean_trace {} 0 (trace (snd (discoverModels st)))"
proof (cases "discover_begin st")
  case (Pair b st1)
  then have "trace st1 = trace st"
    by (auto simp: discover_begin_def Let_def now_def split: if_splits)
  with assms have "clean_trace {} 0 (trace (snd (run_agent cfg [''models''] None False st1)))" for cfg
    by (simp add: run_agent_clean)
  moreover have "trace (snd (discover_end cfg t out st2)) = trace st2" for cfg t out st2
    by (cases out) (auto simp: discover_end_def Let_def split: option.splits)
  ultimately show ?thesis
    using Pair assms \<open>trace st1 = trace st\<close>
    by (auto simp: discoverModels_def split_beta split: sum.splits)
qed

lemma resolve_cases:
  assumes "resolveModel req st = (r, st')"
  obtains e where "r = Inl e" "st' = st"
  | r' where "discoverModels st = (r', st')" "\<And>id. r = Inr id \<Longrightarrow> \<exists>models m. r' = Inr models \<and>
      m \<in> set models \<and> ID m = id \<and>
      equal_fold id (trim_space (trim_prefix req (ModelPrefix (sv_config st))))"
proof (cases "trim_space (trim_prefix req (ModelPrefix (sv_config st))) = []")
  case True
  with assms that(1) show thesis by (auto simp: resolveModel_def)
next
  case False
  obtain r' st1 where d: "discoverModels st = (r', st1)" by fastforce
  with False assms have "st' = st1"
    by (auto simp: resolveModel_def Let_def split: sum.splits option.splits)
  moreover have "\<exists>models m. r' = Inr models \<and> m \<in> set models \<and> ID m = id \<and>
      equal_fold id (trim_space (trim_prefix req (ModelPrefix (sv_config st))))" if rid: "r = Inr id" for id
  proof -
    obtain models where "r' = Inr models"
      using rid False assms d by (cases r') (auto simp: resolveModel_def Let_def)
    moreover from this obtain m where
      "find (\<lambda>m. equal_fold (ID m) (trim_space (trim_prefix req (ModelPrefix (sv_config st))))) models = Some m"
      "ID m = id"
      using rid False assms d by (auto simp: resolveModel_def Let_def split: option.splits)
    ultimately show ?thesis by (auto simp: find_Some_iff intro!: exI [of _ m])
  qed
  ultimately show thesis using d that(2) by blast
qed

lemma resolve_keeps [keeps]:
  "cache_ok st \<Longrightarrow> resolveModel req st = (r, st') \<Longrightarrow> cache_ok st' \<and> sv_config st' = sv_config st"
  by (erule resolve_cases) (auto dest: discover_keeps)

lemma resolve_clean [keeps]:
  "clean_trace {} 0 (trace st) \<Longrightarrow> resolveModel req st = (r, st') \<Longrightarrow> clean_trace {} 0 (trace st')"
  by (erule resolve_cases) (auto dest: discover_clean)

lemma resolve_usable:
  assumes "cache_ok st" and "resolveModel req st = (Inr mid, st')"
  shows "equal_fold mid (trim_space (trim_prefix req (ModelPrefix (sv_config st)))) \<and>
    (\<exists>name. usable (sv_config st) \<lparr>ID = mid, Name = name\<rparr>) \<and> cache_ok st'"
  using assms(2)
proof (cases rule: resolve_cases)
  case (2 r')
  then obtain models m where m: "r' = Inr models" "m \<in> set models" "ID m = mid"
    "equal_fold mid (trim_space (trim_prefix req (ModelPrefix (sv_config st))))" by blast
  with 2 assms(1) have c: "cache_ok st'" "sv_config st' = sv_config st" "models = sv_modelsCache st'"
    using discover_keeps discover_usable by blast+
  with m have "usable (sv_config st) m" by (auto simp: cache_ok_def list_all_iff)
  then have "usable (sv_config st) \<lparr>ID = mid, Name = Name m\<rparr>" using m(3) by (cases m) auto
  with c m(4) show ?thesis by blast
qed simp

lemma discover_same_answers: "answers (snd (discoverModels st)) = answers st"
proof (cases "discover_begin st")
  case (Pair b st1)
  then have "answers st1 = answers st"
    by (auto simp: discover_begin_def Let_def now_def split: if_splits)
  moreover have "answers (snd (discover_end cfg t out st2)) = answers st2" for cfg t out st2
    by (cases out) (auto simp: discover_end_def Let_def split: option.splits)
  ultimately show ?thesis
    using Pair by (auto simp: discoverModels_def split_beta run_agent_eq split: sum.splits)
qed

lemma resolve_same_answers: "answers (snd (resolveModel req st)) = answers st"
  using discover_same_answers [of st]
  by (auto simp: resolveModel_def Let_def split: prod.splits sum.splits option.splits)

lemma modelInfos_eq:
  "map mi_Name (fst (modelInfos ms pre st)) = map ID ms \<and>
   map mi_ID (fst (modelInfos ms pre st)) = map (\<lambda>m. pre @ ID m) ms \<and>
   same_service st (snd (modelInfos ms pre st)) \<and> trace (snd (modelInfos ms pre st)) = trace st"
proof (induction ms arbitrary: st)
  case (Cons m ms)
  have "same_service st (st\<lparr>ticks := ticks st + 1\<rparr>)" by (simp add: same_service_def)
  with Cons [of "st\<lparr>ticks := ticks st + 1\<rparr>"] show ?case
    by (auto simp: now_def modelInfo_def split_beta dest: same_service_trans)
qed simp

subsection \<open>Properties\<close>

text \<open>
  C32: The parsed catalogue is sorted by lower-case identifier without repetitions up to case, and
  contains exactly the models whose line parses and whose identifier, up to case, no earlier
  line has.
\<close>

theorem parseModelLines_catalogue:
  "sorted (map model_key (parseModelLines out)) \<and> distinct (map model_key (parseModelLines out)) \<and>
   (m \<in> set (parseModelLines out) \<longleftrightarrow>
      (\<exists>ps l rs. split_on [CHR 0x0A] out = ps @ l # rs \<and> parse_model_line l = Some m \<and>
         (\<forall>p \<in> set ps. \<forall>m'. parse_model_line p = Some m' \<longrightarrow> model_key m' \<noteq> model_key m)))"
  using parse_distinct [of out]
  by (auto simp: set_parseModelLines catalogue.unshadowed_def)
    (simp_all add: parseModelLines_def)

theorem parseModelLines_catalogue_witness:
  "sorted (map model_key (parseModelLines ''b - B'')) \<and> parseModelLines ''b - B'' = [\<lparr>ID = ''b'', Name = ''B''\<rparr>]"
proof
  show "sorted (map model_key (parseModelLines ''b - B''))"
    using parseModelLines_catalogue [of "''b - B''"] by simp
  have "model_loop {} (split_on [CHR 0x0A] ''b - B'') = [\<lparr>ID = ''b'', Name = ''B''\<rparr>]" by code_simp
  then show "parseModelLines ''b - B'' = [\<lparr>ID = ''b'', Name = ''B''\<rparr>]"
    by (simp add: parseModelLines_def)
qed


definition models_os :: os_answers where
  "models_os = sample_os\<lparr>os_stdout := [''auto - Auto'', [CHR 0x0A] @ ''gpt - Gpt'']\<rparr>"

definition models_state :: state where
  "models_state = new_service ''/tmp'' (\<lambda>_. models_os) (\<lambda>n. seconds (1000 + int n))"

lemma models_resolve: "fst (resolveModel ''Auto'' models_state) = Inr ''auto''"
  by code_simp


text \<open>
  C33: While the catalogue is cached and the cache time lasts, discovery answers from the cache
  without starting a process; otherwise a success replaces the cache and its end by the new
  catalogue and the time of the call plus the configured lifetime, and a failure leaves both.
\<close>

theorem discoverModels_cache:
  assumes "Enabled (sv_config st)" and "discoverModels st = (r, st')"
  shows "if 0 < ModelCacheTTLSeconds (sv_config st) \<and> sv_modelsCache st \<noteq> [] \<and>
            clock st (ticks st) < sv_modelExpires st
    then r = Inr (sv_modelsCache st) \<and> calls st' = calls st \<and> trace st' = trace st
    else calls st' = calls st + 1 \<and>
      (case r of
         Inl e \<Rightarrow> sv_modelsCache st' = sv_modelsCache st \<and> sv_modelExpires st' = sv_modelExpires st
       | Inr ms \<Rightarrow> ms \<noteq> [] \<and> sv_modelsCache st' = ms \<and>
           sv_modelExpires st' = clock st (ticks st) + modelCacheTTL (sv_config st))"
proof (cases "0 < ModelCacheTTLSeconds (sv_config st) \<and> sv_modelsCache st \<noteq> [] \<and>
    clock st (ticks st) < sv_modelExpires st")
  case True
  with assms show ?thesis
    by (auto simp: discoverModels_def discover_begin_def now_def Let_def)
next
  case False
  then have b: "discover_begin st = (Inr (sv_config st, clock st (ticks st)), st\<lparr>ticks := ticks st + 1\<rparr>)"
    using assms(1) by (auto simp: discover_begin_def now_def Let_def)
  define ro where "ro = run_agent (sv_config st) [''models''] None False (st\<lparr>ticks := ticks st + 1\<rparr>)"
  have ro: "calls (snd ro) = calls st + 1" "sv_modelsCache (snd ro) = sv_modelsCache st"
    "sv_modelExpires (snd ro) = sv_modelExpires st"
    by (simp_all add: ro_def run_agent_eq)
  have "discover_end (sv_config st) (clock st (ticks st)) (fst ro) (snd ro) = (r, st')"
    using assms(2) b by (simp add: discoverModels_def ro_def split_beta)
  then show ?thesis
    by (cases rule: discover_end_eq) (use False ro in auto)
qed

theorem discoverModels_cache_witness:
  "calls (snd (discoverModels models_state)) = 1"
proof -
  have "Enabled (sv_config models_state)" by (simp add: models_state_def new_service_def default_config_def)
  from discoverModels_cache [OF this, of "fst (discoverModels models_state)" "snd (discoverModels models_state)"]
  show ?thesis by (simp add: models_state_def new_service_def)
qed

definition deny_yaml :: "string \<Rightarrow> config \<Rightarrow> string + config" where
  "deny_yaml raw c = Inr (c\<lparr>DeniedModels := [''auto'']\<rparr>)"

text \<open>
  A discovery that is under way during a reconfiguration stores a catalogue filtered by the
  old configuration: afterwards a model that the new configuration denies is resolved, from the
  cache. (The service takes the configuration and stores the catalogue under separate locks.)
\<close>

theorem stale_catalogue_after_reconfigure:
  "\<exists>cfg t st1 st2 st3 st4 r.
     discover_begin models_state = (Inr (cfg, t), st1) \<and>
     configure deny_yaml ''/tmp'' ''denied_models: [auto]'' st1 = (None, st2) \<and>
     discover_end cfg t (fst (run_agent cfg [''models''] None False st2))
       (snd (run_agent cfg [''models''] None False st2)) = (r, st3) \<and>
     DeniedModels (sv_config st3) = [''auto''] \<and>
     resolveModel ''auto'' st3 = (Inr ''auto'', st4)"
proof -
  let ?st1 = "snd (discover_begin models_state)"
  let ?cfg = "default_config ''/tmp''"
  let ?st2 = "snd (configure deny_yaml ''/tmp'' ''denied_models: [auto]'' ?st1)"
  let ?ro = "run_agent ?cfg [''models''] None False ?st2"
  let ?st3 = "snd (discover_end ?cfg (seconds 1000) (fst ?ro) (snd ?ro))"
  have 1: "discover_begin models_state = (Inr (?cfg, seconds 1000), ?st1)"
    by (simp add: discover_begin_def models_state_def new_service_def now_def default_config_def Let_def)
  have "fst (configure deny_yaml ''/tmp'' ''denied_models: [auto]'' ?st1) = None" by code_simp
  then have 2: "configure deny_yaml ''/tmp'' ''denied_models: [auto]'' ?st1 = (None, ?st2)"
    by (metis prod.collapse)
  have 3: "discover_end ?cfg (seconds 1000) (fst ?ro) (snd ?ro) =
      (fst (discover_end ?cfg (seconds 1000) (fst ?ro) (snd ?ro)), ?st3)" by simp
  have 4: "DeniedModels (sv_config ?st3) = [''auto'']" by code_simp
  have "fst (resolveModel ''auto'' ?st3) = Inr ''auto''" by code_simp
  then have 5: "resolveModel ''auto'' ?st3 = (Inr ''auto'', snd (resolveModel ''auto'' ?st3))"
    by (metis prod.collapse)
  from 1 2 3 4 5 show ?thesis by blast
qed

end
