(* ===== verification/Payload.thy ===== *)
theory Payload
  imports GoJson Errors
begin

section \<open>Requests: validation and prompt (internal/provider/cursor_cli.go)\<close>

text \<open>
  The code walks over the decoded JSON value and stops at the first object it rejects. A Go map
  is iterated in any order, so which object that is (and the key in the message) is open; the
  locale \<open>json_walk\<close> shows that whether there is one is not.
\<close>

subsection \<open>Walks over JSON values\<close>

fun first_some :: "('a \<Rightarrow> 'b option) \<Rightarrow> 'a list \<Rightarrow> 'b option" where
  "first_some f [] = None"
| "first_some f (x # xs) = (case f x of Some y \<Rightarrow> Some y | None \<Rightarrow> first_some f xs)"

lemma first_some_cong [fundef_cong]:
  "xs = ys \<Longrightarrow> (\<And>x. x \<in> set ys \<Longrightarrow> f x = g x) \<Longrightarrow> first_some f xs = first_some g ys"
  by (induction ys arbitrary: xs) (auto split: option.split)

lemma first_some_None: "first_some f xs = None \<longleftrightarrow> (\<forall>x \<in> set xs. f x = None)"
  by (induction xs) (auto split: option.splits)

lemma first_some_SomeD: "first_some f xs = Some y \<Longrightarrow> \<exists>x \<in> set xs. f x = Some y"
  by (induction xs) (auto split: option.splits)

text \<open>The objects in a value, itself included.\<close>

fun objects :: "json \<Rightarrow> json go_map list" where
  "objects (JObj m) = m # concat (map (\<lambda>(k, v). objects v) m)"
| "objects (JArr xs) = concat (map objects xs)"
| "objects _ = []"

locale json_walk =
  fixes bad :: "json go_map \<Rightarrow> bool"
    and walk :: "json \<Rightarrow> 'r option"
  assumes walk_obj: "walk (JObj m) = None \<longleftrightarrow> \<not> bad m \<and> (\<forall>(k, v) \<in> set m. walk v = None)"
    and walk_arr: "walk (JArr xs) = None \<longleftrightarrow> (\<forall>v \<in> set xs. walk v = None)"
    and walk_other: "objects v = [] \<Longrightarrow> walk v = None"
begin

lemma walk_None: "walk v = None \<longleftrightarrow> (\<forall>m \<in> set (objects v). \<not> bad m)"
proof (induction v rule: objects.induct)
  case (1 m)
  have "walk (snd e) = None \<longleftrightarrow> (\<forall>m' \<in> set (objects (snd e)). \<not> bad m')" if "e \<in> set m" for e
    using 1 [OF that] by (cases e) simp
  then have "(\<forall>e \<in> set m. walk (snd e) = None) \<longleftrightarrow>
      (\<forall>e \<in> set m. \<forall>m' \<in> set (objects (snd e)). \<not> bad m')" by blast
  then show ?case by (simp add: walk_obj split_beta ball_Un)
next
  case (2 xs)
  then show ?case by (simp add: walk_arr)
qed (simp_all add: walk_other)

end

subsection \<open>Tools\<close>

definition unsupportedToolKeys :: "string list" where
  "unsupportedToolKeys =
     [''tools'', ''functions'', ''tool_choice'', ''tool_calls'', ''function_call'',
      ''tool_use'', ''tool_result'', ''server_tool_use'', ''parallel_tool_calls'']"

definition tool_name :: "string \<Rightarrow> bool" where
  "tool_name lk = (List.member unsupportedToolKeys lk \<or> prefix ''mcp_tool_'' lk)"

text \<open>\<^verbatim>\<open>s, _ := x[k].(string)\<close>: the string at a key, or the empty one.\<close>

definition str_at :: "json go_map \<Rightarrow> string \<Rightarrow> string" where
  "str_at m k = (case map_of m k of Some (JStr s) \<Rightarrow> s | _ \<Rightarrow> [])"

fun findUnsupportedToolShape :: "json \<Rightarrow> string option" where
  "findUnsupportedToolShape (JObj m) =
     (let typ = str_at m ''type''
      in if typ \<noteq> [] \<and> tool_name (to_lower (trim_space typ)) then Some (''type:'' @ typ)
         else first_some (\<lambda>(k, v).
           if tool_name (to_lower k) then Some k else findUnsupportedToolShape v) m)"
| "findUnsupportedToolShape (JArr xs) = first_some findUnsupportedToolShape xs"
| "findUnsupportedToolShape _ = None"

definition tool_object :: "json go_map \<Rightarrow> bool" where
  "tool_object m =
     (str_at m ''type'' \<noteq> [] \<and> tool_name (to_lower (trim_space (str_at m ''type''))) \<or>
      (\<exists>k \<in> fst ` set m. tool_name (to_lower k)))"

interpretation tools: json_walk tool_object findUnsupportedToolShape
proof
  fix m
  show "findUnsupportedToolShape (JObj m) = None \<longleftrightarrow>
      \<not> tool_object m \<and> (\<forall>(k, v) \<in> set m. findUnsupportedToolShape v = None)"
    by (auto simp: Let_def tool_object_def first_some_None split_beta)
next
  fix v assume "objects v = []"
  then show "findUnsupportedToolShape v = None"
    by (induction v rule: objects.induct) (auto simp: first_some_None)
qed (simp add: first_some_None)

subsection \<open>Content that is not text\<close>

definition attachment_keys :: "string list" where
  "attachment_keys =
     [''attachments'', ''attachment'', ''image_url'', ''input_image'', ''input_file'', ''file'',
      ''file_data'', ''audio'', ''input_audio'']"

definition text_types :: "string list" where
  "text_types =
     [''text'', ''input_text'', ''output_text'', ''message'', ''system'', ''user'', ''assistant'',
      ''developer'']"

definition media_words :: "string list" where
  "media_words = [''image'', ''file'', ''audio'', ''attachment'', ''document'', ''media'']"

definition not_text_mime :: "string \<Rightarrow> bool" where
  "not_text_mime mt = (mt \<noteq> [] \<and> \<not> prefix ''text/'' (to_lower (trim_space mt)))"

definition mime_reason :: "json go_map \<Rightarrow> string option" where
  "mime_reason m =
     (if not_text_mime (str_at m ''mime_type'')
      then Some ''Cursor Agent CLI provider supports text-only MIME parts only''
      else if not_text_mime (str_at m ''media_type'')
      then Some ''Cursor Agent CLI provider supports text-only media parts only''
      else None)"

definition unsupportedContentMap :: "json go_map \<Rightarrow> string option" where
  "unsupportedContentMap m =
     (if list_ex (\<lambda>key. map_of m key \<noteq> None) attachment_keys
      then Some (''Cursor Agent CLI provider supports text-only requests and rejects '' @
                 ''attachments/images/files/audio before invocation'')
      else let typ = str_at m ''type''; n = to_lower (trim_space typ)
           in if typ \<noteq> [] \<and> List.member text_types n then None
              else if typ \<noteq> [] \<and> list_ex (contains n) media_words
              then Some (''Cursor Agent CLI provider supports text-only requests and rejects '' @
                         ''non-text content parts before invocation'')
              else mime_reason m)"

fun findUnsupportedContent :: "json \<Rightarrow> string option" where
  "findUnsupportedContent (JObj m) =
     (case unsupportedContentMap m of
        Some reason \<Rightarrow> Some reason
      | None \<Rightarrow> first_some (\<lambda>(k, v). findUnsupportedContent v) m)"
| "findUnsupportedContent (JArr xs) = first_some findUnsupportedContent xs"
| "findUnsupportedContent _ = None"

interpretation content: json_walk "\<lambda>m. unsupportedContentMap m \<noteq> None" findUnsupportedContent
proof
  fix m
  show "findUnsupportedContent (JObj m) = None \<longleftrightarrow>
      \<not> unsupportedContentMap m \<noteq> None \<and> (\<forall>(k, v) \<in> set m. findUnsupportedContent v = None)"
    by (auto simp: first_some_None split: option.splits)
next
  fix v assume "objects v = []"
  then show "findUnsupportedContent v = None"
    by (induction v rule: objects.induct) (auto simp: first_some_None)
qed (simp add: first_some_None)

subsection \<open>Validation\<close>

definition bad_request :: "string \<Rightarrow> go_error" where
  "bad_request msg = statusError ''invalid_request'' msg 400"

definition validateRequestPayload :: "string \<Rightarrow> go_error option" where
  "validateRequestPayload raw =
     (if raw = [] then Some (bad_request ''request body is required'')
      else case decode_first raw of
        DecOk v rest \<Rightarrow>
          (case findUnsupportedToolShape v of
             Some key \<Rightarrow>
               Some (statusError ''unsupported_tools''
                 (''Cursor Agent CLI provider does not support external tool/function request field '' @
                  quoted key) 422)
           | None \<Rightarrow>
               map_option (\<lambda>why. statusError ''unsupported_content'' why 422)
                 (findUnsupportedContent v))
      | _ \<Rightarrow> Some (bad_request ''request body must be JSON''))"

subsection \<open>The prompt\<close>

definition prompt_keys :: "string list" where
  "prompt_keys = [''instructions'', ''system'', ''input'', ''content'', ''text'', ''messages'']"

lemma map_of_json_size:
  "map_of m k = Some (v :: json) \<Longrightarrow> size v \<le> size_list (size_prod (\<lambda>_. 0) size) m"
proof -
  assume "map_of m k = Some v"
  then have "(k, v) \<in> set m" by (rule map_of_SomeD)
  then have "size_prod (\<lambda>_. 0) size (k, v) \<le> size_list (size_prod (\<lambda>_. 0) size) m"
    by (intro size_list_estimation') auto
  then show ?thesis by simp
qed

text \<open>\<open>collectPrompt\<close> returns what the code appends to the builder.\<close>

function collectPrompt :: "string \<Rightarrow> json \<Rightarrow> string" where
  "collectPrompt role (JObj m) =
     (let role' = (if str_at m ''role'' \<noteq> [] then str_at m ''role'' else role)
      in concat (map (\<lambda>k. case map_of m k of None \<Rightarrow> [] | Some v \<Rightarrow> collectPrompt role' v) prompt_keys))"
| "collectPrompt role (JArr xs) = concat (map (collectPrompt role) xs)"
| "collectPrompt role (JStr x) =
     (let t = trim_space x
      in if t = [] then []
         else if role \<noteq> [] then [CHR 0x0A] @ role @ '': '' @ t @ [CHR 0x0A]
         else [CHR 0x0A] @ t @ [CHR 0x0A])"
| "collectPrompt role JNull = []"
| "collectPrompt role (JBool b) = []"
| "collectPrompt role (JNum n) = []"
  by pat_completeness auto
termination
  by (relation "measure (\<lambda>(role, v). size v)")
    (auto simp: map_of_json_size size_list_estimation' less_Suc_eq_le)

definition preamble :: string where
  "preamble =
     ''You are running behind CLIProxyAPI through the official Cursor Agent CLI. '' @
     ''Answer the user'' @ [CHR 0x27] @ ''s request directly. Do not modify files or run commands.''"

definition promptFromRequest :: "string \<Rightarrow> (go_error, string) result" where
  "promptFromRequest raw =
     (case validateRequestPayload raw of
        Some e \<Rightarrow> Inl e
      | None \<Rightarrow>
          (case unmarshal_any raw of
             None \<Rightarrow> Inl (bad_request ''request body must be JSON'')
           | Some root \<Rightarrow>
               (let prompt = trim_space (preamble @ [CHR 0x0A] @ collectPrompt [] root)
                in if prompt = []
                   then Inl (bad_request ''request contains no supported text content'')
                   else Inr prompt)))"

subsection \<open>Properties\<close>

lemma validate_iff:
  "validateRequestPayload raw = None \<longleftrightarrow>
     raw \<noteq> [] \<and> (\<exists>v rest. decode_first raw = DecOk v rest \<and>
       (\<forall>m \<in> set (objects v). \<not> tool_object m \<and> unsupportedContentMap m = None))"
proof -
  have "findUnsupportedToolShape v = None \<and> findUnsupportedContent v = None \<longleftrightarrow>
      (\<forall>m \<in> set (objects v). \<not> tool_object m \<and> unsupportedContentMap m = None)" for v
    by (auto simp: tools.walk_None content.walk_None)
  moreover have "validateRequestPayload raw = None \<longleftrightarrow> raw \<noteq> [] \<and> (\<exists>v rest.
      decode_first raw = DecOk v rest \<and>
      (findUnsupportedToolShape v = None \<and> findUnsupportedContent v = None))"
    by (auto simp: validateRequestPayload_def split: decoded.splits option.splits)
  ultimately show ?thesis by (simp only:)
qed

text \<open>
  C16: A request passes exactly when its body starts with a JSON value in which no object, at any
  depth, names a tool (as a key or in its type) or carries content that is not text. In
  particular the order in which Go iterates over the maps does not change the verdict.
\<close>

theorem validateRequestPayload_iff:
  "validateRequestPayload raw = None \<longleftrightarrow>
     raw \<noteq> [] \<and> (\<exists>v rest. decode_first raw = DecOk v rest \<and>
       (\<forall>m \<in> set (objects v). \<not> tool_object m \<and> unsupportedContentMap m = None))"
  by (rule validate_iff)

definition sample_request :: string where
  "sample_request =
     [CHR ''{'', CHR 0x22] @ ''messages'' @ [CHR 0x22] @ '':[{'' @ [CHR 0x22] @ ''role'' @ [CHR 0x22] @ '':'' @
     [CHR 0x22] @ ''user'' @ [CHR 0x22] @ '','' @ [CHR 0x22] @ ''content'' @ [CHR 0x22] @ '':'' @
     [CHR 0x22] @ '' hi'' @ [CHR 0x22] @ ''}]}''"

lemma sample_decoded:
  "decode_first sample_request =
     DecOk (JObj [(''messages'', JArr [JObj [(''role'', JStr ''user''), (''content'', JStr '' hi'')]])]) []"
  by code_simp

lemma sample_objects:
  "\<forall>m \<in> set (objects (JObj [(''messages'', JArr [JObj [(''role'', JStr ''user''), (''content'', JStr '' hi'')]])])).
     \<not> tool_object m \<and> unsupportedContentMap m = None"
proof -
  have "\<not> tool_object [(''messages'', x)] \<and> unsupportedContentMap [(''messages'', x)] = None" for x
    by (simp add: tool_object_def str_at_def tool_name_def unsupportedToolKeys_def
        unsupportedContentMap_def attachment_keys_def mime_reason_def not_text_mime_def
        to_lower_ascii ascii_def lower_char_def Let_def)
  moreover have "\<not> tool_object [(''role'', JStr ''user''), (''content'', JStr '' hi'')] \<and>
      unsupportedContentMap [(''role'', JStr ''user''), (''content'', JStr '' hi'')] = None"
    by (simp add: tool_object_def str_at_def tool_name_def unsupportedToolKeys_def
        unsupportedContentMap_def attachment_keys_def mime_reason_def not_text_mime_def
        to_lower_ascii ascii_def lower_char_def Let_def)
  ultimately show ?thesis by simp
qed

lemma sample_valid: "validateRequestPayload sample_request = None"
proof -
  have "sample_request \<noteq> []" by (simp add: sample_request_def)
  then show ?thesis
    using validate_iff [of sample_request] sample_objects by (simp only: sample_decoded) blast
qed

theorem validateRequestPayload_iff_witness: "validateRequestPayload sample_request = None"
proof -
  have "sample_request \<noteq> []" by (simp add: sample_request_def)
  then show ?thesis
    using validateRequestPayload_iff [of sample_request] sample_objects by (simp only: sample_decoded) blast
qed

lemma preamble_kept: "prefix preamble (trim_space (preamble @ t))"
proof -
  have "hd preamble = CHR ''Y'' \<and> last preamble = CHR ''.'' \<and> preamble \<noteq> [] \<and> tl preamble \<noteq> []"
    by code_simp
  then obtain m where m: "preamble = CHR ''Y'' # m @ [CHR ''.'']"
    by (metis append_butlast_last_id last_tl list.collapse)
  show ?thesis
    unfolding m using trim_space_keeps_head [of "CHR ''Y''" "CHR ''.''" m t] by simp
qed

lemma promptFromRequest_cases:
  "promptFromRequest raw =
     (case validateRequestPayload raw of
        Some e \<Rightarrow> Inl e
      | None \<Rightarrow> (case unmarshal_any raw of
          None \<Rightarrow> Inl (bad_request ''request body must be JSON'')
        | Some root \<Rightarrow> Inr (trim_space (preamble @ [CHR 0x0A] @ collectPrompt [] root))))"
proof -
  have "preamble \<noteq> []" by code_simp
  then have "trim_space (preamble @ [CHR 0x0A] @ collectPrompt [] root) \<noteq> []" for root
    using preamble_kept [of "[CHR 0x0A] @ collectPrompt [] root"] by auto
  then show ?thesis by (simp add: promptFromRequest_def Let_def split: option.splits)
qed

lemma sample_prompt:
  "promptFromRequest sample_request = Inr (preamble @ [CHR 0x0A, CHR 0x0A] @ ''user: hi'')"
proof -
  have "unmarshal_any sample_request =
      Some (JObj [(''messages'', JArr [JObj [(''role'', JStr ''user''), (''content'', JStr '' hi'')]])])"
    by (simp add: unmarshal_any_def decode_all_def sample_decoded skip_ws_def)
  moreover have "trim_space (preamble @ [CHR 0x0A] @ collectPrompt []
      (JObj [(''messages'', JArr [JObj [(''role'', JStr ''user''), (''content'', JStr '' hi'')]])])) =
    preamble @ [CHR 0x0A, CHR 0x0A] @ ''user: hi''" by code_simp
  ultimately show ?thesis by (simp add: promptFromRequest_cases sample_valid)
qed

text \<open>
  A prompt is made exactly when the request passes validation and its whole body is one JSON
  value, and starts with the constant preamble; the check for an empty prompt never
  applies, so a request without any text is sent as the bare preamble.
\<close>

theorem promptFromRequest_spec:
  "promptFromRequest raw = Inr prompt \<longleftrightarrow>
     validateRequestPayload raw = None \<and> (\<exists>root. unmarshal_any raw = Some root \<and>
       prompt = trim_space (preamble @ [CHR 0x0A] @ collectPrompt [] root)) \<and> prefix preamble prompt"
  using preamble_kept by (auto simp: promptFromRequest_cases split: option.splits)

definition chat_message :: "string \<times> string \<Rightarrow> json" where
  "chat_message rc = JObj [(''role'', JStr (fst rc)), (''content'', JStr (snd rc))]"

definition message_line :: "string \<times> string \<Rightarrow> string" where
  "message_line rc = [CHR 0x0A] @ fst rc @ '': '' @ trim_space (snd rc) @ [CHR 0x0A]"

text \<open>
  The messages of a chat request appear in the prompt in order, each with its role, and
  without the messages that have no text.
\<close>

theorem chat_prompt_layout:
  assumes "\<forall>rc \<in> set msgs. fst rc \<noteq> []"
  shows "collectPrompt [] (JObj [(''messages'', JArr (map chat_message msgs))]) =
    concat (map message_line (filter (\<lambda>rc. trim_space (snd rc) \<noteq> []) msgs))"
proof -
  have m: "collectPrompt role (chat_message rc) =
      (if trim_space (snd rc) = [] then [] else message_line rc)" if "fst rc \<noteq> []" for role rc
    using that by (simp add: chat_message_def prompt_keys_def str_at_def message_line_def Let_def)
  have "collectPrompt [] (JObj [(''messages'', JArr (map chat_message msgs))]) =
      concat (map (\<lambda>rc. collectPrompt [] (chat_message rc)) msgs)"
    by (simp add: prompt_keys_def str_at_def comp_def)
  also have "\<dots> = concat (map message_line (filter (\<lambda>rc. trim_space (snd rc) \<noteq> []) msgs))"
    using assms by (induction msgs) (auto simp: m)
  finally show ?thesis .
qed

theorem chat_prompt_layout_witness:
  "collectPrompt [] (JObj [(''messages'', JArr (map chat_message [(''user'', '' hi'')]))]) =
     concat (map message_line (filter (\<lambda>rc. trim_space (snd rc) \<noteq> []) [(''user'', '' hi'')]))"
  by (rule chat_prompt_layout) simp

end
