(* ===== verification/GoTime.thy ===== *)
theory GoTime
  imports GoMarshal
begin

section \<open>Go's time package: RFC 3339 in UTC\<close>

text \<open>
  A time is a number of nanoseconds since January 1 of the year 1 (UTC), the zero time of Go.
  \<open>civil\<close> is the date of a day, computed in cycles of 400 years of 146097 days that begin in
  March (day 0 here is March 1 of the year 0, 306 days before the zero time).
\<close>

definition civil :: "int \<Rightarrow> int \<times> int \<times> int" where
  "civil days =
     (let z = days + 306;
          era = z div 146097;
          doe = z mod 146097;
          yoe = (doe - doe div 1460 + doe div 36524 - doe div 146096) div 365;
          doy = doe - (365 * yoe + yoe div 4 - yoe div 100);
          mp = (5 * doy + 2) div 153;
          d = doy - (153 * mp + 2) div 5 + 1;
          m = (if mp < 10 then mp + 3 else mp - 9);
          y = yoe + era * 400 + (if m \<le> 2 then 1 else 0)
      in (y, m, d))"

definition two_digits :: "int \<Rightarrow> string" where
  "two_digits n = [char_of (48 + n div 10 mod 10), char_of (48 + n mod 10)]"

definition rfc3339 :: "int \<Rightarrow> string" where
  "rfc3339 t =
     (let secs = t div 1000000000;
          (y, m, d) = civil (secs div 86400);
          s = secs mod 86400
      in two_digits (y div 100) @ two_digits (y mod 100) @ ''-'' @ two_digits m @ ''-'' @ two_digits d @
         ''T'' @ two_digits (s div 3600) @ '':'' @ two_digits (s div 60 mod 60) @ '':'' @
         two_digits (s mod 60) @ ''Z'')"

lemma rfc3339_samples:
  "rfc3339 0 = ''0001-01-01T00:00:00Z''"
  "rfc3339 (1000000000 * 62135596800) = ''1970-01-01T00:00:00Z''"
  "rfc3339 (1000000000 * (62135596800 + 951827696)) = ''2000-02-29T12:34:56Z''"
  by code_simp+

end
