(* ===== verification/GoRoundtrip.thy ===== *)
theory GoRoundtrip
  imports GoMarshal
begin

section \<open>Decoding what was encoded\<close>

text \<open>
  The decoder of GoJson reads back what the encoder of GoMarshal wrote: strings that are UTF-8,
  and values whose strings are UTF-8, whose numbers are literals and whose objects have distinct
  keys. The members of an object come back in the order of their keys.
\<close>

subsection \<open>UTF-8 strings\<close>

function utf8 :: "string \<Rightarrow> bool" where
  "utf8 s =
     (if s = [] then True else if rune_len s = 0 then False else utf8 (drop (rune_len s) s))"
  by pat_completeness auto
termination by (relation "measure length") auto

declare utf8.simps [simp del]

lemma utf8_Nil [simp]: "utf8 []"
  by (subst utf8.simps) simp

lemma rune_len_ascii [simp]: "byte c < 128 \<Longrightarrow> rune_len (c # s) = 1"
  by (simp add: rune_len_def)

lemma utf8_ascii_Cons [simp]: "byte c < 128 \<Longrightarrow> utf8 (c # s) = utf8 s"
  by (subst utf8.simps) simp

text \<open>The bytes of a rune decide its length.\<close>

lemma rune_len_append:
  assumes "0 < rune_len s"
  shows "rune_len (take (rune_len s) s @ r) = rune_len s"
proof -
  obtain a t where s: "s = a # t" using assms by (cases s) (simp_all add: rune_len_def)
  show ?thesis
  proof (cases "byte a < 128")
    case True
    with s show ?thesis by simp
  next
    case a: False
    then obtain b u where t: "t = b # u" using assms s by (cases t) (simp_all add: rune_len_def)
    show ?thesis
    proof (cases "194 \<le> byte a \<and> byte a < 224")
      case True
      then have "cont b \<and> rune_len s = 2" using assms s t a by (simp add: rune_len_def split: if_splits)
      with True a s t show ?thesis by (simp add: rune_len_def)
    next
      case b: False
      then obtain c v where u: "u = c # v" using assms s t a
        by (cases u) (simp_all add: rune_len_def del: not_le split: if_splits)
      show ?thesis
      proof (cases "224 \<le> byte a \<and> byte a < 240")
        case True
        then have "rune_len s = 3" using assms s t u a b by (simp add: rune_len_def del: not_le split: if_splits)
        with True a b s t u assms show ?thesis
          by (simp add: rune_len_def numeral_3_eq_3 del: not_le split: if_splits)
      next
        case c: False
        then obtain d w where v: "v = d # w" using assms s t u a b
          by (cases v) (simp_all add: rune_len_def del: not_le split: if_splits)
        then have "rune_len s = 4" using assms s t u a b c by (simp add: rune_len_def del: not_le split: if_splits)
        with a b c s t u v assms show ?thesis
          by (simp add: rune_len_def numeral_eq_Suc del: not_le split: if_splits)
      qed
    qed
  qed
qed

lemma byte_nonneg [simp]: "0 \<le> byte c"
  by (metis of_nat_0_le_iff of_nat_of_char)

subsection \<open>Strings\<close>

lemma hex_val_digit [simp]: "hex_val (hex_digit n) = Some (n mod 16)"
proof -
  have "n mod 16 \<in> {0..<16}" by simp
  moreover have "byte (char_of k :: char) = k" if "0 \<le> k" "k < 128" for k :: int
    using that by (simp add: of_char_of)
  ultimately show ?thesis
    by (auto simp: hex_val_def hex_digit_def digit_def Let_def)
qed

lemma char_of_byte [simp]: "char_of (byte c) = c"
  by simp

lemma dec_unit_plain: "32 \<le> byte c \<Longrightarrow> byte c < 128 \<Longrightarrow> c \<noteq> CHR 0x5C \<Longrightarrow> dec_unit (c # r) = Some ([c], r)"
  by (simp add: dec_unit_def)

lemma two_hex:
  assumes "0 \<le> n" "n < 128"
  shows "n div 16 mod 16 * 16 + n mod 16 = (n :: int)"
proof -
  have "0 \<le> n div 16" "n div 16 \<le> 7"
    using assms zdiv_mono1 [of n 127 16] by (simp_all add: pos_imp_zdiv_nonneg_iff)
  then have "n div 16 mod 16 = n div 16" by (intro mod_pos_pos_trivial) simp_all
  then show ?thesis by simp
qed

lemma dec_unit_hex:
  assumes "byte c < 128"
  shows "dec_unit ([CHR 0x5C, CHR ''u'', CHR ''0'', CHR ''0'', hex_digit (byte c div 16), hex_digit (byte c)] @ r) =
    Some ([c], r)"
proof -
  have z: "hex_val CHR ''0'' = Some 0" by (simp add: hex_val_def digit_def)
  have "(byte c div 16 mod 16) * 16 + byte c mod 16 = byte c"
    using two_hex [of "byte c"] assms by simp
  with assms z show ?thesis
    by (simp add: dec_unit_def hex4_def surrogate_def encode_rune_def)
qed

lemma dec_unit_ascii:
  assumes "byte c < 128"
  shows "dec_unit (enc_ascii c @ r) = Some ([c], r) \<and> \<not> prefix [CHR 0x22] (enc_ascii c @ r)"
proof (cases "byte c < 32 \<or> c \<in> {CHR 0x22, CHR 0x5C, CHR ''<'', CHR ''>'', CHR ''&''}")
  case False
  have "c \<notin> {CHR 0x08, CHR 0x0C, CHR 0x0A, CHR 0x0D, CHR 0x09}"
    by (rule notI, elim insertE emptyE) (use False in simp_all)
  with False have "enc_ascii c = [c]" by (simp add: enc_ascii_def)
  with False assms show ?thesis by (auto simp: dec_unit_plain)
next
  case True
  consider "c \<in> {CHR 0x22, CHR 0x5C, CHR 0x08, CHR 0x0C, CHR 0x0A, CHR 0x0D, CHR 0x09}"
    | "enc_ascii c = [CHR 0x5C, CHR ''u'', CHR ''0'', CHR ''0'', hex_digit (byte c div 16), hex_digit (byte c)]"
  proof (cases "c \<in> {CHR 0x22, CHR 0x5C, CHR 0x08, CHR 0x0C, CHR 0x0A, CHR 0x0D, CHR 0x09}")
    case False
    with True have "enc_ascii c =
        [CHR 0x5C, CHR ''u'', CHR ''0'', CHR ''0'', hex_digit (byte c div 16), hex_digit (byte c)]"
      by (simp add: enc_ascii_def)
    then show thesis by (rule that(2))
  qed (rule that(1))
  then show ?thesis
  proof cases
    case 1
    then show ?thesis
      by (elim insertE emptyE) (simp_all add: enc_ascii_def dec_unit_def simple_escape_def)
  next
    case 2
    with dec_unit_hex [OF assms] show ?thesis by simp
  qed
qed

lemma dec_unit_rune:
  assumes "0 < rune_len s" and "s = c # t" and "128 \<le> byte c"
  shows "dec_unit (enc_rune (take (rune_len s) s) @ r) = Some (take (rune_len s) s, r) \<and>
    \<not> prefix [CHR 0x22] (enc_rune (take (rune_len s) s) @ r)"
proof -
  let ?u = "take (rune_len s) s"
  have l: "length ?u = rune_len s" using rune_len_pos_le [of s] by simp
  have h: "\<exists>u'. ?u = c # u'" using assms(1,2) by (cases "rune_len s") auto
  have e: "dec_unit (?u @ r) = Some (?u, r)" "\<not> prefix [CHR 0x22] (?u @ r)"
  proof -
    have n: "rune_len (?u @ r) = rune_len s" by (rule rune_len_append [OF assms(1)])
    have c: "\<not> byte c < 32" "c \<noteq> CHR 0x5C" "c \<noteq> CHR 0x22" using assms(3) by auto
    from h obtain u' where u': "?u = c # u'" by blast
    from l u' have k: "rune_len s = Suc (length u')" by simp
    from n c assms(1) show "dec_unit (?u @ r) = Some (?u, r)"
      unfolding u' by (simp add: dec_unit_def k)
    from u' c show "\<not> prefix [CHR 0x22] (?u @ r)" by simp
  qed
  show ?thesis
  proof (cases "?u \<in> {[CHR 0xE2, CHR 0x80, CHR 0xA8], [CHR 0xE2, CHR 0x80, CHR 0xA9]}")
    case True
    have x: "hex4 (''2028'' @ r) = Some 8232" "hex4 (''2029'' @ r) = Some 8233"
      by (simp_all add: hex4_def hex_val_def digit_def)
    have y: "encode_rune 8232 = [CHR 0xE2, CHR 0x80, CHR 0xA8]" "encode_rune 8233 = [CHR 0xE2, CHR 0x80, CHR 0xA9]"
      by code_simp+
    from True x y show ?thesis
      by (auto simp: enc_rune_def dec_unit_def surrogate_def)
  next
    case False
    with e show ?thesis by (simp add: enc_rune_def)
  qed
qed

lemma dec_string_unit:
  assumes "dec_unit (u @ r) = Some (x, r)" "\<not> prefix [CHR 0x22] (u @ r)" "dec_string r = Some (y, z)"
  shows "dec_string (u @ r) = Some (x @ y, z)"
  using assms by (subst dec_string.simps) simp

lemma dec_enc_bytes:
  "utf8 s \<Longrightarrow> dec_string (enc_bytes s @ CHR 0x22 # r) = Some (s, r)"
proof (induction "length s" arbitrary: s rule: less_induct)
  case less
  show ?case
  proof (cases s)
    case Nil
    then show ?thesis by (simp add: enc_bytes.simps dec_string.simps)
  next
    case (Cons c t)
    show ?thesis
    proof (cases "byte c < 128")
      case True
      with Cons less.prems have "dec_string (enc_bytes t @ CHR 0x22 # r) = Some (t, r)"
        by (intro less.hyps) simp_all
      with dec_unit_ascii [OF True] Cons True show ?thesis
        by (subst enc_bytes.simps) (simp add: dec_string_unit)
    next
      case False
      let ?n = "rune_len s"
      have n: "0 < ?n" "utf8 (drop ?n s)"
        using less.prems Cons utf8.simps [of s] by (simp_all only: split: if_splits) simp_all
      then have "dec_string (enc_bytes (drop ?n s) @ CHR 0x22 # r) = Some (drop ?n s, r)"
        using Cons by (intro less.hyps) simp_all
      with dec_unit_rune [OF n(1) Cons] False have "dec_string (enc_rune (take ?n s) @
          enc_bytes (drop ?n s) @ CHR 0x22 # r) = Some (take ?n s @ drop ?n s, r)"
        by (intro dec_string_unit) simp_all
      with False n(1) Cons show ?thesis by (subst enc_bytes.simps) simp
    qed
  qed
qed

subsection \<open>Number literals\<close>

text \<open>A literal ends where a character follows that cannot continue it.\<close>

definition delim :: "string \<Rightarrow> bool" where
  "delim r = (case r of [] \<Rightarrow> True | c # _ \<Rightarrow> \<not> digit c \<and> c \<notin> {CHR ''.'', CHR ''e'', CHR ''E'', CHR ''+'', CHR ''-''})"

definition num_lit :: "string \<Rightarrow> bool" where
  "num_lit l = (lex_number l = Some (l, []))"

lemma takeWhile_delim: "delim r \<Longrightarrow> takeWhile digit (s @ r) = takeWhile digit s"
  by (induction s) (cases r; auto simp: delim_def)+

lemma dropWhile_delim: "delim r \<Longrightarrow> dropWhile digit (s @ r) = dropWhile digit s @ r"
  by (cases r) (auto simp: dropWhile_append delim_def)

definition ext :: "string \<Rightarrow> (string \<times> string) option \<Rightarrow> (string \<times> string) option" where
  "ext r x = map_option (\<lambda>(a, b). (a, b @ r)) x"

lemma lex_digits1_ext: "delim r \<Longrightarrow> lex_digits1 (s @ r) = ext r (lex_digits1 s)"
  by (simp add: lex_digits1_def takeWhile_delim dropWhile_delim ext_def)

lemma lex_int_ext: "delim r \<Longrightarrow> s \<noteq> [] \<Longrightarrow> lex_int (s @ r) = ext r (lex_int s)"
  using lex_digits1_ext [of r s] by (cases s) (auto simp: lex_int_def ext_def)

lemma lex_frac_ext: "delim r \<Longrightarrow> lex_frac (s @ r) = ext r (lex_frac s)"
proof (cases s)
  case Nil
  then show "delim r \<Longrightarrow> ?thesis"
    by (cases r) (simp_all add: lex_frac_def delim_def ext_def)
next
  case (Cons c t)
  then show "delim r \<Longrightarrow> ?thesis"
    by (cases "lex_digits1 t") (auto simp: lex_frac_def lex_digits1_ext ext_def)
qed

lemma lex_exp_ext: "delim r \<Longrightarrow> lex_exp (s @ r) = ext r (lex_exp s) \<or> lex_exp s = None"
proof (cases s)
  case Nil
  then show "delim r \<Longrightarrow> ?thesis"
    by (cases r) (auto simp: lex_exp_def delim_def ext_def)
next
  case (Cons c t)
  assume r: "delim r"
  show ?thesis
  proof (cases t)
    case Nil
    with r Cons show ?thesis by (cases r) (auto simp: lex_exp_def ext_def)
  next
    case (Cons d u)
    show ?thesis
      using r lex_digits1_ext [OF r, of u] lex_digits1_ext [OF r, of t] Cons \<open>s = c # t\<close>
      by (cases "lex_digits1 u"; cases "lex_digits1 t") (auto simp: lex_exp_def ext_def)
  qed
qed

lemma lex_number_ext:
  assumes "delim r" "num_lit l"
  shows "lex_number (l @ r) = Some (l, r)"
proof -
  define neg where "neg = prefix ''-'' l"
  define s0 where "s0 = (if neg then drop 1 l else l)"
  from assms(2) obtain i s1 f s2 e s3 where p: "lex_int s0 = Some (i, s1)" "lex_frac s1 = Some (f, s2)"
    "lex_exp s2 = Some (e, s3)" "(if neg then ''-'' else []) @ i @ f @ e = l" "s3 = []"
    by (auto simp: num_lit_def lex_number_def Let_def neg_def [symmetric] s0_def [symmetric]
        split: option.splits)
  have ne: "s0 \<noteq> []" using p(1) by (auto simp: lex_int_def)
  then have l: "l \<noteq> []" by (auto simp: s0_def split: if_splits)
  then have n: "prefix ''-'' (l @ r) = neg" by (cases l) (simp_all add: neg_def)
  have d: "(if neg then drop 1 (l @ r) else l @ r) = s0 @ r"
    using l by (cases l) (simp_all add: s0_def)
  have "lex_int (s0 @ r) = Some (i, s1 @ r)" using lex_int_ext [OF assms(1) ne] p(1) by (simp add: ext_def)
  moreover have "lex_frac (s1 @ r) = Some (f, s2 @ r)" using lex_frac_ext [OF assms(1)] p(2) by (simp add: ext_def)
  moreover have "lex_exp (s2 @ r) = Some (e, r)" using lex_exp_ext [OF assms(1), of s2] p(3,5) by (simp add: ext_def)
  ultimately show ?thesis
    unfolding lex_number_def Let_def n d using p(4) by simp
qed

lemma num_lit_head: "num_lit l \<Longrightarrow> \<exists>c t. l = c # t \<and> (digit c \<or> c = CHR ''-'')"
proof -
  assume "num_lit l"
  then have "lex_number l \<noteq> None" by (simp add: num_lit_def)
  then show ?thesis
    by (cases l) (auto simp: lex_number_def lex_int_def lex_digits1_def Let_def digit_def split: if_splits option.splits)
qed

lemma digits_of_digits:
  "0 \<le> n \<Longrightarrow> list_all digit (digits_of n) \<and> digits_of n \<noteq> [] \<and> (hd (digits_of n) = CHR ''0'' \<longrightarrow> n = 0)"
proof (induction n rule: digits_of.induct)
  case (1 n)
  have d: "digit (char_of (48 + k))" "byte (char_of (48 + k)) = 48 + k" if "0 \<le> k" "k < 10" for k :: int
    using that by (simp_all add: digit_def of_char_of)
  show ?case
  proof (cases "n < 10")
    case True
    moreover have "n = 0" if "char_of (48 + n) = CHR ''0''"
      using arg_cong [OF that, of byte] d(2) [of n] 1 True by simp
    ultimately show ?thesis using 1 d [of n] by (subst (1 2 3) digits_of.simps) auto
  next
    case False
    then have "0 < n div 10" by (simp add: pos_imp_zdiv_pos_iff)
    with 1 False d [of "n mod 10"] show ?thesis
      by (subst (1 2 3) digits_of.simps) auto
  qed
qed

lemma digits_of_lit:
  assumes "0 \<le> n"
  shows "lex_int (digits_of n) = Some (digits_of n, [])"
proof -
  let ?l = "digits_of n"
  have p: "list_all digit ?l" "?l \<noteq> []" "hd ?l = CHR ''0'' \<longrightarrow> n = 0" using digits_of_digits [OF assms] by auto
  then have "takeWhile digit ?l = ?l" "dropWhile digit ?l = []" by (simp_all add: list_all_iff)
  moreover have "digits_of 0 = ''0''" by code_simp
  ultimately show ?thesis using p
    by (cases ?l) (auto simp: lex_int_def lex_digits1_def)
qed

lemma show_int_lit: "num_lit (show_int n)"
proof (cases "n < 0")
  case True
  then show ?thesis
    using digits_of_lit [of "- n"]
    by (simp add: num_lit_def show_int_def lex_number_def lex_frac_def lex_exp_def Let_def)
next
  case False
  then obtain c t where "digits_of n = c # t" "digit c"
    using digits_of_digits [of n] by (cases "digits_of n") auto
  moreover from \<open>digit c\<close> have "c \<noteq> CHR ''-''" by (auto simp: digit_def)
  ultimately show ?thesis
    using False digits_of_lit [of n]
    by (simp add: num_lit_def show_int_def lex_number_def lex_frac_def lex_exp_def Let_def)
qed

subsection \<open>Values\<close>

fun depth :: "json \<Rightarrow> nat" where
  "depth (JArr xs) = Suc (foldr (\<lambda>v. max (depth v)) xs 0)"
| "depth (JObj m) = Suc (foldr (\<lambda>(k, v). max (depth v)) m 0)"
| "depth _ = 0"

text \<open>What can be encoded faithfully.\<close>

fun printable :: "json \<Rightarrow> bool" where
  "printable (JNum l) = num_lit l"
| "printable (JStr s) = utf8 s"
| "printable (JArr xs) = list_all printable xs"
| "printable (JObj m) = (distinct (map fst m) \<and> list_all (\<lambda>(k, v). utf8 k \<and> printable v) m)"
| "printable _ = True"

text \<open>The value that comes back: the members in the order of their keys.\<close>

fun sorted_json :: "json \<Rightarrow> json" where
  "sorted_json (JArr xs) = JArr (map sorted_json xs)"
| "sorted_json (JObj m) = JObj (sort_members (map (\<lambda>(k, v). (k, sorted_json v)) m))"
| "sorted_json v = v"

lemma foldr_max_le: "x \<in> set xs \<Longrightarrow> f x \<le> foldr (\<lambda>v. max (f v)) xs (0::nat)"
  by (induction xs) auto

lemma insort_key_map: "insort_key f (g x) (map g xs) = map g (insort_key (\<lambda>x. f (g x)) x xs)"
  by (induction xs) auto

lemma sort_key_map: "sort_key f (map g xs) = map g (sort_key (\<lambda>x. f (g x)) xs)"
  by (induction xs) (simp_all add: insort_key_map)

lemma sort_members_map: "sort_members (map (\<lambda>(k, v). (k, h v)) m) = map (\<lambda>(k, v). (k, h v)) (sort_members m)"
  unfolding sort_members_def sort_key_map by (simp add: case_prod_beta)

text \<open>The first character of an encoded value.\<close>

lemma marshal_head:
  assumes "printable v"
  shows "\<exists>c t. marshal v = c # t \<and> \<not> json_ws c \<and> c \<noteq> CHR '']''"
proof (cases v)
  case (JNum l)
  with assms obtain c t where "l = c # t" "digit c \<or> c = CHR ''-''"
    using num_lit_head [of l] by (simp, blast)
  moreover from this have "\<not> json_ws c \<and> c \<noteq> CHR '']''" by (auto simp: json_ws_def digit_def)
  ultimately show ?thesis using JNum by simp
qed (auto simp: enc_string_def json_ws_def)

lemma skip_ws_marshal: "printable v \<Longrightarrow> skip_ws (marshal v @ r) = marshal v @ r"
  using marshal_head by (fastforce simp: skip_ws_def)

lemma skip_ws_nonspace: "\<not> json_ws c \<Longrightarrow> skip_ws (c # r) = c # r"
  by (simp add: skip_ws_def)

lemma delim_simps [simp]:
  "delim (CHR '','' # r)" "delim (CHR '']'' # r)" "delim (CHR ''}'' # r)" "delim []"
  by (simp_all add: delim_def digit_def)

lemma ws_simps [simp]:
  "\<not> json_ws CHR '',''" "\<not> json_ws CHR '']''" "\<not> json_ws CHR ''}''" "\<not> json_ws CHR '':''" "\<not> json_ws CHR 0x22"
  by (simp_all add: json_ws_def)

lemma join_on_step: "join_on sep (x # xs) = x @ (if xs = [] then [] else sep @ join_on sep xs)"
  by (cases xs) simp_all

lemma dec_elems_marshal:
  assumes "xs \<noteq> []" "length xs \<le> n"
    and "\<And>v r. v \<in> set xs \<Longrightarrow> delim r \<Longrightarrow> p (marshal v @ r) = Some (f v, r)"
  shows "dec_elems p n (join_on '','' (map marshal xs) @ CHR '']'' # r) = Some (map f xs, r)"
  using assms
proof (induction xs arbitrary: n)
  case (Cons x xs)
  then obtain m where n: "n = Suc m" by (cases n) auto
  show ?case
  proof (cases "xs = []")
    case True
    with Cons.prems(3) [of x "CHR '']'' # r"] n show ?thesis by (simp add: skip_ws_nonspace)
  next
    case False
    with Cons n have "dec_elems p m (join_on '','' (map marshal xs) @ CHR '']'' # r) = Some (map f xs, r)"
      by (intro Cons.IH) auto
    with Cons.prems(3) [of x "CHR '','' # join_on '','' (map marshal xs) @ CHR '']'' # r"] n False
    show ?thesis by (simp add: join_on_step skip_ws_nonspace)
  qed
qed simp

lemma dec_key_enc:
  "utf8 k \<Longrightarrow> dec_key (enc_string k @ CHR '':'' # r) = Some (k, r)"
  using dec_enc_bytes [of k "CHR '':'' # r"]
  by (simp add: dec_key_def enc_string_def skip_ws_nonspace)

definition enc_member :: "string \<times> json \<Rightarrow> string" where
  "enc_member kv = enc_string (fst kv) @ '':'' @ marshal (snd kv)"

text \<open>Members, for a way \<open>put\<close> of adding new keys at the end.\<close>

lemma dec_members_marshal:
  assumes "ms \<noteq> []" "length ms \<le> n" "distinct (map fst (acc @ ms))"
    and "\<And>kv. kv \<in> set ms \<Longrightarrow> utf8 (fst kv)"
    and "\<And>kv r. kv \<in> set ms \<Longrightarrow> delim r \<Longrightarrow> p (marshal (snd kv) @ r) = Some (f (snd kv), r)"
    and "\<And>k v m. k \<notin> fst ` set m \<Longrightarrow> put k v m = m @ [(k, v)]"
  shows "dec_members put p n (map (\<lambda>(k, v). (k, f v)) acc) (join_on '','' (map enc_member ms) @ CHR ''}'' # r) =
    Some (map (\<lambda>(k, v). (k, f v)) (acc @ ms), r)"
  using assms(1-5)
proof (induction ms arbitrary: n acc)
  case (Cons kv ms)
  obtain k v where kv: "kv = (k, v)" by (cases kv)
  from Cons.prems obtain m where n: "n = Suc m" by (cases n) auto
  let ?acc = "map (\<lambda>(k, v). (k, f v)) acc"
  have "k \<notin> fst ` set ?acc" using Cons.prems(3) kv by (auto simp: rev_image_eqI)
  then have put: "put k (f v) ?acc = map (\<lambda>(k, v). (k, f v)) (acc @ [kv])"
    using assms(6) kv by simp
  have u: "utf8 k" using Cons.prems(4) [of kv] kv by simp
  show ?case
  proof (cases "ms = []")
    case True
    have "p (marshal v @ CHR ''}'' # r) = Some (f v, CHR ''}'' # r)"
      using Cons.prems(5) [of kv] kv by simp
    with True n kv put dec_key_enc [OF u] show ?thesis
      by (simp add: enc_member_def [of "(k, v)"] skip_ws_nonspace)
  next
    case False
    let ?rest = "join_on '','' (map enc_member ms) @ CHR ''}'' # r"
    have "dec_members put p m (map (\<lambda>(k, v). (k, f v)) (acc @ [kv])) ?rest =
        Some (map (\<lambda>(k, v). (k, f v)) ((acc @ [kv]) @ ms), r)"
      using Cons.prems False n by (intro Cons.IH) auto
    moreover have "p (marshal v @ CHR '','' # ?rest) = Some (f v, CHR '','' # ?rest)"
      using Cons.prems(5) [of kv] kv by simp
    ultimately show ?thesis
      using False n kv put dec_key_enc [OF u]
      by (simp add: join_on_step enc_member_def [of "(k, v)"] skip_ws_nonspace)
  qed
qed simp

lemma length_join: "(\<And>x. x \<in> set xs \<Longrightarrow> x \<noteq> []) \<Longrightarrow> length xs \<le> length (join_on sep xs)"
proof (induction xs)
  case (Cons x xs)
  then have "length xs \<le> length (join_on sep xs)" "x \<noteq> []" by auto
  then show ?case by (cases x) (auto simp: join_on_step)
qed simp

lemma dec_object:
  assumes "distinct (map fst ms)"
    and "\<And>kv. kv \<in> set ms \<Longrightarrow> utf8 (fst kv)"
    and "\<And>kv r. kv \<in> set ms \<Longrightarrow> delim r \<Longrightarrow> p (marshal (snd kv) @ r) = Some (f (snd kv), r)"
    and "\<And>k v m. k \<notin> fst ` set m \<Longrightarrow> put k v m = m @ [(k, v)]"
  shows "dec_shape put (Some p) (''{'' @ join_on '','' (map enc_member ms) @ ''}'' @ r) =
    Some (JObj (map (\<lambda>(k, v). (k, f v)) ms), r)"
proof -
  have n: "\<not> json_ws CHR ''{''" by (simp add: json_ws_def)
  show ?thesis
  proof (cases ms)
    case Nil
    with n show ?thesis by (simp add: dec_shape_def skip_ws_nonspace)
  next
    case (Cons x xs')
    let ?t = "join_on '','' (map enc_member ms) @ CHR ''}'' # r"
    have h: "\<not> prefix ''}'' (skip_ws ?t)"
      using Cons by (simp add: join_on_step enc_member_def [of x] enc_string_def skip_ws_nonspace)
    have "enc_member kv \<noteq> []" for kv by (simp add: enc_member_def enc_string_def)
    then have "length (map enc_member ms) \<le> length (join_on '','' (map enc_member ms))"
      by (intro length_join) auto
    then have "length ms \<le> length ?t" by simp
    then have "dec_members put p (length ?t) (map (\<lambda>(k, v). (k, f v)) []) ?t =
        Some (map (\<lambda>(k, v). (k, f v)) ([] @ ms), r)"
      using assms Cons by (intro dec_members_marshal) simp_all
    with h n show ?thesis by (simp add: dec_shape_def skip_ws_nonspace)
  qed
qed

lemma put_member_fresh: "k \<notin> fst ` set m \<Longrightarrow> put_member k v m = m @ [(k, v)]"
  by (force simp: put_member_def filter_id_conv)

lemma dec_marshal:
  "printable v \<Longrightarrow> depth v \<le> d \<Longrightarrow> delim r \<Longrightarrow> dec_value d (marshal v @ r) = Some (sorted_json v, r)"
proof (induction v arbitrary: d r rule: marshal.induct)
  case 1
  then show ?case by (cases d) (simp_all add: dec_shape_def skip_ws_def json_ws_def literal_def)
next
  case (2 b)
  then show ?case by (cases d) (simp_all add: dec_shape_def skip_ws_def json_ws_def literal_def)
next
  case (3 l)
  then obtain c t where l: "l = c # t" "digit c \<or> c = CHR ''-''" using num_lit_head [of l] by auto
  then have c: "\<not> json_ws c" "c \<noteq> CHR 0x22" "c \<noteq> CHR ''{''" "c \<noteq> CHR ''[''" "c \<noteq> CHR ''t''"
    "c \<noteq> CHR ''f''" "c \<noteq> CHR ''n''" by (auto simp: digit_def json_ws_def)
  have "lex_number (c # t @ r) = Some (l, r)" using lex_number_ext [of r l] 3 l by simp
  with l c show ?case by (cases d) (simp_all add: dec_shape_def skip_ws_nonspace)
next
  case (4 s)
  with dec_enc_bytes [of s r] show ?case
    by (cases d) (simp_all add: dec_shape_def enc_string_def skip_ws_nonspace)
next
  case (5 xs)
  then obtain d' where d: "d = Suc d'" by (cases d) auto
  have IH: "dec_value d' (marshal v @ r') = Some (sorted_json v, r')" if "v \<in> set xs" "delim r'" for v r'
  proof -
    have "depth v \<le> d'" using foldr_max_le [OF that(1), of depth] 5(3) d by simp
    with 5 that show ?thesis by (auto simp: list_all_iff)
  qed
  have n: "\<not> json_ws CHR ''[''" by (simp add: json_ws_def)
  show ?case
  proof (cases "xs = []")
    case True
    with d n show ?thesis by (simp add: dec_shape_def skip_ws_nonspace)
  next
    case False
    then obtain x xs' where x: "xs = x # xs'" by (cases xs) auto
    let ?t = "join_on '','' (map marshal xs) @ CHR '']'' # r"
    obtain c u where m: "marshal x = c # u" "\<not> json_ws c" "c \<noteq> CHR '']''"
      using marshal_head [of x] 5(2) x by auto
    have h: "\<not> prefix '']'' (skip_ws ?t)"
      using m x by (simp add: join_on_step skip_ws_nonspace)
    have "marshal v \<noteq> []" if "v \<in> set xs" for v
      using marshal_head [of v] 5(2) that by (auto simp: list_all_iff)
    then have "length (map marshal xs) \<le> length (join_on '','' (map marshal xs))"
      by (intro length_join) auto
    then have "length xs \<le> length ?t" by simp
    then have "dec_elems (\<lambda>u. dec_value d' u) (length ?t) ?t = Some (map sorted_json xs, r)"
      using False IH by (intro dec_elems_marshal) auto
    with h d n show ?thesis by (simp add: dec_shape_def skip_ws_nonspace)
  qed
next
  case (6 m)
  then obtain d' where d: "d = Suc d'" by (cases d) auto
  have p: "distinct (map fst m)" "\<forall>(k, v) \<in> set m. utf8 k \<and> printable v"
    using 6(2) by (simp_all add: list_all_iff)
  have IH: "dec_value d' (marshal (snd kv) @ r') = Some (sorted_json (snd kv), r')"
    if "kv \<in> set m" "delim r'" for kv r'
  proof -
    have "depth (snd kv) \<le> d'"
      using foldr_max_le [OF that(1), of "\<lambda>kv. depth (snd kv)"] 6(3) d by (simp add: case_prod_unfold)
    with 6(1) [of kv "fst kv" "snd kv"] p that show ?thesis by fastforce
  qed
  define ms where "ms = sort_members m"
  have set: "set ms = set m" by (simp add: ms_def sort_members_def)
  have dist: "distinct (map fst ms)"
    using p(1) by (metis ms_def sort_members_def mset_sort mset_map mset_eq_imp_distinct_iff)
  have enc: "marshal (JObj m) = ''{'' @ join_on '','' (map enc_member ms) @ ''}''"
    by (simp add: sort_members_map ms_def enc_member_def [abs_def]) (simp add: comp_def case_prod_unfold)
  have out: "sorted_json (JObj m) = JObj (map (\<lambda>(k, v). (k, sorted_json v)) ms)"
    by (simp add: sort_members_map ms_def)
  have "dec_shape put_member (Some (\<lambda>u. dec_value d' u))
      (''{'' @ join_on '','' (map enc_member ms) @ ''}'' @ r) =
    Some (JObj (map (\<lambda>(k, v). (k, sorted_json v)) ms), r)"
    using dist p(2) set IH by (intro dec_object) (auto simp: put_member_fresh)
  with d show ?case by (simp only: enc out) simp
qed

lemma decode_marshal:
  assumes "printable v" "depth v \<le> 10000" "delim r"
  shows "decode_first (marshal v @ r) = DecOk (sorted_json v) r"
proof -
  have "skip_ws (marshal v @ r) \<noteq> []"
    using skip_ws_marshal [OF assms(1)] marshal_head [OF assms(1)] by auto
  then show ?thesis using dec_marshal [OF assms] by (simp add: decode_first_def)
qed

lemma decode_all_marshal:
  "printable v \<Longrightarrow> depth v \<le> 10000 \<Longrightarrow> skip_ws r = [] \<Longrightarrow> delim r \<Longrightarrow>
     decode_all (marshal v @ r) = Some (sorted_json v)"
  by (simp add: decode_all_def decode_marshal)

text \<open>A struct with fields of simple types comes back field by field.\<close>

lemma struct_shape:
  assumes "distinct (map fst fs)" and "\<forall>(k, v) \<in> set fs. utf8 k \<and> printable v \<and> depth v = 0"
  shows "dec_shape add_member (Some (dec_value 9999)) (marshal_fields fs) = Some (JObj fs, [])"
proof -
  have e: "marshal_fields fs = ''{'' @ join_on '','' (map enc_member fs) @ ''}'' @ []"
    by (simp add: marshal_fields_def enc_member_def [abs_def] case_prod_unfold)
  have s: "sorted_json v = v" if "depth v = 0" for v using that by (cases v) simp_all
  have "dec_shape add_member (Some (dec_value 9999)) (marshal_fields fs) =
      Some (JObj (map (\<lambda>(k, v). (k, sorted_json v)) fs), [])"
    unfolding e using assms by (intro dec_object) (auto simp: add_member_def intro!: dec_marshal)
  moreover have "map (\<lambda>(k, v). (k, sorted_json v)) fs = fs"
    using assms(2) s by (intro map_idI) auto
  ultimately show ?thesis by simp
qed

lemma struct_marshal:
  assumes "distinct (map fst fs)" and "\<forall>(k, v) \<in> set fs. utf8 k \<and> printable v \<and> depth v = 0"
  shows "struct_members (marshal_fields fs) = Some fs"
  using struct_shape [OF assms] by (simp add: struct_members_def skip_ws_def)

subsection \<open>An encoded value is one line\<close>

definition no_newline :: "string \<Rightarrow> bool" where
  "no_newline s = (CHR 0x0A \<notin> set s)"

lemma no_newline_simps [simp]:
  "no_newline []" "no_newline (c # s) \<longleftrightarrow> c \<noteq> CHR 0x0A \<and> no_newline s"
  "no_newline (s @ t) \<longleftrightarrow> no_newline s \<and> no_newline t"
  by (auto simp: no_newline_def)

lemma lex_digits1_line: "lex_digits1 s = Some (x, r) \<Longrightarrow> no_newline x"
  by (auto simp: lex_digits1_def no_newline_def digit_def dest: set_takeWhileD split: if_splits)

lemma num_lit_line: "num_lit l \<Longrightarrow> no_newline l"
proof -
  assume "num_lit l"
  then obtain i s1 f s2 e s3 where p: "lex_int (if prefix ''-'' l then drop 1 l else l) = Some (i, s1)"
    "lex_frac s1 = Some (f, s2)" "lex_exp s2 = Some (e, s3)"
    "(if prefix ''-'' l then ''-'' else []) @ i @ f @ e = l"
    by (auto simp: num_lit_def lex_number_def Let_def split: option.splits)
  have "no_newline i" using p(1)
    by (auto simp: lex_int_def dest: lex_digits1_line split: list.splits if_splits)
  moreover have "no_newline f" using p(2)
    by (auto simp: lex_frac_def dest: lex_digits1_line split: list.splits if_splits)
  moreover have "no_newline e" using p(3)
    by (auto simp: lex_exp_def dest: lex_digits1_line split: list.splits if_splits)
  ultimately have "no_newline ((if prefix ''-'' l then ''-'' else []) @ i @ f @ e)" by simp
  with p(4) show ?thesis by simp
qed

lemma hex_digit_line: "hex_digit n \<noteq> CHR 0x0A"
proof
  assume "hex_digit n = CHR 0x0A"
  then have "hex_val CHR 0x0A = Some (n mod 16)" using hex_val_digit by metis
  moreover have "hex_val CHR 0x0A = None" by (simp add: hex_val_def digit_def)
  ultimately show False by simp
qed

lemma enc_ascii_line: "no_newline (enc_ascii c)"
  by (simp add: enc_ascii_def hex_digit_line)

lemma rune_high:
  assumes "s = a # t" "128 \<le> byte a"
  shows "list_all (\<lambda>x. 128 \<le> byte x) (take (rune_len s) s)"
  using assms by (simp add: rune_len_def cont_def split: list.split)

lemma rune_line: "s = a # t \<Longrightarrow> 128 \<le> byte a \<Longrightarrow> no_newline (take (rune_len s) s)"
  using rune_high [of s a t] by (auto simp: no_newline_def list_all_iff dest!: bspec)

lemma enc_bytes_line: "utf8 s \<Longrightarrow> no_newline (enc_bytes s)"
proof (induction "length s" arbitrary: s rule: less_induct)
  case less
  show ?case
  proof (cases s)
    case Nil
    then show ?thesis by (simp add: enc_bytes.simps)
  next
    case (Cons c t)
    show ?thesis
    proof (cases "byte c < 128")
      case True
      with Cons less show ?thesis by (subst enc_bytes.simps) (simp add: enc_ascii_line)
    next
      case False
      have n: "0 < rune_len s" "utf8 (drop (rune_len s) s)"
        using less.prems Cons utf8.simps [of s] by (simp_all only: split: if_splits) simp_all
      have "no_newline (enc_rune (take (rune_len s) s))"
        using rune_line [OF Cons] False by (simp add: enc_rune_def)
      moreover have "no_newline (enc_bytes (drop (rune_len s) s))"
        using n Cons by (intro less.hyps) simp_all
      ultimately show ?thesis using False n(1) Cons by (subst enc_bytes.simps) simp
    qed
  qed
qed

lemma join_on_line: "\<forall>x \<in> set xs. no_newline x \<Longrightarrow> no_newline sep \<Longrightarrow> no_newline (join_on sep xs)"
  by (induction xs) (auto simp: join_on_step)

lemma marshal_line: "printable v \<Longrightarrow> no_newline (marshal v)"
proof (induction v rule: marshal.induct)
  case (5 xs)
  then show ?case by (auto simp: list_all_iff intro!: join_on_line)
next
  case (6 m)
  then have "no_newline (enc_string k)" "no_newline (marshal v)" if "(k, v) \<in> set m" for k v
    using that by (auto simp: list_all_iff enc_string_def enc_bytes_line)
  then show ?case
    by (auto simp: sort_members_def intro!: join_on_line)
qed (simp_all add: num_lit_line enc_string_def enc_bytes_line)

end
