(* ===== verification/GoUtf8.thy ===== *)
theory GoUtf8
  imports GoRoundtrip
begin

section \<open>What the decoder returns is UTF-8\<close>

text \<open>
  The strings in a decoded JSON value are valid UTF-8, whatever the bytes of the text are; so the
  values that the plugin decodes are among those that GoRoundtrip encodes and reads back.
\<close>

subsection \<open>Concatenation\<close>

lemma rune_len_prefix:
  assumes "0 < rune_len s"
  shows "rune_len (s @ r) = rune_len s"
proof -
  have "rune_len (take (rune_len s) s @ drop (rune_len s) s @ r) = rune_len s"
    by (rule rune_len_append [OF assms])
  then show ?thesis by (simp flip: append_assoc)
qed

lemma utf8_step: "s \<noteq> [] \<Longrightarrow> utf8 s \<longleftrightarrow> 0 < rune_len s \<and> utf8 (drop (rune_len s) s)"
  by (subst utf8.simps) simp

lemma utf8_append: "utf8 a \<Longrightarrow> utf8 (a @ b) \<longleftrightarrow> utf8 b"
proof (induction "length a" arbitrary: a rule: less_induct)
  case less
  show ?case
  proof (cases "a = []")
    case False
    with less.prems have n: "0 < rune_len a" "utf8 (drop (rune_len a) a)"
      using utf8_step by blast+
    moreover have "utf8 (drop (rune_len a) a @ b) \<longleftrightarrow> utf8 b"
      using n False by (intro less.hyps) simp_all
    ultimately show ?thesis
      using False rune_len_prefix [OF n(1), of b] rune_len_pos_le [of a]
      by (subst utf8_step) simp_all
  qed simp
qed

lemma utf8_concat: "\<forall>s \<in> set ss. utf8 s \<Longrightarrow> utf8 (concat ss)"
  by (induction ss) (auto simp: utf8_append)

lemma utf8_take_rune:
  assumes "0 < rune_len s"
  shows "utf8 (take (rune_len s) s)"
proof -
  have "rune_len (take (rune_len s) s) = rune_len s"
    using rune_len_append [OF assms, of "[]"] by simp
  moreover have "take (rune_len s) s \<noteq> []" using assms rune_len_pos_le [of s] by auto
  ultimately show ?thesis using assms by (subst utf8_step) simp_all
qed

subsection \<open>Encoded runes\<close>

definition scalar :: "int \<Rightarrow> bool" where
  "scalar n = (0 \<le> n \<and> n < 1114112 \<and> \<not> (55296 \<le> n \<and> n < 57344))"

lemma byte_char_of: "0 \<le> k \<Longrightarrow> k < 256 \<Longrightarrow> byte (char_of k) = k"
  by (simp add: of_char_of)

lemma digits64:
  fixes n :: int
  assumes "0 \<le> n"
  shows "0 \<le> n mod 64 \<and> n mod 64 < 64 \<and> n = n div 64 * 64 + n mod 64 \<and> 0 \<le> n div 64"
  using assms by (simp add: pos_imp_zdiv_nonneg_iff)

lemma utf8_one_rune: "0 < rune_len s \<Longrightarrow> rune_len s = length s \<Longrightarrow> utf8 s"
  using utf8_take_rune [of s] by simp

lemma utf8_encode_rune:
  assumes "scalar n"
  shows "utf8 (encode_rune n)"
proof -
  define r0 where "r0 = n mod 64"
  define q1 where "q1 = n div 64"
  define r1 where "r1 = q1 mod 64"
  define q2 where "q2 = q1 div 64"
  define r2 where "r2 = q2 mod 64"
  define q3 where "q3 = q2 div 64"
  have n: "0 \<le> n" using assms by (simp add: scalar_def)
  have 0: "0 \<le> r0" "r0 < 64" "n = q1 * 64 + r0" "0 \<le> q1"
    using digits64 [OF n] by (simp_all add: r0_def q1_def)
  have 1: "0 \<le> r1" "r1 < 64" "q1 = q2 * 64 + r1" "0 \<le> q2"
    using digits64 [OF 0(4)] by (simp_all add: r1_def q2_def)
  have 2: "0 \<le> r2" "r2 < 64" "q2 = q3 * 64 + r2" "0 \<le> q3"
    using digits64 [OF 1(4)] by (simp_all add: r2_def q3_def)
  have d: "n div 64 = q1" "n mod 64 = r0" "n div 4096 = q2" "n div 64 mod 64 = r1"
    "n div 262144 = q3" "n div 4096 mod 64 = r2" "q1 mod 64 = r1" "q2 mod 64 = r2"
    by (simp_all add: q1_def r0_def q2_def r1_def q3_def r2_def zdiv_zmult2_eq [symmetric])
  consider "n < 128" | "128 \<le> n" "n < 2048" | "2048 \<le> n" "n < 65536" | "65536 \<le> n" by linarith
  then show ?thesis
  proof cases
    case 1
    then show ?thesis using n by (simp add: encode_rune_def byte_char_of)
  next
    case 2
    then have "2 \<le> q1" "q1 < 32" using 0 by linarith+
    then have "rune_len (encode_rune n) = 2 \<and> length (encode_rune n) = 2"
      using 2 0 by (simp add: encode_rune_def d rune_len_def cont_def byte_char_of)
    then show ?thesis by (intro utf8_one_rune) simp_all
  next
    case 3
    have q: "q2 < 16" "q2 = 0 \<Longrightarrow> 32 \<le> r1" "q2 = 13 \<Longrightarrow> r1 < 32"
      using 3 0 1 assms by (auto simp: scalar_def)
    have e: "encode_rune n = [char_of (224 + q2), char_of (128 + r1), char_of (128 + r0)]"
      unfolding encode_rune_def d using 3 by simp
    have "rune_len (encode_rune n) = 3 \<and> length (encode_rune n) = 3"
      unfolding e using q 0(1,2) 1(1,2,4) by (simp add: rune_len_def cont_def byte_char_of)
    then show ?thesis by (intro utf8_one_rune) simp_all
  next
    case 4
    have q: "q3 \<le> 4" "q3 = 0 \<Longrightarrow> 16 \<le> r2" "q3 = 4 \<Longrightarrow> r2 < 16"
      using 4 0 1 2 assms by (auto simp: scalar_def)
    have e: "encode_rune n = [char_of (240 + q3), char_of (128 + r2), char_of (128 + r1), char_of (128 + r0)]"
      unfolding encode_rune_def d using 4 by simp
    have "rune_len (encode_rune n) = 4 \<and> length (encode_rune n) = 4"
      unfolding e using q 0(1,2) 1(1,2) 2(1,2,4) by (simp add: rune_len_def cont_def byte_char_of)
    then show ?thesis by (intro utf8_one_rune) simp_all
  qed
qed

lemma hex_val_range: "hex_val c = Some n \<Longrightarrow> 0 \<le> n \<and> n < 16"
  by (auto simp: hex_val_def digit_def split: if_splits)

lemma hex4_range: "hex4 s = Some n \<Longrightarrow> 0 \<le> n \<and> n < 65536"
  by (auto simp: hex4_def split: list.splits option.splits dest!: hex_val_range)

lemma surrogate_scalar:
  assumes "0 \<le> r" "r < 65536" "surrogate r rest = (n, k)"
  shows "scalar n"
proof -
  have rep: "scalar replacement_rune" by (simp add: scalar_def replacement_rune_def)
  show ?thesis
  proof (cases "r < 55296 \<or> 57344 \<le> r")
    case True
    with assms show ?thesis by (auto simp: surrogate_def scalar_def)
  next
    case nsur: False
    show ?thesis
    proof (cases "n = replacement_rune")
      case False
      have "\<exists>l. 56320 \<le> l \<and> l < 57344 \<and> r < 56320 \<and> n = 65536 + (r - 55296) * 1024 + (l - 56320)"
        using assms(3) nsur False
        by (auto simp: surrogate_def simp del: distrib_right_numeral left_diff_distrib_numeral
            split: if_splits list.splits option.splits)
      then obtain l where l: "56320 \<le> l" "l < 57344" "r < 56320"
        "n = 65536 + (r - 55296) * 1024 + (l - 56320)" by blast
      have "0 \<le> r - 55296" "r - 55296 \<le> 1023" using nsur l(3) by linarith+
      then have "65536 \<le> n" and "n < 1114112" unfolding l(4) using l(1,2) by simp_all
      then show ?thesis by (simp add: scalar_def)
    qed (simp add: rep)
  qed
qed

subsection \<open>Decoded strings\<close>

lemma utf8_escape: "simple_escape e = Some x \<Longrightarrow> utf8 [x]"
  by (auto simp: simple_escape_def split: if_splits)

lemma dec_unit_utf8:
  assumes "dec_unit s = Some (x, r)"
  shows "utf8 x"
proof -
  have rep: "utf8 (encode_rune replacement_rune)"
    by (intro utf8_encode_rune) (simp add: scalar_def replacement_rune_def)
  from assms obtain c t where s: "s = c # t" by (cases s) (simp_all add: dec_unit_def)
  show ?thesis
  proof (cases "c = CHR 0x5C")
    case True
    with assms s obtain e u where t: "t = e # u" by (cases t) (simp_all add: dec_unit_def)
    show ?thesis
    proof (cases "e = CHR ''u''")
      case True
      with assms s t \<open>c = _\<close> obtain v n k where v: "hex4 u = Some v" "surrogate v (drop 4 u) = (n, k)"
        "x = encode_rune n"
        by (auto simp: dec_unit_def split: option.splits prod.splits)
      then have "scalar n" using hex4_range [OF v(1)] surrogate_scalar by blast
      with v(3) show ?thesis by (simp add: utf8_encode_rune)
    next
      case False
      with assms s t \<open>c = _\<close> show ?thesis
        by (auto simp: dec_unit_def utf8_escape split: option.splits)
    qed
  next
    case False
    show ?thesis
    proof (cases "rune_len s = 0")
      case True
      with assms s False have "x = encode_rune replacement_rune"
        by (auto simp: dec_unit_def split: if_splits)
      with rep show ?thesis by simp
    next
      case nz: False
      with assms s False have "x = take (rune_len s) s"
        by (auto simp: dec_unit_def split: if_splits)
      with nz show ?thesis by (simp add: utf8_take_rune)
    qed
  qed
qed

lemma dec_string_utf8: "dec_string s = Some (x, r) \<Longrightarrow> utf8 x"
proof (induction s arbitrary: x r rule: dec_string.induct)
  case (1 s)
  show ?case
  proof (cases "prefix [CHR 0x22] s")
    case True
    with 1(2) show ?thesis by (subst (asm) dec_string.simps) simp
  next
    case False
    with 1(2) obtain y z w where u: "dec_unit s = Some (y, z)" "dec_string z = Some (w, r)" "x = y @ w"
      by (subst (asm) dec_string.simps) (auto split: option.splits)
    with 1(1) [OF False u(1) refl] dec_unit_utf8 [OF u(1)] show ?thesis by (simp add: utf8_append)
  qed
qed

fun utf8_json :: "json \<Rightarrow> bool" where
  "utf8_json (JStr s) = utf8 s"
| "utf8_json (JArr xs) = list_all utf8_json xs"
| "utf8_json (JObj m) = list_all (\<lambda>(k, v). utf8 k \<and> utf8_json v) m"
| "utf8_json _ = True"

lemma dec_elems_utf8:
  assumes "\<And>u v r. p u = Some (v, r) \<Longrightarrow> utf8_json v"
  shows "dec_elems p n s = Some (vs, r) \<Longrightarrow> list_all utf8_json vs"
  by (induction n arbitrary: s vs) (auto split: option.splits list.splits if_splits dest!: assms)

lemma dec_key_utf8: "dec_key s = Some (k, r) \<Longrightarrow> utf8 k"
  by (auto simp: dec_key_def dest: dec_string_utf8 split: list.splits if_splits option.splits)

lemma dec_members_utf8:
  assumes "\<And>u v r. p u = Some (v, r) \<Longrightarrow> utf8_json v"
  shows "dec_members put_member p n m s = Some (m', r) \<Longrightarrow> utf8_json (JObj m) \<Longrightarrow> utf8_json (JObj m')"
proof (induction n arbitrary: m s)
  case (Suc n)
  from Suc.prems(1) obtain k s3 v s4 c t where
    k: "dec_key s = Some (k, s3)" "p s3 = Some (v, s4)" "skip_ws s4 = c # t"
    and step: "dec_members put_member p n (put_member k v m) t = Some (m', r) \<or> m' = put_member k v m"
    by (auto split: option.splits list.splits if_splits)
  have "utf8_json (JObj (put_member k v m))"
    using Suc.prems(2) dec_key_utf8 [OF k(1)] assms [OF k(2)]
    by (auto simp: put_member_def list_all_iff)
  with step Suc.IH show ?case by blast
qed simp

lemma dec_shape_utf8:
  assumes "\<And>p u v r. inner = Some p \<Longrightarrow> p u = Some (v, r) \<Longrightarrow> utf8_json v"
    and "dec_shape put_member inner s = Some (v, r)"
  shows "utf8_json v"
  using assms(2)
  by (auto simp: dec_shape_def literal_def split: list.splits if_splits option.splits
      dest!: dec_elems_utf8 [rotated] dec_members_utf8 [rotated] dest: assms(1) dec_string_utf8)

lemma dec_value_utf8: "dec_value d s = Some (v, r) \<Longrightarrow> utf8_json v"
proof (induction d arbitrary: s v r)
  case (Suc d)
  from Suc.prems have "dec_shape put_member (Some (\<lambda>u. dec_value d u)) s = Some (v, r)" by simp
  then show ?case by (rule dec_shape_utf8 [rotated]) (use Suc.IH in auto)
qed (auto intro: dec_shape_utf8 [rotated])

lemma decode_first_utf8: "decode_first s = DecOk v r \<Longrightarrow> utf8_json v"
  by (auto simp: decode_first_def dec_value_utf8 split: if_splits option.splits)

end
