(* ===== verification/Auth.thy ===== *)
theory Auth
  imports Models Payload GoTime GoUtf8
begin

section \<open>Authentication status (internal/provider/auth.go)\<close>

text \<open>
  The status of the agent (from its JSON or its text), the account it reports, and the storage of
  the credential: parsing it, printing it and refreshing it. The verdict on a status is
  characterised, and a stored credential comes back as it was.
\<close>

subsection \<open>Reading the status\<close>

text \<open>
  Where the code returns \<^verbatim>\<open>(known, authenticated)\<close>, the model returns \<open>None\<close> for an unknown
  status and \<open>Some\<close> of the second component for a known one.
\<close>

definition yes_words :: "string list" where
  "yes_words =
     [''authenticated'', ''logged-in'', ''logged in'', ''signed-in'', ''signed in'', ''ok'', ''true'']"

definition no_words :: "string list" where
  "no_words =
     [''unauthenticated'', ''not-authenticated'', ''not authenticated'', ''logged-out'',
      ''logged out'', ''not-logged-in'', ''not logged in'', ''signed-out'', ''signed out'',
      ''login-required'', ''login required'', ''false'']"

definition classifyAuthStatusString :: "string \<Rightarrow> bool option" where
  "classifyAuthStatusString v =
     (let s = join_on '' '' (GoStrings.fields (replace_all
                (trim_chars (to_lower (trim_space v)) [CHR 0x22, CHR 0x27]) ''_'' ''-''))
      in if List.member yes_words s then Some True
         else if List.member no_words s then Some False
         else None)"

text \<open>The truths that one member of an object states.\<close>

definition member_truths :: "string \<Rightarrow> json \<Rightarrow> bool list" where
  "member_truths k v =
     (let lk = to_lower (trim_space k)
      in if List.member [''isauthenticated'', ''authenticated'', ''loggedin''] lk
         then (case v of JBool b \<Rightarrow> [b] | _ \<Rightarrow> [])
         else if lk = ''status''
         then (case v of
                 JStr s \<Rightarrow> (case classifyAuthStatusString s of Some a \<Rightarrow> [a] | None \<Rightarrow> [])
               | _ \<Rightarrow> [])
         else [])"

fun auth_truths :: "json \<Rightarrow> bool list" where
  "auth_truths (JObj m) = concat (map (\<lambda>(k, v). member_truths k v @ auth_truths v) m)"
| "auth_truths (JArr xs) = concat (map auth_truths xs)"
| "auth_truths _ = []"

definition parseCursorAuthJSON :: "json \<Rightarrow> bool option" where
  "parseCursorAuthJSON v =
     (case auth_truths v of
        [] \<Rightarrow> None
      | first # rest \<Rightarrow> Some (if list_ex (\<lambda>b. b \<noteq> first) rest then False else first))"

definition no_phrases :: "string list" where
  "no_phrases = [''not logged in'', ''not authenticated'', ''unauthenticated'', ''login required'']"

definition yes_lines :: "string list" where
  "yes_lines =
     [''logged in'', ''authenticated'', ''status: authenticated'', ''status: logged in'',
      ''isauthenticated: true'', ''authenticated: true'', ''loggedin: true'']"

definition line_status :: "string \<Rightarrow> bool option" where
  "line_status line0 =
     (let line = trim_space line0
      in if line = [] then None
         else case classifyAuthStatusString line of
           Some a \<Rightarrow> Some a
         | None \<Rightarrow>
             (let lower = to_lower line
              in if list_ex (contains lower) no_phrases then Some False
                 else if List.member yes_lines lower then Some True
                 else None))"

definition parseCursorAuthText :: "string \<Rightarrow> bool option" where
  "parseCursorAuthText text = first_some line_status (split_on [CHR 0x0A] text)"

definition parseCursorAuthStatus :: "string \<Rightarrow> bool option" where
  "parseCursorAuthStatus stdout =
     (let text = trim_space stdout
      in if text = [] then None
         else case unmarshal_any stdout of
           Some raw \<Rightarrow> parseCursorAuthJSON raw
         | None \<Rightarrow> parseCursorAuthText text)"

subsection \<open>Reading \<^verbatim>\<open>agent about\<close>\<close>

record cursorAboutInfo =
  ab_Account :: string
  ab_Email :: string
  ab_Tier :: string
  ab_Version :: string

fun firstSafeString :: "json go_map \<Rightarrow> string list \<Rightarrow> string" where
  "firstSafeString raw [] = []"
| "firstSafeString raw (k # ks) =
     (if trim_space (str_at raw k) \<noteq> [] then trim_space (str_at raw k) else firstSafeString raw ks)"

definition safeAccountEmail :: "json option \<Rightarrow> string" where
  "safeAccountEmail v = (case v of Some (JObj m) \<Rightarrow> firstSafeString m [''email''] | _ \<Rightarrow> [])"

definition safeAccount :: "json option \<Rightarrow> string" where
  "safeAccount v =
     (case v of
        Some (JStr s) \<Rightarrow> trim_space s
      | Some (JObj m) \<Rightarrow> firstSafeString m [''email'', ''username'', ''name'']
      | _ \<Rightarrow> [])"

definition looksLikeEmail :: "string \<Rightarrow> bool" where
  "looksLikeEmail v0 =
     (let v = trim_space v0
      in contains v ''@'' \<and> \<not> contains_any v [CHR '' '', CHR 0x09, CHR 0x0D, CHR 0x0A])"

definition parseCursorAbout :: "string \<Rightarrow> (go_error, cursorAboutInfo) result" where
  "parseCursorAbout raw =
     (case (case decode_first (trim_space raw) of DecOk v rest \<Rightarrow> as_map v | _ \<Rightarrow> None) of
        None \<Rightarrow> Inl (PlainErr ''cursor agent about JSON was malformed'')
      | Some decoded \<Rightarrow>
          (let account = firstSafeString decoded [''account'', ''username'', ''name''];
               email = firstSafeString decoded [''userEmail'', ''user_email'', ''email'']
           in Inr \<lparr>ab_Account = (if account = [] then safeAccount (map_of decoded ''account'') else account),
                   ab_Email = (if email = [] then safeAccountEmail (map_of decoded ''account'') else email),
                   ab_Tier = firstSafeString decoded [''tier'', ''plan'', ''subscriptionTier'', ''subscription_tier''],
                   ab_Version = firstSafeString decoded
                     [''version'', ''cliVersion'', ''cli_version'', ''agentVersion'', ''agent_version'',
                      ''cursorVersion'', ''cursor_version'']\<rparr>))"

subsection \<open>Stored authentication\<close>

record cursorAuthStorage =
  as_Type :: string
  as_ExecutablePath :: string
  as_Email :: string
  as_Account :: string
  as_Tier :: string
  as_Version :: string
  as_StatusKnown :: bool
  as_Authenticated :: bool
  as_UpdatedAt :: string

definition new_storage :: "config \<Rightarrow> int \<Rightarrow> cursorAuthStorage" where
  "new_storage cfg t =
     \<lparr>as_Type = providerID, as_ExecutablePath = ExecutablePath cfg, as_Email = [], as_Account = [],
      as_Tier = [], as_Version = [], as_StatusKnown = False, as_Authenticated = False,
      as_UpdatedAt = rfc3339 t\<rparr>"

text \<open>The JSON of the storage; an empty field is left out, except the type.\<close>

definition optional :: "string \<Rightarrow> string \<Rightarrow> (string \<times> json) list" where
  "optional k s = (if s = [] then [] else [(k, JStr s)])"

definition optional_bool :: "string \<Rightarrow> bool \<Rightarrow> (string \<times> json) list" where
  "optional_bool k b = (if b then [(k, JBool True)] else [])"

definition storage_json :: "cursorAuthStorage \<Rightarrow> string" where
  "storage_json st =
     marshal_fields (
       [(''type'', JStr (as_Type st))] @ optional ''executable_path'' (as_ExecutablePath st) @
       optional ''email'' (as_Email st) @ optional ''account'' (as_Account st) @
       optional ''tier'' (as_Tier st) @ optional ''version'' (as_Version st) @
       optional_bool ''status_known'' (as_StatusKnown st) @
       optional_bool ''authenticated'' (as_Authenticated st) @
       optional ''updated_at'' (as_UpdatedAt st))"

text \<open>\<^verbatim>\<open>json.Unmarshal\<close> into an existing storage: a member of another type sets nothing.\<close>

definition set_storage_field :: "cursorAuthStorage \<Rightarrow> string \<times> json \<Rightarrow> cursorAuthStorage" where
  "set_storage_field st kv =
     (case kv of
        (k, JStr s) \<Rightarrow>
          if field_is ''type'' k then st\<lparr>as_Type := s\<rparr>
          else if field_is ''executable_path'' k then st\<lparr>as_ExecutablePath := s\<rparr>
          else if field_is ''email'' k then st\<lparr>as_Email := s\<rparr>
          else if field_is ''account'' k then st\<lparr>as_Account := s\<rparr>
          else if field_is ''tier'' k then st\<lparr>as_Tier := s\<rparr>
          else if field_is ''version'' k then st\<lparr>as_Version := s\<rparr>
          else if field_is ''updated_at'' k then st\<lparr>as_UpdatedAt := s\<rparr>
          else st
      | (k, JBool b) \<Rightarrow>
          if field_is ''status_known'' k then st\<lparr>as_StatusKnown := b\<rparr>
          else if field_is ''authenticated'' k then st\<lparr>as_Authenticated := b\<rparr>
          else st
      | _ \<Rightarrow> st)"

definition unmarshal_storage :: "string \<Rightarrow> cursorAuthStorage \<Rightarrow> cursorAuthStorage" where
  "unmarshal_storage raw st =
     (case struct_members raw of None \<Rightarrow> st | Some ms \<Rightarrow> foldl set_storage_field st ms)"

record authData =
  ad_Provider :: string
  ad_ID :: string
  ad_FileName :: string
  ad_Label :: string
  ad_StorageJSON :: string
  ad_Metadata :: "json go_map"
  ad_Attributes :: "string go_map"
  ad_NextRefreshAfter :: int

definition auth_data :: "cursorAuthStorage \<Rightarrow> string \<Rightarrow> state \<Rightarrow> authData \<times> state" where
  "auth_data st0 fileName0 sv =
     (let st = st0\<lparr>as_Type := providerID\<rparr>;
          fileName = (if trim_space fileName0 = [] then ''cursor-cli.json'' else trim_space fileName0);
          (t, sv1) = now sv
      in (\<lparr>ad_Provider = providerID, ad_ID = ''cursor-cli'', ad_FileName = fileName,
           ad_Label = firstNonEmpty [as_Email st, as_Account st, ''Cursor Agent CLI''],
           ad_StorageJSON = storage_json st,
           ad_Metadata =
             [(''type'', JStr providerID), (''auth_kind'', JStr ''oauth''),
              (''status_known'', JBool (as_StatusKnown st)),
              (''authenticated'', JBool (as_Authenticated st)),
              (''quota_source'',
               JStr ''CPA observed requests and official Cursor CLI status/about metadata''),
              (''quota_exposure'',
               JStr ''official Cursor CLI does not expose numeric remaining subscription quota'')] @
             optional ''email'' (as_Email st) @ optional ''account'' (as_Account st) @
             optional ''tier'' (as_Tier st) @ optional ''plan'' (as_Tier st) @
             optional ''version'' (as_Version st) @ optional ''cli_version'' (as_Version st),
           ad_Attributes =
             [(''auth_kind'', ''oauth''), (''boundary'', ''official-cursor-agent-cli''),
              (''secrets'', ''not-read-by-plugin'')] @
             (if as_Email st = [] then [] else [(''account_email'', as_Email st)]),
           ad_NextRefreshAfter = t + seconds 300\<rparr>, sv1))"

text \<open>\<open>ParseAuth\<close>: \<open>None\<close> for \<^verbatim>\<open>Handled: false\<close>.\<close>

definition parseAuth :: "string \<Rightarrow> string \<Rightarrow> string \<Rightarrow> state \<Rightarrow> authData option \<times> state" where
  "parseAuth provider rawJSON fileName sv =
     (if provider \<noteq> [] \<and> \<not> equal_fold provider providerID then (None, sv)
      else let (t, sv1) = now sv;
               st0 = new_storage (sv_config sv) t;
               st = (if rawJSON = [] then st0 else unmarshal_storage rawJSON st0);
               (auth, sv2) = auth_data st fileName sv1
           in (Some auth, sv2))"

subsection \<open>Asking the agent\<close>

definition enrich :: "cursorAboutInfo \<Rightarrow> cursorAuthStorage \<Rightarrow> cursorAuthStorage" where
  "enrich about st =
     (let st1 = (if ab_Account about \<noteq> [] then st\<lparr>as_Account := ab_Account about\<rparr> else st);
          st2 = (if ab_Email about \<noteq> [] then st1\<lparr>as_Email := ab_Email about\<rparr>
                 else if as_Email st1 = [] \<and> looksLikeEmail (ab_Account about)
                 then st1\<lparr>as_Email := ab_Account about\<rparr> else st1);
          st3 = (if ab_Tier about \<noteq> [] then st2\<lparr>as_Tier := ab_Tier about\<rparr> else st2)
      in if ab_Version about \<noteq> [] then st3\<lparr>as_Version := ab_Version about\<rparr> else st3)"

definition enrichStorageFromAbout ::
    "config \<Rightarrow> cursorAuthStorage \<Rightarrow> state \<Rightarrow> cursorAuthStorage \<times> state" where
  "enrichStorageFromAbout cfg st sv =
     (case run_agent cfg [''about'', ''--format'', ''json''] None False sv of
        ((res, Some e), sv1) \<Rightarrow> (st, sv1)
      | ((res, None), sv1) \<Rightarrow>
          (case parseCursorAbout (ar_Stdout res) of
             Inl e \<Rightarrow> (st, sv1)
           | Inr about \<Rightarrow> (enrich about st, sv1)))"

definition with_status :: "bool option \<Rightarrow> cursorAuthStorage \<Rightarrow> cursorAuthStorage" where
  "with_status r st =
     st\<lparr>as_StatusKnown := (r \<noteq> None), as_Authenticated := (r = Some True)\<rparr>"

text \<open>The two attempts to get the status: as JSON, and in the form of older versions.\<close>

definition run_status :: "config \<Rightarrow> state \<Rightarrow> agent_outcome \<times> state" where
  "run_status cfg sv =
     (let (r1, sv1) = run_agent cfg [''status'', ''--format'', ''json''] None False sv
      in if snd r1 = None then (r1, sv1) else run_agent cfg [''status''] None False sv1)"

definition statusStorage :: "state \<Rightarrow> (go_error, cursorAuthStorage) result \<times> state" where
  "statusStorage sv =
     (let cfg = sv_config sv;
          (t, sv1) = now sv;
          st = new_storage cfg t;
          ((res, err), sv2) = run_status cfg sv1
      in case err of
           Some e \<Rightarrow> (Inl e, sv2)
         | None \<Rightarrow>
             (let (st1, sv3) = enrichStorageFromAbout cfg
                    (with_status (parseCursorAuthStatus (ar_Stdout res)) st) sv2
              in (Inr st1, sv3)))"

definition refreshAuth :: "state \<Rightarrow> (go_error, authData \<times> int) result \<times> state" where
  "refreshAuth sv =
     (case statusStorage sv of
        (Inl e, sv1) \<Rightarrow> (Inl e, sv1)
      | (Inr st, sv1) \<Rightarrow>
          (let (auth, sv2) = auth_data st [] sv1;
               (t, sv3) = now sv2
           in (Inr (auth, t + seconds 300), sv3)))"

subsection \<open>The verdict on the status\<close>

text \<open>What the members of the objects in a value state, in any order.\<close>

definition states :: "json \<Rightarrow> bool \<Rightarrow> bool" where
  "states v b = (\<exists>m \<in> set (objects v). \<exists>(k, w) \<in> set m. b \<in> set (member_truths k w))"

lemma auth_truths_states: "b \<in> set (auth_truths v) \<longleftrightarrow> states v b"
proof (induction v rule: auth_truths.induct)
  case (1 m)
  have e: "(\<exists>x\<in>set m. b \<in> set (auth_truths (snd x))) = (\<exists>x\<in>set m. states (snd x) b)"
    using 1 by (metis prod.collapse)
  have "states (JObj m) b \<longleftrightarrow>
      (\<exists>x\<in>set m. b \<in> set (member_truths (fst x) (snd x))) \<or> (\<exists>x\<in>set m. states (snd x) b)"
    by (auto simp: states_def case_prod_unfold)
  then show ?case by (auto simp: case_prod_unfold e [symmetric])
next
  case (2 xs)
  then show ?case by (auto simp: states_def)
qed (auto simp: states_def)

lemma verdict_of_truths:
  "parseCursorAuthJSON v =
     (if states v False then Some False else if states v True then Some True else None)"
proof (cases "auth_truths v")
  case Nil
  then show ?thesis using auth_truths_states [of _ v] by (simp add: parseCursorAuthJSON_def)
next
  case (Cons first rest)
  then have s: "states v b \<longleftrightarrow> b = first \<or> b \<in> set rest" for b
    using auth_truths_states [of b v] by auto
  show ?thesis
    by (cases first) (auto simp: parseCursorAuthJSON_def Cons s list_ex_iff)
qed

subsection \<open>The stored authentication survives encoding and decoding\<close>

lemma storage_fields [simp]:
  "set_storage_field st (''type'', JStr s) = st\<lparr>as_Type := s\<rparr>"
  "set_storage_field st (''executable_path'', JStr s) = st\<lparr>as_ExecutablePath := s\<rparr>"
  "set_storage_field st (''email'', JStr s) = st\<lparr>as_Email := s\<rparr>"
  "set_storage_field st (''account'', JStr s) = st\<lparr>as_Account := s\<rparr>"
  "set_storage_field st (''tier'', JStr s) = st\<lparr>as_Tier := s\<rparr>"
  "set_storage_field st (''version'', JStr s) = st\<lparr>as_Version := s\<rparr>"
  "set_storage_field st (''updated_at'', JStr s) = st\<lparr>as_UpdatedAt := s\<rparr>"
  "set_storage_field st (''status_known'', JBool b) = st\<lparr>as_StatusKnown := b\<rparr>"
  "set_storage_field st (''authenticated'', JBool b) = st\<lparr>as_Authenticated := b\<rparr>"
  by (simp_all add: set_storage_field_def field_is_def equal_fold_def lower_char_def)

text \<open>A field that was left out leaves the empty value of a fresh storage as it is.\<close>

definition storage_members :: "cursorAuthStorage \<Rightarrow> (string \<times> json) list" where
  "storage_members st =
     [(''type'', JStr (as_Type st))] @ optional ''executable_path'' (as_ExecutablePath st) @
     optional ''email'' (as_Email st) @ optional ''account'' (as_Account st) @
     optional ''tier'' (as_Tier st) @ optional ''version'' (as_Version st) @
     optional_bool ''status_known'' (as_StatusKnown st) @
     optional_bool ''authenticated'' (as_Authenticated st) @
     optional ''updated_at'' (as_UpdatedAt st)"

definition blank :: "cursorAuthStorage \<Rightarrow> bool" where
  "blank b =
     (as_Email b = [] \<and> as_Account b = [] \<and> as_Tier b = [] \<and> as_Version b = [] \<and>
      \<not> as_StatusKnown b \<and> \<not> as_Authenticated b)"

definition utf8_storage :: "cursorAuthStorage \<Rightarrow> bool" where
  "utf8_storage st =
     (list_all utf8 [as_Type st, as_ExecutablePath st, as_Email st, as_Account st, as_Tier st,
        as_Version st, as_UpdatedAt st])"

lemma foldl_optional:
  "s \<noteq> [] \<Longrightarrow> foldl set_storage_field b (optional ''executable_path'' s) = b\<lparr>as_ExecutablePath := s\<rparr>"
  "s \<noteq> [] \<Longrightarrow> foldl set_storage_field b (optional ''updated_at'' s) = b\<lparr>as_UpdatedAt := s\<rparr>"
  "as_Email b = [] \<Longrightarrow> foldl set_storage_field b (optional ''email'' s) = b\<lparr>as_Email := s\<rparr>"
  "as_Account b = [] \<Longrightarrow> foldl set_storage_field b (optional ''account'' s) = b\<lparr>as_Account := s\<rparr>"
  "as_Tier b = [] \<Longrightarrow> foldl set_storage_field b (optional ''tier'' s) = b\<lparr>as_Tier := s\<rparr>"
  "as_Version b = [] \<Longrightarrow> foldl set_storage_field b (optional ''version'' s) = b\<lparr>as_Version := s\<rparr>"
  "\<not> as_StatusKnown b \<Longrightarrow>
     foldl set_storage_field b (optional_bool ''status_known'' v) = b\<lparr>as_StatusKnown := v\<rparr>"
  "\<not> as_Authenticated b \<Longrightarrow>
     foldl set_storage_field b (optional_bool ''authenticated'' v) = b\<lparr>as_Authenticated := v\<rparr>"
  by (simp_all add: optional_def optional_bool_def)

lemma storage_members_restore:
  assumes "blank b" "as_ExecutablePath st \<noteq> []" "as_UpdatedAt st \<noteq> []"
  shows "foldl set_storage_field b (storage_members st) = st"
  using assms by (simp add: storage_members_def blank_def foldl_optional)

lemma storage_members_distinct: "distinct (map fst (storage_members st))"
proof -
  have o: "subseq (map fst (optional k s)) [k]" "subseq (map fst (optional_bool k b)) [k]" for k s b
    by (simp_all add: optional_def optional_bool_def)
  have "subseq (map fst (storage_members st))
      ([''type''] @ [''executable_path''] @ [''email''] @ [''account''] @ [''tier''] @ [''version''] @
       [''status_known''] @ [''authenticated''] @ [''updated_at''])"
    unfolding storage_members_def map_append by (intro list_emb_append_mono o) simp_all
  then show ?thesis by (rule subseq_distinct) simp
qed

lemma utf8_ascii: "list_all (\<lambda>c. byte c < 128) s \<Longrightarrow> utf8 s"
  by (induction s) simp_all

lemma storage_members_plain:
  assumes "utf8_storage st"
  shows "\<forall>(k, v) \<in> set (storage_members st). utf8 k \<and> printable v \<and> depth v = 0"
  using assms
  by (auto simp: storage_members_def optional_def optional_bool_def utf8_storage_def
      intro!: utf8_ascii split: if_splits)

lemma unmarshal_storage_json:
  assumes "utf8_storage st" "blank b" "as_ExecutablePath st \<noteq> []" "as_UpdatedAt st \<noteq> []"
  shows "unmarshal_storage (storage_json st) b = st"
  using struct_marshal [OF storage_members_distinct storage_members_plain [OF assms(1)]]
    storage_members_restore [OF assms(2-4)]
  by (simp add: unmarshal_storage_def storage_json_def storage_members_def)

subsection \<open>The status of the agent\<close>

lemma enrich_flags [simp]:
  "as_StatusKnown (enrich ab st) = as_StatusKnown st" "as_Authenticated (enrich ab st) = as_Authenticated st"
  "as_Type (enrich ab st) = as_Type st" "as_ExecutablePath (enrich ab st) = as_ExecutablePath st"
  "as_UpdatedAt (enrich ab st) = as_UpdatedAt st"
  by (simp_all add: enrich_def Let_def)

lemma enrichStorage_flags [simp]:
  "as_StatusKnown (fst (enrichStorageFromAbout cfg st sv)) = as_StatusKnown st"
  "as_Authenticated (fst (enrichStorageFromAbout cfg st sv)) = as_Authenticated st"
  "as_ExecutablePath (fst (enrichStorageFromAbout cfg st sv)) = as_ExecutablePath st"
  "as_UpdatedAt (fst (enrichStorageFromAbout cfg st sv)) = as_UpdatedAt st"
  by (simp_all add: enrichStorageFromAbout_def split: prod.split option.split sum.split)

lemma enrichStorage_state [simp]:
  "snd (enrichStorageFromAbout cfg st sv) = snd (run_agent cfg [''about'', ''--format'', ''json''] None False sv)"
  by (simp add: enrichStorageFromAbout_def split: prod.split option.split sum.split)

lemma statusStorage_eq:
  "statusStorage sv =
     (let cfg = sv_config sv;
          r = run_status cfg (snd (now sv));
          st = with_status (parseCursorAuthStatus (ar_Stdout (fst (fst r)))) (new_storage cfg (fst (now sv)))
      in case snd (fst r) of
           Some e \<Rightarrow> (Inl e, snd r)
         | None \<Rightarrow> (Inr (fst (enrichStorageFromAbout cfg st (snd r))), snd (enrichStorageFromAbout cfg st (snd r))))"
  by (simp add: statusStorage_def Let_def case_prod_unfold del: now_sel enrichStorage_state split: option.split)

text \<open>The flags that \<open>statusStorage\<close> reports are exactly what the output of that run states.\<close>

lemma statusStorage_flags:
  assumes "fst (statusStorage sv) = Inr st"
  shows "\<exists>res. fst (run_status (sv_config sv) (snd (now sv))) = (res, None) \<and>
    (as_StatusKnown st \<longleftrightarrow> parseCursorAuthStatus (ar_Stdout res) \<noteq> None) \<and>
    (as_Authenticated st \<longleftrightarrow> parseCursorAuthStatus (ar_Stdout res) = Some True)"
  using assms
  by (cases "fst (run_status (sv_config sv) (snd (now sv)))")
    (auto simp: statusStorage_eq Let_def with_status_def simp del: now_sel split: option.splits)

lemma run_status_same: "same_service sv (snd (run_status cfg sv))"
  by (simp add: run_status_def Let_def split_beta) (meson run_agent_same same_service_trans)

lemma run_status_clean [keeps]:
  "clean_trace {} 0 (trace sv) \<Longrightarrow> clean_trace {} 0 (trace (snd (run_status cfg sv)))"
  by (simp add: run_status_def Let_def split_beta run_agent_clean)

lemma statusStorage_same: "same_service sv (snd (statusStorage sv))"
proof -
  have "same_service sv (snd (run_status (sv_config sv) (snd (now sv))))"
    using now_same run_status_same same_service_trans by blast
  then show ?thesis
    using run_agent_same same_service_trans
    by (auto simp: statusStorage_eq Let_def simp del: now_sel split: option.split)
qed

lemma auth_data_same: "same_service sv (snd (auth_data st f sv))"
  by (simp add: auth_data_def Let_def same_service_def now_def)

lemma statusStorage_clean [keeps]:
  assumes "clean_trace {} 0 (trace sv)"
  shows "clean_trace {} 0 (trace (snd (statusStorage sv)))"
proof -
  have "clean_trace {} 0 (trace (snd (now sv)))" using assms by simp
  then have "clean_trace {} 0 (trace (snd (run_status (sv_config sv) (snd (now sv)))))"
    by (rule run_status_clean)
  then show ?thesis
    by (auto simp: statusStorage_eq Let_def run_agent_clean simp del: now_sel split: option.split)
qed

subsection \<open>Properties\<close>

text \<open>
  C23: The JSON status of the agent means authenticated exactly when some member of some object in
  it, at any depth, states so and none states the opposite; a single negative statement wins, and
  without a statement the status is unknown. Hence the verdict does not depend on the order in
  which Go iterates over the maps.
\<close>

theorem auth_verdict:
  "(parseCursorAuthJSON v = Some True \<longleftrightarrow> states v True \<and> \<not> states v False) \<and>
   (parseCursorAuthJSON v = Some False \<longleftrightarrow> states v False) \<and>
   (parseCursorAuthJSON v = None \<longleftrightarrow> \<not> states v True \<and> \<not> states v False)"
  by (simp add: verdict_of_truths)

lemma auth_data_storage:
  "ad_StorageJSON (fst (auth_data st f sv)) = storage_json (st\<lparr>as_Type := providerID\<rparr>)"
  by (simp add: auth_data_def Let_def case_prod_unfold)

lemma auth_data_fields:
  "ad_Label (fst (auth_data st f sv)) = ad_Label (fst (auth_data (st\<lparr>as_Type := providerID\<rparr>) g sv'))"
  "ad_Metadata (fst (auth_data st f sv)) = ad_Metadata (fst (auth_data (st\<lparr>as_Type := providerID\<rparr>) g sv'))"
  "ad_Attributes (fst (auth_data st f sv)) = ad_Attributes (fst (auth_data (st\<lparr>as_Type := providerID\<rparr>) g sv'))"
  by (simp_all add: auth_data_def Let_def case_prod_unfold)

lemma storage_json_ne [simp]: "storage_json st \<noteq> []"
  by (simp add: storage_json_def marshal_fields_def)

lemma blank_new_storage [simp]: "blank (new_storage cfg t)"
  by (simp add: blank_def new_storage_def)

text \<open>
  C18: What the plugin stores for an authentication is read back unchanged: \<open>ParseAuth\<close> of the stored
  JSON rebuilds the storage exactly (with the type of this provider) and gives the same stored
  JSON, label, metadata and attributes again, whatever the configuration and the time are by then.
\<close>

theorem auth_storage_roundtrip:
  assumes "utf8_storage st" "as_ExecutablePath st \<noteq> []" "as_UpdatedAt st \<noteq> []"
    and "provider = [] \<or> equal_fold provider providerID"
    and "ad = fst (auth_data st f sv)"
  shows "unmarshal_storage (ad_StorageJSON ad) (new_storage cfg t) = st\<lparr>as_Type := providerID\<rparr> \<and>
    (\<exists>ad'. fst (parseAuth provider (ad_StorageJSON ad) g sv') = Some ad' \<and>
       ad_StorageJSON ad' = ad_StorageJSON ad \<and> ad_Label ad' = ad_Label ad \<and>
       ad_Metadata ad' = ad_Metadata ad \<and> ad_Attributes ad' = ad_Attributes ad)"
proof -
  let ?st = "st\<lparr>as_Type := providerID\<rparr>"
  have "utf8 providerID" by (intro utf8_ascii) (simp add: providerID_def)
  then have u: "utf8_storage ?st" using assms(1) by (simp add: utf8_storage_def)
  have restored: "unmarshal_storage (ad_StorageJSON ad) (new_storage cfg t) = ?st" for cfg t
    unfolding assms(5) auth_data_storage using assms(2,3) by (intro unmarshal_storage_json u) simp_all
  have "fst (parseAuth provider (ad_StorageJSON ad) g sv') = Some (fst (auth_data ?st g (snd (now sv'))))"
    using assms(4) restored
    by (simp add: parseAuth_def Let_def case_prod_unfold assms(5) auth_data_storage del: now_sel)
  then show ?thesis
    using restored auth_data_fields [of st f sv] by (auto simp: assms(5) auth_data_storage)
qed

definition sample_storage :: cursorAuthStorage where
  "sample_storage =
     \<lparr>as_Type = ''old'', as_ExecutablePath = ''agent'', as_Email = ''a@b.c'', as_Account = [],
      as_Tier = ''pro'', as_Version = [], as_StatusKnown = True, as_Authenticated = True,
      as_UpdatedAt = ''0001-01-01T00:00:00Z''\<rparr>"

theorem auth_storage_roundtrip_witness:
  "as_Email (unmarshal_storage
     (ad_StorageJSON (fst (auth_data sample_storage [] (new_service ''/tmp'' (\<lambda>_. sample_os) (\<lambda>_. 0)))))
     (new_storage sample_config 0)) = ''a@b.c''"
proof -
  have "utf8_storage sample_storage"
    by (simp add: utf8_storage_def sample_storage_def)
  moreover have "equal_fold ''Cursor'' providerID" by code_simp
  ultimately show ?thesis
    using auth_storage_roundtrip [of sample_storage "''Cursor''" _ "[]"
        "new_service ''/tmp'' (\<lambda>_. sample_os) (\<lambda>_. 0)" sample_config 0]
    by (simp add: sample_storage_def)
qed

end
