(* ===== verification/GoUrl.thy ===== *)
theory GoUrl
  imports GoRegexp GoJson Errors
begin

section \<open>Go's net/url package\<close>

text \<open>
  \<^verbatim>\<open>url.Parse\<close>, \<^verbatim>\<open>URL.Hostname\<close> and \<^verbatim>\<open>URL.String\<close> as the plugin uses them. The user
  part of an authority is checked and dropped, since nothing reads it. Whether the text in
  square brackets is an IPv6 address (\<^verbatim>\<open>netip.ParseAddr\<close>) is the argument \<open>ip6\<close>.
\<close>

record url =
  u_Scheme :: string
  u_Opaque :: string
  u_Host :: string
  u_Path :: string
  u_RawPath :: string
  u_OmitHost :: bool
  u_ForceQuery :: bool
  u_RawQuery :: string
  u_Fragment :: string
  u_RawFragment :: string

definition no_url :: url where
  "no_url = \<lparr>u_Scheme = [], u_Opaque = [], u_Host = [], u_Path = [], u_RawPath = [],
     u_OmitHost = False, u_ForceQuery = False, u_RawQuery = [], u_Fragment = [], u_RawFragment = []\<rparr>"

subsection \<open>Escapes\<close>

datatype encoding = EncPath | EncFragment | EncUser | EncHost | EncZone

definition alnum :: "char \<Rightarrow> bool" where
  "alnum c = (word_char c \<and> c \<noteq> CHR ''_'')"

definition host_char :: "char \<Rightarrow> bool" where
  "host_char c = List.member (CHR 0x22 # CHR 0x27 # ''!$&()*+,;=:[]<>'') c"

definition shouldEscape :: "char \<Rightarrow> encoding \<Rightarrow> bool" where
  "shouldEscape c mode =
     (if alnum c then False
      else if (mode = EncHost \<or> mode = EncZone) \<and> host_char c then False
      else if List.member ''-_.~'' c then False
      else if List.member ''$&+,/:;=?@'' c then
        (case mode of
           EncPath \<Rightarrow> c = CHR ''?''
         | EncUser \<Rightarrow> List.member ''@/?:'' c
         | EncFragment \<Rightarrow> False
         | _ \<Rightarrow> True)
      else if mode = EncFragment \<and> List.member ''!()*'' c then False
      else True)"

definition upper_hex :: "int \<Rightarrow> char" where
  "upper_hex n = (let d = n mod 16 in char_of (if d < 10 then 48 + d else 55 + d))"

definition escape :: "string \<Rightarrow> encoding \<Rightarrow> string" where
  "escape s mode =
     concat (map (\<lambda>c. if shouldEscape c mode
       then [CHR 0x25, upper_hex (byte c div 16), upper_hex (byte c)] else [c]) s)"

definition escape_error :: "string \<Rightarrow> string" where
  "escape_error s = ''invalid URL escape '' @ quoted s"

fun unescape :: "encoding \<Rightarrow> string \<Rightarrow> (string, string) result" where
  "unescape mode [] = Inr []"
| "unescape mode (c # s) =
     (if c = CHR 0x25 then
        (case s of
           a # b # t \<Rightarrow>
             (case (hex_val a, hex_val b) of
                (Some x, Some y) \<Rightarrow>
                  if mode = EncHost \<and> x < 8 \<and> \<not> (a = CHR ''2'' \<and> b = CHR ''5'') \<or>
                     mode = EncZone \<and> \<not> (a = CHR ''2'' \<and> b = CHR ''5'') \<and> x * 16 + y \<noteq> 32 \<and>
                       shouldEscape (char_of (x * 16 + y)) EncHost
                  then Inl (escape_error [c, a, b])
                  else map_sum (\<lambda>e. e) (\<lambda>t'. char_of (x * 16 + y) # t') (unescape mode t)
              | _ \<Rightarrow> Inl (escape_error [c, a, b]))
         | _ \<Rightarrow> Inl (escape_error (c # s)))
      else if (mode = EncHost \<or> mode = EncZone) \<and> byte c < 128 \<and> shouldEscape c mode
      then Inl (''invalid character '' @ quoted [c] @ '' in host name'')
      else map_sum (\<lambda>e. e) (\<lambda>t'. c # t') (unescape mode s))"

definition validEncoded :: "string \<Rightarrow> encoding \<Rightarrow> bool" where
  "validEncoded s mode =
     list_all (\<lambda>c. List.member (CHR 0x27 # CHR 0x25 # ''!$&()*+,;=:@[]'') c \<or> \<not> shouldEscape c mode) s"

subsection \<open>The authority\<close>

definition last_index :: "char \<Rightarrow> string \<Rightarrow> nat option" where
  "last_index c s =
     (if c \<in> set s then Some (length s - 1 - length (takeWhile (\<lambda>d. d \<noteq> c) (rev s))) else None)"

definition validOptionalPort :: "string \<Rightarrow> bool" where
  "validOptionalPort p = (case p of [] \<Rightarrow> True | c # ds \<Rightarrow> c = CHR '':'' \<and> list_all digit ds)"

definition port_error :: "string \<Rightarrow> string" where
  "port_error p = ''invalid port '' @ quoted p @ '' after host''"

text \<open>A host in brackets; \<open>h\<close> is the text from the bracket on.\<close>

definition parse_ip_literal :: "(string \<Rightarrow> bool) \<Rightarrow> string \<Rightarrow> (string, string) result" where
  "parse_ip_literal ip6 h =
     (case last_index CHR '']'' h of
        None \<Rightarrow> Inl (''missing '' @ quoted '']'' @ '' in host'')
      | Some i \<Rightarrow>
          if \<not> validOptionalPort (drop (Suc i) h) then Inl (port_error (drop (Suc i) h))
          else case unescape EncHost (drop (Suc i) h) of
            Inl e \<Rightarrow> Inl e
          | Inr port \<Rightarrow>
              (let name = take (i - 1) (drop 1 h);
                   r = (case index_of [CHR 0x25, CHR ''2'', CHR ''5''] name of
                          None \<Rightarrow> unescape EncHost name
                        | Some z \<Rightarrow>
                            (case unescape EncHost (take z name) of
                               Inl e \<Rightarrow> Inl e
                             | Inr a \<Rightarrow> map_sum (\<lambda>e. e) (\<lambda>b. a @ b) (unescape EncZone (drop z name))))
               in case r of
                    Inl e \<Rightarrow> Inl e
                  | Inr host \<Rightarrow>
                      if ip6 host then Inr (''['' @ host @ '']'' @ port) else Inl ''invalid host''))"

definition parseHost :: "(string \<Rightarrow> bool) \<Rightarrow> string \<Rightarrow> (string, string) result" where
  "parseHost ip6 host =
     (case last_index CHR ''['' host of
        Some 0 \<Rightarrow> parse_ip_literal ip6 host
      | Some _ \<Rightarrow> Inl ''invalid IP-literal''
      | None \<Rightarrow>
          (case index_of '':'' host of
             Some i \<Rightarrow>
               if \<not> validOptionalPort (drop i host) then Inl (port_error (drop i host))
               else unescape EncHost host
           | None \<Rightarrow> unescape EncHost host))"

definition user_char :: "char \<Rightarrow> bool" where
  "user_char c = (alnum c \<or> List.member (CHR 0x27 # CHR 0x25 # ''-._:~!$&()*+,;=@'') c)"

definition parseAuthority :: "(string \<Rightarrow> bool) \<Rightarrow> string \<Rightarrow> (string, string) result" where
  "parseAuthority ip6 a =
     (case last_index CHR ''@'' a of
        None \<Rightarrow> parseHost ip6 a
      | Some i \<Rightarrow>
          (case parseHost ip6 (drop (Suc i) a) of
             Inl e \<Rightarrow> Inl e
           | Inr host \<Rightarrow>
               if \<not> list_all user_char (take i a) then Inl ''net/url: invalid userinfo''
               else case unescape EncUser (take i a) of Inl e \<Rightarrow> Inl e | Inr _ \<Rightarrow> Inr host))"

subsection \<open>\<^verbatim>\<open>url.Parse\<close>\<close>

text \<open>\<^verbatim>\<open>strings.Cut\<close>; without the separator all is before it.\<close>

definition cut_at :: "string \<Rightarrow> string \<Rightarrow> string \<times> string" where
  "cut_at sep s =
     (case index_of sep s of None \<Rightarrow> (s, []) | Some i \<Rightarrow> (take i s, drop (i + length sep) s))"

definition letter :: "char \<Rightarrow> bool" where
  "letter c = (alnum c \<and> \<not> digit c)"

text \<open>\<open>getScheme\<close>: the scheme and the rest, or no scheme.\<close>

definition getScheme :: "string \<Rightarrow> (string, string \<times> string) result" where
  "getScheme raw =
     (let s = takeWhile (\<lambda>c. alnum c \<or> List.member ''+-.'' c) raw;
          rest = drop (length s) raw
      in if s \<noteq> [] \<and> \<not> letter (hd s) then Inr ([], raw)
         else case rest of
           [] \<Rightarrow> Inr ([], raw)
         | c # t \<Rightarrow>
             if c \<noteq> CHR '':'' then Inr ([], raw)
             else if s = [] then Inl ''missing protocol scheme''
             else Inr (s, t))"

definition set_path :: "string \<Rightarrow> url \<Rightarrow> (string, url) result" where
  "set_path p u =
     (case unescape EncPath p of
        Inl e \<Rightarrow> Inl e
      | Inr path \<Rightarrow> Inr (u\<lparr>u_Path := path, u_RawPath := (if escape path EncPath = p then [] else p)\<rparr>))"

definition set_fragment :: "string \<Rightarrow> url \<Rightarrow> (string, url) result" where
  "set_fragment f u =
     (case unescape EncFragment f of
        Inl e \<Rightarrow> Inl e
      | Inr frag \<Rightarrow>
          Inr (u\<lparr>u_Fragment := frag, u_RawFragment := (if escape frag EncFragment = f then [] else f)\<rparr>))"

definition parse_hier :: "(string \<Rightarrow> bool) \<Rightarrow> string \<Rightarrow> url \<Rightarrow> (string, url) result" where
  "parse_hier ip6 rest u =
     (if (u_Scheme u \<noteq> [] \<or> \<not> prefix ''///'' rest) \<and> prefix ''//'' rest then
        (let a = takeWhile (\<lambda>c. c \<noteq> CHR ''/'') (drop 2 rest);
             path = drop (length a) (drop 2 rest)
         in case parseAuthority ip6 a of
              Inl e \<Rightarrow> Inl e
            | Inr host \<Rightarrow> set_path path (u\<lparr>u_Host := host\<rparr>))
      else set_path rest (u\<lparr>u_OmitHost := (u_Scheme u \<noteq> [] \<and> prefix ''/'' rest)\<rparr>))"

definition parse_url :: "(string \<Rightarrow> bool) \<Rightarrow> string \<Rightarrow> (string, url) result" where
  "parse_url ip6 raw =
     (if list_ex (\<lambda>c. byte c < 32 \<or> byte c = 127) raw
      then Inl ''net/url: invalid control character in URL''
      else if raw = ''*'' then Inr (no_url\<lparr>u_Path := ''*''\<rparr>)
      else case getScheme raw of
        Inl e \<Rightarrow> Inl e
      | Inr (scheme, rest0) \<Rightarrow>
          (let force = (rest0 \<noteq> [] \<and> last rest0 = CHR ''?'' \<and> CHR ''?'' \<notin> set (butlast rest0));
               (rest, query) = (if force then (butlast rest0, []) else cut_at ''?'' rest0);
               u = no_url\<lparr>u_Scheme := to_lower scheme, u_ForceQuery := force, u_RawQuery := query\<rparr>
           in if \<not> prefix ''/'' rest \<and> u_Scheme u \<noteq> [] then Inr (u\<lparr>u_Opaque := rest\<rparr>)
              else if \<not> prefix ''/'' rest \<and> contains (fst (cut_at ''/'' rest)) '':''
              then Inl ''first path segment in URL cannot contain colon''
              else parse_hier ip6 rest u))"

definition parse_error :: "string \<Rightarrow> string \<Rightarrow> go_error" where
  "parse_error raw e = PlainErr (''parse '' @ quoted raw @ '': '' @ e)"

definition url_Parse :: "(string \<Rightarrow> bool) \<Rightarrow> string \<Rightarrow> (go_error, url) result" where
  "url_Parse ip6 raw =
     (let (s, frag) = cut_at ''#'' raw
      in case parse_url ip6 s of
           Inl e \<Rightarrow> Inl (parse_error s e)
         | Inr u \<Rightarrow>
             if frag = [] then Inr u
             else map_sum (parse_error raw) (\<lambda>u'. u') (set_fragment frag u))"

subsection \<open>Reading a URL\<close>

definition url_Hostname :: "url \<Rightarrow> string" where
  "url_Hostname u =
     (let h = u_Host u;
          name = (case last_index CHR '':'' h of
                    None \<Rightarrow> h
                  | Some i \<Rightarrow> if validOptionalPort (drop i h) then take i h else h)
      in if prefix ''['' name \<and> last name = CHR '']'' then butlast (drop 1 name) else name)"

definition escaped :: "encoding \<Rightarrow> string \<Rightarrow> string \<Rightarrow> string" where
  "escaped mode raw s =
     (if raw \<noteq> [] \<and> validEncoded raw mode \<and> unescape mode raw = Inr s then raw
      else if mode = EncPath \<and> s = ''*'' then [CHR 0x25, CHR ''2'', CHR ''A'']
      else escape s mode)"

text \<open>\<^verbatim>\<open>String\<close> of a URL with a scheme and a host.\<close>

definition url_String :: "url \<Rightarrow> string" where
  "url_String u =
     (let path = escaped EncPath (u_RawPath u) (u_Path u)
      in u_Scheme u @ ''://'' @ escape (u_Host u) EncHost @
         (if path \<noteq> [] \<and> \<not> prefix ''/'' path then ''/'' else []) @ path @
         (if u_ForceQuery u \<or> u_RawQuery u \<noteq> [] then ''?'' @ u_RawQuery u else []) @
         (if u_Fragment u \<noteq> [] then ''#'' @ escaped EncFragment (u_RawFragment u) (u_Fragment u) else []))"

lemma url_samples:
  "map_sum (\<lambda>_. ()) url_String (url_Parse (\<lambda>_. False) ''HTTPS://cursor.com/a%2Fb?x=1#f'') =
     Inr ''https://cursor.com/a%2Fb?x=1#f''"
  "map_sum (\<lambda>_. ()) url_Hostname (url_Parse (\<lambda>_. False) ''http://u:p@localhost:80/x'') = Inr ''localhost''"
  "map_sum error_text url_Hostname (url_Parse (\<lambda>_. False) ''http://a b/'') =
     Inl (''parse '' @ quoted ''http://a b/'' @ '': invalid character '' @ quoted '' '' @ '' in host name'')"
  by code_simp+

subsection \<open>URLs of a known host\<close>

lemma cut_at_byte: "fst (cut_at [c] s) = takeWhile (\<lambda>d. d \<noteq> c) s"
proof (induction s)
  case (Cons d s)
  then show ?case
    by (cases "index_of [c] s") (auto simp: cut_at_def split: if_splits)
qed (simp add: cut_at_def)

lemma takeWhile_absent:
  "c \<notin> set h \<Longrightarrow> takeWhile (\<lambda>d. d \<noteq> c) (h @ s) = h @ takeWhile (\<lambda>d. d \<noteq> c) s"
  by (induction h) auto

text \<open>Parsing keeps a scheme and a host that need no escape, and a path that begins with a slash.\<close>

lemma parse_url_https:
  assumes "parse_url ip6 (''https://'' @ h @ ''/'' @ r) = Inr u"
    and h: "CHR ''/'' \<notin> set h" "CHR ''?'' \<notin> set h" "parseAuthority ip6 h = Inr h"
  shows "u_Scheme u = ''https'' \<and> u_Host u = h \<and> u_Opaque u = [] \<and>
    (\<exists>t. u_Path u = CHR ''/'' # t) \<and> (u_RawPath u = [] \<or> (\<exists>t. u_RawPath u = CHR ''/'' # t))"
proof -
  let ?raw = "''https://'' @ h @ ''/'' @ r"
  have scheme: "getScheme ?raw = Inr (''https'', ''//'' @ h @ ''/'' @ r)"
    by (simp add: getScheme_def alnum_def word_char_def letter_def digit_def)
  have cut: "fst (cut_at ''?'' (''//'' @ h @ ''/'' @ r)) = ''//'' @ h @ ''/'' @ takeWhile (\<lambda>d. d \<noteq> CHR ''?'') r"
    using h(2) by (simp add: cut_at_byte takeWhile_absent)
  have bl: "r \<noteq> [] \<Longrightarrow> butlast (''//'' @ h @ ''/'' @ r) = ''//'' @ h @ ''/'' @ butlast r"
    by (simp add: butlast_append)
  have low: "to_lower ''https'' = ''https''" by code_simp
  obtain r' q f where p: "parse_hier ip6 (''//'' @ h @ ''/'' @ r')
      (no_url\<lparr>u_Scheme := ''https'', u_ForceQuery := f, u_RawQuery := q\<rparr>) = Inr u"
  proof (cases "r \<noteq> [] \<and> last r = CHR ''?'' \<and> CHR ''?'' \<notin> set (butlast r)")
    case True
    then have "(''//'' @ h @ ''/'' @ r) \<noteq> [] \<and> last (''//'' @ h @ ''/'' @ r) = CHR ''?'' \<and>
        CHR ''?'' \<notin> set (butlast (''//'' @ h @ ''/'' @ r))"
      using h(2) bl by simp
    then show thesis
      using assms(1) scheme True bl low
      by (intro that [of "butlast r" "[]" True])
        (auto simp: parse_url_def Let_def split: if_splits)
  next
    case False
    then have "\<not> ((''//'' @ h @ ''/'' @ r) \<noteq> [] \<and> last (''//'' @ h @ ''/'' @ r) = CHR ''?'' \<and>
        CHR ''?'' \<notin> set (butlast (''//'' @ h @ ''/'' @ r)))"
      using bl by (cases "r = []") auto
    then show thesis
      using assms(1) scheme cut low
      by (intro that [of "takeWhile (\<lambda>d. d \<noteq> CHR ''?'') r" "snd (cut_at ''?'' (''//'' @ h @ ''/'' @ r))" False])
        (auto simp: parse_url_def Let_def case_prod_unfold split: if_splits)
  qed
  have tw: "takeWhile (\<lambda>c. c \<noteq> CHR ''/'') (h @ CHR ''/'' # r') = h"
    using h(1) by (simp add: takeWhile_absent)
  have "set_path (''/'' @ r') (no_url\<lparr>u_Scheme := ''https'', u_ForceQuery := f, u_RawQuery := q, u_Host := h\<rparr>) = Inr u"
    using p h(3) by (simp add: parse_hier_def tw no_url_def)
  then show ?thesis
    by (auto simp: set_path_def no_url_def map_sum_Inr_iff split: sum.splits if_splits)
qed

lemma url_Parse_https:
  assumes "url_Parse ip6 (''https://'' @ h @ ''/'' @ r) = Inr u"
    and h: "CHR ''/'' \<notin> set h" "CHR ''?'' \<notin> set h" "CHR ''#'' \<notin> set h" "parseAuthority ip6 h = Inr h"
  shows "u_Scheme u = ''https'' \<and> u_Host u = h \<and> u_Opaque u = [] \<and>
    (\<exists>t. u_Path u = CHR ''/'' # t) \<and> (u_RawPath u = [] \<or> (\<exists>t. u_RawPath u = CHR ''/'' # t))"
proof -
  have "fst (cut_at ''#'' (''https://'' @ h @ ''/'' @ r)) = ''https://'' @ h @ ''/'' @ takeWhile (\<lambda>d. d \<noteq> CHR ''#'') r"
    using h(3) by (simp add: cut_at_byte takeWhile_absent)
  then obtain f where c: "cut_at ''#'' (''https://'' @ h @ ''/'' @ r) =
      (''https://'' @ h @ ''/'' @ takeWhile (\<lambda>d. d \<noteq> CHR ''#'') r, f)"
    by (metis prod.collapse)
  then obtain u0 where p: "parse_url ip6 (''https://'' @ h @ ''/'' @ takeWhile (\<lambda>d. d \<noteq> CHR ''#'') r) = Inr u0"
    using assms(1) by (auto simp: url_Parse_def split: sum.splits)
  have "u = u0 \<or> (\<exists>a b. u = u0\<lparr>u_Fragment := a, u_RawFragment := b\<rparr>)"
    using assms(1) p c
    by (auto simp: url_Parse_def set_fragment_def map_sum_Inr_iff split: sum.splits if_splits)
  with parse_url_https [OF p h(1,2,4)] show ?thesis by auto
qed

text \<open>The text of such a URL begins with the scheme, the host and a slash.\<close>

lemma escaped_slash:
  assumes "u_Path u = CHR ''/'' # t" "u_RawPath u = [] \<or> (\<exists>t. u_RawPath u = CHR ''/'' # t)"
  shows "\<exists>t. escaped EncPath (u_RawPath u) (u_Path u) = CHR ''/'' # t"
  using assms by (auto simp: escaped_def escape_def shouldEscape_def alnum_def word_char_def)

lemma url_String_prefix:
  assumes "u_Scheme u = ''https''" "u_Host u = h" "escape h EncHost = h"
    and "u_Path u = CHR ''/'' # t" "u_RawPath u = [] \<or> (\<exists>t. u_RawPath u = CHR ''/'' # t)"
  shows "prefix (''https://'' @ h @ ''/'') (url_String u)"
  using escaped_slash [OF assms(4,5)] assms(1-3) by (auto simp: url_String_def Let_def)

end
