(* ===== verification/Login.thy ===== *)
theory Login
  imports Auth GoUrl
begin

section \<open>Login (internal/provider/auth.go)\<close>

text \<open>
  A login is a process of the agent that runs beside the calls of the plugin. \<open>startLogin\<close>
  registers the session and says what its goroutine will do (\<open>pending_login\<close>); the two moments at
  which the goroutine changes the session are the steps \<open>login_found\<close> (the approval URL) and
  \<open>login_exit\<close> (the end of the process); \<open>pollLogin\<close> reads the session in between or after.
\<close>

subsection \<open>URLs\<close>

definition not_delim :: "char \<Rightarrow> bool" where
  "not_delim c = (\<not> re_space c \<and> \<not> List.member [CHR 0x22, CHR 0x27, CHR ''<'', CHR ''>''] c)"

definition cursorApprovalURLRE :: re where
  "cursorApprovalURLRE =
     seqs [lit ''https://'', Alt (lit ''www.'') Eps, lit ''cursor.com/'', Rep not_delim 1 None]"

definition safeApprovalURL :: "string \<Rightarrow> string" where
  "safeApprovalURL text =
     (case find_all_string cursorApprovalURLRE text of
        [m] \<Rightarrow>
          (case url_Parse (\<lambda>_. False) m of
             Inl e \<Rightarrow> []
           | Inr u \<Rightarrow>
               if u_Scheme u \<noteq> ''https'' then []
               else if url_Hostname u \<noteq> ''cursor.com'' \<and> url_Hostname u \<noteq> ''www.cursor.com'' then []
               else url_String u)
      | _ \<Rightarrow> [])"

definition setupResourcePath :: string where
  "setupResourcePath = ''/v0/resource/plugins/cliproxyapi-cursor/setup''"

definition setupURLFromBase :: "(string \<Rightarrow> bool) \<Rightarrow> string \<Rightarrow> (go_error, string) result" where
  "setupURLFromBase ip6 base =
     (case url_Parse ip6 (trim_space base) of
        Inl e \<Rightarrow> Inl (PlainErr ''trusted BaseURL is required for Cursor setup URL'')
      | Inr u \<Rightarrow>
          if u_Scheme u = [] \<or> u_Host u = []
          then Inl (PlainErr ''trusted BaseURL is required for Cursor setup URL'')
          else if u_Scheme u \<noteq> ''http'' \<and> u_Scheme u \<noteq> ''https''
          then Inl (PlainErr ''trusted BaseURL must be http or https'')
          else Inr (url_String (no_url\<lparr>u_Scheme := u_Scheme u, u_Host := u_Host u,
                      u_Path := setupResourcePath\<rparr>)))"

subsection \<open>The process of a login\<close>

text \<open>
  \<^verbatim>\<open>bufio.Scanner\<close> with a buffer of 64 KiB: the lines without their ends; a line of 65536
  bytes or more ends the scan. A last line without an end counts when it is not empty.
\<close>

definition drop_cr :: "string \<Rightarrow> string" where
  "drop_cr l = (if l \<noteq> [] \<and> last l = CHR 0x0D then butlast l else l)"

definition scan_lines :: "string \<Rightarrow> string list" where
  "scan_lines text =
     (let ls = split_on [CHR 0x0A] text;
          whole = (if last ls = [] then butlast ls else ls)
      in map drop_cr (takeWhile (\<lambda>l. length l < 65536) whole))"

definition login_capture :: "int \<Rightarrow> string \<Rightarrow> limitedBuffer" where
  "login_capture limit text = capture limit (map (\<lambda>l. l @ [CHR 0x0A]) (scan_lines text))"

text \<open>
  Two goroutines consume the two outputs; the first approval URL of one of them is the one that
  is reported, and \<open>out_first\<close> says which is faster when both have one.
\<close>

definition approval_of :: "string \<Rightarrow> string option" where
  "approval_of text = find (\<lambda>u. u \<noteq> []) (map safeApprovalURL (scan_lines text))"

definition login_approval :: "os_answers \<Rightarrow> bool \<Rightarrow> string option" where
  "login_approval os out_first =
     (case (approval_of (concat (os_stdout os)), approval_of (concat (os_stderr os))) of
        (Some a, Some b) \<Rightarrow> Some (if out_first then a else b)
      | (Some a, None) \<Rightarrow> Some a
      | (None, r) \<Rightarrow> r)"

definition await_login :: "os_answers \<Rightarrow> config \<Rightarrow> agent_event list \<times> agent_outcome" where
  "await_login os cfg =
     (let res = \<lparr>ar_Stdout = lb_buf (login_capture (MaxStdoutBytes cfg) (concat (os_stdout os))),
                 ar_Stderr = lb_buf (login_capture (MaxStderrBytes cfg) (concat (os_stderr os)))\<rparr>
      in case os_end os of
           TimedOut _ \<Rightarrow>
             ([KillGroup], res, Some (statusError ''cursor_timeout'' ''Cursor agent CLI login timed out'' 504))
         | Exited (Some e) \<Rightarrow>
             ([], res, Some (statusError ''cursor_agent_error''
                (''Cursor agent CLI login failed: '' @ failure_text res) 502))
         | Exited None \<Rightarrow> ([], res, None))"

text \<open>The third component is the approval URL, when the process was started.\<close>

definition login_in ::
    "os_answers \<Rightarrow> config \<Rightarrow> bool \<Rightarrow> string \<Rightarrow> agent_event list \<times> agent_outcome \<times> string option" where
  "login_in os cfg out_first dir =
     (case resolveAgentExecutable os cfg of
        (ev, Inl e) \<Rightarrow> (ev, (no_output, Some e), None)
      | (ev, Inr exe) \<Rightarrow>
          (case os_start os of
             Some e \<Rightarrow> (ev, (no_output, Some (WrapErr ''start Cursor agent CLI'' (PlainErr e))), None)
           | None \<Rightarrow>
               (let (ev', out) = await_login os cfg
                in (ev @ [StartProcess exe [''login''] dir
                            (filteredEnv (os_environ os) (EnvironmentAllowlist cfg) True) None] @ ev',
                    out, login_approval os out_first))))"

definition runAgentLoginStreaming ::
    "os_answers \<Rightarrow> config \<Rightarrow> bool \<Rightarrow> agent_event list \<times> agent_outcome \<times> string option" where
  "runAgentLoginStreaming os cfg out_first =
     (if \<not> Enabled cfg then ([], (no_output, Some disabled_error), None)
      else case invocationWorkspace os (Workspace cfg) of
        (ev, Inl e) \<Rightarrow> (ev, (no_output, Some e), None)
      | (ev, Inr dir) \<Rightarrow>
          deferred ev [RemoveAll dir]
            (case os_sem_wait os of
               Some e \<Rightarrow> ([], (no_output, Some (PlainErr e)), None)
             | None \<Rightarrow> deferred [Acquire] [Release] (login_in os cfg out_first dir)))"

subsection \<open>Sessions\<close>

record loginStart =
  st_URL :: string
  st_State :: string
  st_ExpiresAt :: int
  st_Metadata :: "json go_map"

record pending_login =
  pl_key :: string
  pl_url :: "string option"
  pl_outcome :: agent_outcome
  pl_events :: "agent_event list"

definition session :: "int \<Rightarrow> int \<Rightarrow> bool \<Rightarrow> loginSession" where
  "session started expires fin =
     \<lparr>ls_startedAt = started, ls_expiresAt = expires, ls_output = [], ls_approvalURL = [],
      ls_err = [], ls_done = fin\<rparr>"

definition put_session :: "string \<Rightarrow> loginSession \<Rightarrow> state \<Rightarrow> state" where
  "put_session k s sv = sv\<lparr>sv_logins := put_entry k s (sv_logins sv)\<rparr>"

definition change_session :: "string \<Rightarrow> (loginSession \<Rightarrow> loginSession) \<Rightarrow> state \<Rightarrow> state" where
  "change_session k f sv =
     (case map_of (sv_logins sv) k of None \<Rightarrow> sv | Some s \<Rightarrow> put_session k (f s) sv)"

text \<open>The two steps of the goroutine.\<close>

definition login_found :: "pending_login \<Rightarrow> state \<Rightarrow> state" where
  "login_found p sv =
     (case pl_url p of
        None \<Rightarrow> sv
      | Some u \<Rightarrow> change_session (pl_key p) (\<lambda>s. s\<lparr>ls_approvalURL := u\<rparr>) sv)"

definition login_exit :: "pending_login \<Rightarrow> state \<Rightarrow> state" where
  "login_exit p sv =
     change_session (pl_key p)
       (\<lambda>s. s\<lparr>ls_output := trim_space (ar_Stdout (fst (pl_outcome p))),
              ls_err := (case snd (pl_outcome p) of None \<Rightarrow> ls_err s | Some e \<Rightarrow> error_text e),
              ls_done := True\<rparr>)
       (emit (pl_events p) sv)"

definition login_key :: "int \<Rightarrow> string" where
  "login_key t = ''cursor-login-'' @ show_int (unix_nano t)"

definition authenticated_login :: "state \<Rightarrow> loginStart \<times> state" where
  "authenticated_login sv =
     (let (t1, sv1) = now sv; key = login_key t1;
          (t2, sv2) = now sv1; expires = t2 + seconds 60;
          (t3, sv3) = now sv2
      in (\<lparr>st_URL = [], st_State = key, st_ExpiresAt = expires,
           st_Metadata = [(''authenticated'', JBool True),
             (''message'', JStr ''Cursor CLI is already authenticated.'')]\<rparr>,
          put_session key (session t3 expires True) sv3))"

text \<open>
  A login that starts the agent. \<open>in_time\<close> says whether the approval URL comes within the 1.2
  seconds that the call waits for it.
\<close>

definition fresh_login :: "bool \<Rightarrow> bool \<Rightarrow> config \<Rightarrow> state \<Rightarrow> loginStart \<times> pending_login \<times> state" where
  "fresh_login out_first in_time cfg sv =
     (let (t1, sv1) = now sv; key = login_key t1;
          (t2, sv2) = now sv1; expires = t2 + seconds 900;
          (t3, sv3) = now sv2;
          sv4 = put_session key (session t3 expires False) sv3;
          (os, sv5) = ask sv4;
          (ev, out, url) = runAgentLoginStreaming os cfg out_first;
          p = \<lparr>pl_key = key, pl_url = url, pl_outcome = out, pl_events = ev\<rparr>;
          sv6 = (if in_time then login_found p sv5 else sv5);
          approval = (case url of Some u \<Rightarrow> if in_time then u else [] | None \<Rightarrow> [])
      in (\<lparr>st_URL = approval, st_State = key, st_ExpiresAt = expires,
           st_Metadata = [(''approval_url'', JStr approval),
             (''message'', JStr (''Approve the Cursor URL, then polling will complete after the CLI '' @
                ''reports authenticated.''))]\<rparr>, p, sv6))"

definition startLogin ::
    "(string \<Rightarrow> bool) \<Rightarrow> string \<Rightarrow> bool \<Rightarrow> bool \<Rightarrow> state \<Rightarrow>
     (go_error, loginStart \<times> pending_login option) result \<times> state" where
  "startLogin ip6 baseURL out_first in_time sv =
     (let cfg = sv_config sv;
          (os, sv1) = ask sv;
          (ev, exe) = resolveAgentExecutable os cfg;
          sv2 = emit ev sv1
      in case exe of
           Inl e \<Rightarrow>
             (case setupURLFromBase ip6 baseURL of
                Inl e' \<Rightarrow> (Inl e', sv2)
              | Inr setup \<Rightarrow>
                  (let (t, sv3) = now sv2
                   in (Inr (\<lparr>st_URL = setup, st_State = ''setup-required'', st_ExpiresAt = t + seconds 900,
                             st_Metadata = [(''setup_required'', JBool True),
                               (''message'', JStr (''Install the official Cursor Agent CLI with explicit '' @
                                  ''confirmation, then continue login.''))]\<rparr>, None), sv3)))
         | Inr _ \<Rightarrow>
             (let (r, sv3) = statusStorage sv2
              in if (case r of Inr st \<Rightarrow> as_StatusKnown st \<and> as_Authenticated st | Inl e \<Rightarrow> False)
                 then (let (resp, sv4) = authenticated_login sv3 in (Inr (resp, None), sv4))
                 else (let (resp, p, sv4) = fresh_login out_first in_time cfg sv3
                       in (Inr (resp, Some p), sv4))))"

subsection \<open>Polling\<close>

datatype poll_status = PollPending | PollSuccess | PollError

record loginPoll =
  po_Status :: poll_status
  po_Message :: string
  po_Auth :: "authData option"

definition poll_of :: "poll_status \<Rightarrow> string \<Rightarrow> loginPoll" where
  "poll_of s m = \<lparr>po_Status = s, po_Message = m, po_Auth = None\<rparr>"

definition poll_finished :: "state \<Rightarrow> loginPoll \<times> state" where
  "poll_finished sv =
     (case statusStorage sv of
        (Inl e, sv1) \<Rightarrow> (poll_of PollError (error_text e), sv1)
      | (Inr st, sv1) \<Rightarrow>
          if \<not> as_StatusKnown st \<or> \<not> as_Authenticated st
          then (poll_of PollPending
                  ''Cursor login process exited, but authenticated status is not yet confirmed'', sv1)
          else (let (auth, sv2) = auth_data st [] sv1
                in (\<lparr>po_Status = PollSuccess, po_Message = ''Cursor CLI login available'',
                     po_Auth = Some auth\<rparr>, sv2)))"

definition pollLogin :: "string \<Rightarrow> state \<Rightarrow> loginPoll \<times> state" where
  "pollLogin key sv =
     (case map_of (sv_logins sv) (trim_space key) of
        None \<Rightarrow> (poll_of PollError ''unknown Cursor login state'', sv)
      | Some sess \<Rightarrow>
          (let (t, sv1) = now sv
           in if \<not> t < ls_expiresAt sess then (poll_of PollError ''Cursor login state expired'', sv1)
              else if \<not> ls_done sess then
                (poll_of PollPending
                   (if ls_approvalURL sess \<noteq> []
                    then ''Approve Cursor login URL: '' @ ls_approvalURL sess
                    else ''waiting for Cursor CLI login approval URL''), sv1)
              else if ls_err sess \<noteq> [] then (poll_of PollError (ls_err sess), sv1)
              else poll_finished sv1))"

subsection \<open>The approval URL\<close>

lemma approval_match:
  assumes "m \<in> set (find_all_string cursorApprovalURLRE text)"
  obtains h r where "h = ''cursor.com'' \<or> h = ''www.cursor.com''" "m = ''https://'' @ h @ ''/'' @ r"
proof -
  from assms obtain q cs q1 where m: "(cs, q1) \<in> set (match_re cursorApprovalURLRE q)" "m = between q q1"
    unfolding find_all_string_def by (blast dest: find_all_match)
  from m(1) obtain q2 q3 q4 cs1 cs2 cs3 cs4 where
      a: "(cs1, q2) \<in> set (match_re (lit ''https://'') q)"
    and b: "(cs2, q3) \<in> set (match_re (Alt (lit ''www.'') Eps) q2)"
    and c: "(cs3, q4) \<in> set (match_re (lit ''cursor.com/'') q3)"
    and e: "between q q1 = between q q2 @ between q2 q3 @ between q3 q4 @ between q4 q1"
    unfolding cursorApprovalURLRE_def seqs.simps by (elim match_SeqE) auto
  have "between q2 q3 = ''www.'' \<or> between q2 q3 = []"
    using b by (rule match_AltE) (auto dest!: match_lit simp: between_def)
  with match_lit [OF a] match_lit [OF c] e m(2) show thesis
    by (intro that [of "between q2 q3 @ ''cursor.com''" "between q4 q1"]) auto
qed

lemma safeApprovalURL_official:
  assumes "safeApprovalURL text \<noteq> []"
  shows "prefix ''https://cursor.com/'' (safeApprovalURL text) \<or>
    prefix ''https://www.cursor.com/'' (safeApprovalURL text)"
proof -
  from assms obtain m u where m: "find_all_string cursorApprovalURLRE text = [m]"
    "url_Parse (\<lambda>_. False) m = Inr u" "safeApprovalURL text = url_String u"
    by (auto simp: safeApprovalURL_def split: list.splits sum.splits if_splits)
  then have "m \<in> set (find_all_string cursorApprovalURLRE text)" by simp
  then obtain h r where h: "h = ''cursor.com'' \<or> h = ''www.cursor.com''" "m = ''https://'' @ h @ ''/'' @ r"
    by (rule approval_match)
  have auth: "parseAuthority (\<lambda>_. False) h = Inr h" "escape h EncHost = h"
    "CHR ''/'' \<notin> set h" "CHR ''?'' \<notin> set h" "CHR ''#'' \<notin> set h"
    using h(1) by (elim disjE; simp; code_simp)+
  have "u_Scheme u = ''https'' \<and> u_Host u = h \<and> u_Opaque u = [] \<and>
    (\<exists>t. u_Path u = CHR ''/'' # t) \<and> (u_RawPath u = [] \<or> (\<exists>t. u_RawPath u = CHR ''/'' # t))"
    using m(2) auth unfolding h(2) by (intro url_Parse_https)
  then have "prefix (''https://'' @ h @ ''/'') (url_String u)"
    using auth(2) url_String_prefix by blast
  with h(1) m(3) show ?thesis by auto
qed

lemma login_approval_official:
  assumes "login_approval os out_first = Some u"
  shows "prefix ''https://cursor.com/'' u \<or> prefix ''https://www.cursor.com/'' u"
proof -
  have a: "prefix ''https://cursor.com/'' v \<or> prefix ''https://www.cursor.com/'' v"
    if "approval_of t = Some v" for t v
  proof -
    from that obtain l where "v = safeApprovalURL l" "v \<noteq> []"
      by (auto simp: approval_of_def find_Some_iff)
    then show ?thesis using safeApprovalURL_official by simp
  qed
  show ?thesis using assms
    by (auto simp: login_approval_def dest: a split: option.splits if_splits)
qed

subsection \<open>Resources\<close>

lemma await_login_events: "fst (await_login os cfg) \<in> {[], [KillGroup]}"
  by (auto simp: await_login_def Let_def split: proc_end.splits option.splits)

lemma login_in_clean:
  assumes "dir \<in> dirs" "0 < slots"
  shows "clean_trace dirs slots (fst (login_in os cfg out_first dir) @ ev) = clean_trace dirs slots ev"
proof -
  obtain ps where "fst (resolveAgentExecutable os cfg) = map MkdirAll ps"
    using resolve_events by blast
  then show ?thesis
    using assms await_login_events [of os cfg]
    by (auto simp: login_in_def Let_def case_prod_unfold split: sum.splits option.splits)
qed

lemma login_run_clean [keeps]: "clean_trace {} 0 (fst (runAgentLoginStreaming os cfg out_first))"
proof (cases "invocationWorkspace os (Workspace cfg)")
  case (Pair ev r)
  show ?thesis
  proof (cases r)
    case (Inl e)
    with Pair have "clean_trace {} 0 ev"
      using invocationWorkspace_Inl [of os "Workspace cfg" ev e] by (auto simp: Let_def)
    with Pair Inl show ?thesis by (simp add: runAgentLoginStreaming_def)
  next
    case (Inr dir)
    with Pair obtain rand where "ev = [MkdirAll (Workspace cfg), MkdirTemp dir]"
      by (auto elim: invocationWorkspace_Inr)
    with Pair Inr show ?thesis
      by (auto simp: runAgentLoginStreaming_def login_in_clean split: option.splits)
  qed
qed

subsection \<open>The life of a session\<close>

lemma login_key_trimmed [simp]: "trim_space (login_key t) = login_key t"
proof -
  have d: "digits_of n \<noteq> [] \<and> 48 \<le> byte (last (digits_of n)) \<and> byte (last (digits_of n)) \<le> 57" if "0 \<le> n" for n
    using digits_of_digits [OF that] digits_of.simps [of n] by (auto simp: list_all_iff digit_def)
  have l: "show_int n \<noteq> [] \<and> 33 \<le> byte (last (show_int n)) \<and> byte (last (show_int n)) < 128" for n
    using d [of n] d [of "- n"] by (auto simp: show_int_def)
  then show ?thesis
    by (intro trim_space_fixed [of _ "CHR ''c''" "''ursor-login-'' @ show_int (unix_nano t)"])
      (auto simp: login_key_def)
qed

lemma change_session_sel [simp]:
  "map_of (sv_logins (change_session k f sv)) k' =
     (if k' = k then map_option f (map_of (sv_logins sv) k) else map_of (sv_logins sv) k')"
  "sv_config (change_session k f sv) = sv_config sv" "ticks (change_session k f sv) = ticks sv"
  "clock (change_session k f sv) = clock sv" "answers (change_session k f sv) = answers sv"
  "calls (change_session k f sv) = calls sv" "trace (change_session k f sv) = trace sv"
  by (auto simp: change_session_def put_session_def split: option.split)

lemma login_found_sel [simp]:
  "map_of (sv_logins (login_found p sv)) k =
     (case pl_url p of
        Some u \<Rightarrow> if k = pl_key p then map_option (\<lambda>s. s\<lparr>ls_approvalURL := u\<rparr>) (map_of (sv_logins sv) k)
          else map_of (sv_logins sv) k
      | None \<Rightarrow> map_of (sv_logins sv) k)"
  "ticks (login_found p sv) = ticks sv" "clock (login_found p sv) = clock sv"
  by (simp_all add: login_found_def split: option.split)

lemma login_exit_sel [simp]:
  "map_of (sv_logins (login_exit p sv)) k =
     (if k = pl_key p
      then map_option (\<lambda>s. s\<lparr>ls_output := trim_space (ar_Stdout (fst (pl_outcome p))),
        ls_err := (case snd (pl_outcome p) of None \<Rightarrow> ls_err s | Some e \<Rightarrow> error_text e), ls_done := True\<rparr>)
        (map_of (sv_logins sv) k)
      else map_of (sv_logins sv) k)"
  "ticks (login_exit p sv) = ticks sv" "clock (login_exit p sv) = clock sv"
  by (simp_all add: login_exit_def emit_def)

lemma fresh_login_session:
  assumes "fresh_login out_first in_time cfg sv = (resp, p, sv')"
  shows "pl_key p = st_State resp \<and> (\<exists>t. st_State resp = login_key t) \<and>
    (\<exists>s. map_of (sv_logins sv') (st_State resp) = Some s \<and> \<not> ls_done s \<and> ls_err s = [] \<and>
       ls_expiresAt s = st_ExpiresAt resp \<and>
       ls_approvalURL s = (if in_time then case pl_url p of Some u \<Rightarrow> u | None \<Rightarrow> [] else []) \<and>
       st_URL resp = ls_approvalURL s) \<and>
    (\<exists>os. pl_url p = snd (snd (runAgentLoginStreaming os cfg out_first)))"
proof -
  obtain ev out u where r: "runAgentLoginStreaming (answers sv (calls sv)) cfg out_first = (ev, out, u)"
    by (metis prod.collapse)
  let ?t = "clock sv (ticks sv)" and ?e = "clock sv (Suc (ticks sv)) + seconds 900"
    and ?s = "clock sv (Suc (Suc (ticks sv)))"
  let ?sv = "(put_session (login_key ?t) (session ?s ?e False)
      (sv\<lparr>ticks := Suc (Suc (Suc (ticks sv)))\<rparr>))\<lparr>calls := Suc (calls sv)\<rparr>"
  let ?p = "\<lparr>pl_key = login_key ?t, pl_url = u, pl_outcome = out, pl_events = ev\<rparr>"
  have "p = ?p \<and> sv' = (if in_time then login_found ?p ?sv else ?sv) \<and> st_State resp = login_key ?t \<and>
      st_ExpiresAt resp = ?e \<and> st_URL resp = (case u of Some u \<Rightarrow> if in_time then u else [] | None \<Rightarrow> [])"
    using assms r by (auto simp: fresh_login_def Let_def now_def ask_def put_session_def)
  moreover have "sv_logins ?sv = put_entry (login_key ?t) (session ?s ?e False) (sv_logins sv)"
    by (simp add: put_session_def)
  moreover have "\<exists>os. u = snd (snd (runAgentLoginStreaming os cfg out_first))" using r by (metis snd_conv)
  ultimately show ?thesis
    by (cases u) (auto simp: session_def)
qed

subsection \<open>Properties\<close>

lemma startLogin_pending:
  assumes "fst (startLogin ip6 base out_first in_time sv) = Inr (resp, Some p)"
  obtains sv3 cfg where "fresh_login out_first in_time cfg sv3 = (resp, p, snd (startLogin ip6 base out_first in_time sv))"
  using assms
  by (auto simp: startLogin_def Let_def case_prod_unfold split: sum.splits if_splits)

lemma login_run_approval:
  assumes "snd (snd (runAgentLoginStreaming os cfg out_first)) = Some u"
  shows "login_approval os out_first = Some u"
  using assms
  by (auto simp: runAgentLoginStreaming_def login_in_def Let_def case_prod_unfold
      split: prod.splits sum.splits option.splits if_splits)


definition sample_login_service :: state where
  "sample_login_service =
     (new_service ''/tmp'' (\<lambda>_. sample_os) (\<lambda>_. 0))\<lparr>sv_config := sample_config\<lparr>Enabled := False\<rparr>\<rparr>"

lemma sample_login_run:
  "\<exists>resp p sv1. startLogin (\<lambda>_. False) [] True True sample_login_service = (Inr (resp, Some p), sv1) \<and>
     st_URL resp = [] \<and> clock sv1 (ticks sv1) < st_ExpiresAt resp"
  by (simp add: startLogin_def sample_login_service_def new_service_def resolveAgentExecutable_def
      sample_os_def sample_config_def default_config_def statusStorage_eq run_status_def run_agent_eq
      runAgent_def disabled_error_def fresh_login_def runAgentLoginStreaming_def login_found_def Let_def
      ask_def emit_def put_session_def seconds_def defaultAgentPath_def now_def)


text \<open>
  C27: A poll reports success exactly when the login is known, not expired and ended without an
  error, and a fresh run of the agent's status, which succeeded, states that it is authenticated.
  An authentication is handed out with success only.
\<close>

theorem poll_success_iff:
  "(po_Status (fst (pollLogin key sv)) = PollSuccess \<longleftrightarrow>
     (\<exists>sess out. map_of (sv_logins sv) (trim_space key) = Some sess \<and>
        clock sv (ticks sv) < ls_expiresAt sess \<and> ls_done sess \<and> ls_err sess = [] \<and>
        fst (run_status (sv_config sv) (snd (now (snd (now sv))))) = (out, None) \<and>
        parseCursorAuthStatus (ar_Stdout out) = Some True)) \<and>
   (po_Auth (fst (pollLogin key sv)) \<noteq> None \<longleftrightarrow> po_Status (fst (pollLogin key sv)) = PollSuccess)"
proof -
  have fin: "(po_Status (fst (poll_finished sv)) = PollSuccess \<longleftrightarrow>
      (\<exists>out. fst (run_status (sv_config sv) (snd (now sv))) = (out, None) \<and>
        parseCursorAuthStatus (ar_Stdout out) = Some True)) \<and>
    (po_Auth (fst (poll_finished sv)) \<noteq> None \<longleftrightarrow> po_Status (fst (poll_finished sv)) = PollSuccess)" for sv
    by (cases "fst (run_status (sv_config sv) (snd (now sv)))")
      (auto simp: poll_finished_def statusStorage_eq Let_def case_prod_unfold with_status_def poll_of_def
        simp del: now_sel split: option.splits)
  show ?thesis
    using fin [of "snd (now sv)"]
    by (auto simp: pollLogin_def Let_def case_prod_unfold poll_of_def split: option.split)
qed

end
