(* ===== verification/Installer.thy ===== *)
theory Installer
  imports Managed Login
begin

section \<open>Installing the agent (internal/provider/installer.go)\<close>

text \<open>
  Outside the model are the network (\<open>ie_net\<close>: the answer to a request for a URL), the readers of
  gzip and tar (\<open>ie_unpack\<close>: what they deliver for a package), the run of the unpacked binary
  (\<open>ie_version\<close>: its output, or the error of the run; it is taken to change no file the installer
  reads) and the digest of a package (\<open>ie_sha256\<close>, in hexadecimal).
\<close>

datatype http_answer =
    HttpError string
  | HttpRedirect string
  | HttpResponse int string "string option"

record install_env =
  ie_ip6 :: "string \<Rightarrow> bool"
  ie_net :: "string \<Rightarrow> http_answer"
  ie_unpack :: "string \<Rightarrow> package"
  ie_version :: "string \<Rightarrow> (string, string) result"
  ie_sha256 :: "string \<Rightarrow> string"
  ie_home :: string

subsection \<open>Downloads\<close>

definition allowedInstallerHost :: "string \<Rightarrow> bool" where
  "allowedInstallerHost host =
     List.member [''cursor.com'', ''www.cursor.com'', ''downloads.cursor.com'', ''127.0.0.1'', ''localhost''] host"

definition check_redirect :: "(string \<Rightarrow> bool) \<Rightarrow> string \<Rightarrow> nat \<Rightarrow> string option" where
  "check_redirect ip6 loc via =
     (if via \<ge> 3 then Some ''too many redirects''
      else case url_Parse ip6 loc of
        Inl e \<Rightarrow> Some (error_text e)
      | Inr u \<Rightarrow>
          if allowedInstallerHost (url_Hostname u) then None
          else Some ''redirect to non-Cursor host rejected'')"

text \<open>
  \<^verbatim>\<open>client.Do\<close> with the \<^verbatim>\<open>CheckRedirect\<close> of the installer: the URLs requested, and the final answer.
\<close>

function client_do ::
    "install_env \<Rightarrow> string list \<Rightarrow> string \<Rightarrow> string list \<times> (go_error, int \<times> string \<times> string option) result" where
  "client_do env via url =
     (case ie_net env url of
        HttpError e \<Rightarrow> (via @ [url], Inl (plain e))
      | HttpResponse status body err \<Rightarrow> (via @ [url], Inr (status, body, err))
      | HttpRedirect loc \<Rightarrow>
          (case check_redirect (ie_ip6 env) loc (length via + 1) of
             Some e \<Rightarrow> (via @ [url], Inl (plain (''Get '' @ quoted loc @ '': '' @ e)))
           | None \<Rightarrow> client_do env (via @ [url]) loc))"
  by pat_completeness auto
termination
  by (relation "measure (\<lambda>(env, via, url). 3 - length via)") (auto simp: check_redirect_def split: if_splits)

declare client_do.simps [simp del]

definition is_local :: "string \<Rightarrow> bool" where
  "is_local host = (host = ''127.0.0.1'' \<or> host = ''localhost'')"

definition fetchBounded ::
    "install_env \<Rightarrow> string \<Rightarrow> int \<Rightarrow> string list \<times> (go_error, string) result" where
  "fetchBounded env raw limit =
     (case url_Parse (ie_ip6 env) raw of
        Inl e \<Rightarrow> ([], Inl e)
      | Inr u \<Rightarrow>
          if u_Scheme u \<noteq> ''https'' \<and> \<not> is_local (url_Hostname u)
          then ([], Inl (plain ''installer fetch requires HTTPS''))
          else if \<not> allowedInstallerHost (url_Hostname u)
          then ([], Inl (plain ''non-Cursor host rejected''))
          else case client_do env [] raw of
            (reqs, Inl e) \<Rightarrow> (reqs, Inl e)
          | (reqs, Inr (status, body, err)) \<Rightarrow>
              (reqs,
               if status < 200 \<or> status > 299 then Inl (plain (''unexpected HTTP '' @ show_int status))
               else let b = take (nat (limit + 1)) body
                    in if err \<noteq> None \<and> int (length b) \<le> limit then Inl (plain (the err))
                       else if int (length b) > limit then Inl (plain ''download exceeds size limit'')
                       else Inr b))"

subsection \<open>The official install script\<close>

record installerInfo =
  ii_Version :: string
  ii_PackageURL :: string

definition officialPkgCandidateRE :: re where
  "officialPkgCandidateRE =
     seqs [lit ''http'', Rep (\<lambda>c. c = CHR ''s'') 0 (Some 1), lit ''://'', Rep not_delim 1 None,
           lit ''/agent-cli-package.tar.gz'']"

definition version_char :: "char \<Rightarrow> bool" where
  "version_char c = (alnum c \<or> List.member ''._-'' c)"

definition version_re :: re where
  "version_re =
     seqs [Rep digit 4 (Some 4), lit ''.'', Rep digit 2 (Some 2), lit ''.'', Rep digit 2 (Some 2), lit ''-'',
           Cls alnum, Rep version_char 2 (Some 63)]"

definition officialPkgTemplateRE :: re where
  "officialPkgTemplateRE =
     seqs [TextStart, lit ''https://downloads.cursor.com/lab/'', Cap 1 version_re,
           lit ''/${OS}/${ARCH}/agent-cli-package.tar.gz'', TextEnd]"

definition installerPlatform :: "string \<Rightarrow> string \<Rightarrow> (string \<times> string) option" where
  "installerPlatform goos goarch =
     (let os = (if List.member [''linux'', ''darwin''] goos then goos else []);
          arch = (if goarch = ''amd64'' then ''x64'' else if goarch = ''arm64'' then ''arm64'' else [])
      in if os \<noteq> [] \<and> arch \<noteq> [] then Some (os, arch) else None)"

definition package_url :: "string \<Rightarrow> string \<Rightarrow> string \<Rightarrow> string" where
  "package_url version os arch =
     ''https://downloads.cursor.com/lab/'' @ version @ ''/'' @ os @ ''/'' @ arch @ ''/agent-cli-package.tar.gz''"

definition parseOfficialInstaller :: "string \<Rightarrow> string \<Rightarrow> string \<Rightarrow> (go_error, installerInfo) result" where
  "parseOfficialInstaller body goos goarch =
     (if body = [] \<or> length body > 131072
      then Inl (plain ''official installer body size is invalid'')
      else case installerPlatform goos goarch of
        None \<Rightarrow> Inl (plain (''unsupported Cursor Agent CLI platform '' @ goos @ ''/'' @ goarch))
      | Some (os, arch) \<Rightarrow>
          (case find_all_string officialPkgCandidateRE body of
             [c] \<Rightarrow>
               (case find_from officialPkgTemplateRE [] c of
                  None \<Rightarrow> Inl (plain ''official installer package URL template is not canonical'')
                | Some (q, cs, q') \<Rightarrow>
                    Inr \<lparr>ii_Version = cap 1 cs, ii_PackageURL = package_url (cap 1 cs) os arch\<rparr>)
           | cands \<Rightarrow>
               Inl (plain (''official installer must contain exactly one Cursor package URL candidate '' @
                 ''for this parser; found '' @ show_int (int (length cands))))))"

subsection \<open>The installation\<close>

text \<open>\<open>managedRoot\<close> on the disk.\<close>

definition managed_root_io :: "string \<Rightarrow> config \<Rightarrow> string io" where
  "managed_root_io home cfg =
     (let root0 = trim_space (ManagedInstallRoot cfg);
          root = (if root0 = [] then home else root0)
      in if root = [] \<or> \<not> is_abs root
         then fail_io (plain ''writable persistent HOME or managed_install_root is required'')
         else bind_io (wrap_io ''managed root is not writable'' (io_mkdir_all root)) (\<lambda>_. return_io root))"

record installStatus =
  in_Installed :: bool
  in_Version :: string
  in_ExecutablePath :: string
  in_ManagedRoot :: string
  in_Error :: string

definition status_error_of :: "string \<Rightarrow> go_error \<Rightarrow> installStatus" where
  "status_error_of root e =
     \<lparr>in_Installed = False, in_Version = [], in_ExecutablePath = [], in_ManagedRoot = root,
      in_Error = error_text e\<rparr>"

definition install_status :: "string \<Rightarrow> config \<Rightarrow> disk \<Rightarrow> installStatus \<times> disk" where
  "install_status home cfg d =
     (case managed_root_io home cfg d of
        (Inl e, d1) \<Rightarrow> (status_error_of [] e, d1)
      | (Inr root, d1) \<Rightarrow>
          (case inspectManagedInstall root (files d1) of
             Inl e \<Rightarrow> (status_error_of root e, d1)
           | Inr st \<Rightarrow>
               (\<lparr>in_Installed = mi_Installed st,
                 in_Version = (if mi_Installed st then mi_Version st else []),
                 in_ExecutablePath = (if mi_Installed st then mi_ExecutablePath st else []),
                 in_ManagedRoot = root, in_Error = []\<rparr>, d1)))"

record installResult =
  ir_Installed :: bool
  ir_Version :: string
  ir_ExecutablePath :: string
  ir_PackageSHA256 :: string
  ir_PackageBytes :: int

text \<open>\<^verbatim>\<open>os.MkdirTemp\<close>, with its at most 10000 attempts.\<close>

function mkdir_temp :: "nat \<Rightarrow> string \<Rightarrow> string io" where
  "mkdir_temp n root d =
     (case draw d of
        (None, d1) \<Rightarrow> fail_io (plain ''mkdirtemp'') d1
      | (Some r, d1) \<Rightarrow>
          (let p = temp_name root ''.cursor-agent-install-'' (show_int (int r))
           in case attempt (sys_mkdir p) d1 of
                (None, d2) \<Rightarrow> return_io p d2
              | (Some e, d2) \<Rightarrow>
                  if e = EEXIST \<and> 1 < n then mkdir_temp (n - 1) root d2
                  else fail_io (path_error ''mkdir'' p e) d2))"
  by pat_completeness auto
termination by (relation "measure (\<lambda>(n, root, d). n)") auto

declare mkdir_temp.simps [simp del]

definition verifyAgentVersion :: "install_env \<Rightarrow> string \<Rightarrow> string \<Rightarrow> (go_error, unit) result" where
  "verifyAgentVersion env bin version =
     (case ie_version env bin of
        Inl e \<Rightarrow> Inl (WrapErr ''verify Cursor agent --version'' (plain e))
      | Inr out \<Rightarrow>
          if contains out version then Inr () else Inl (plain ''cursor agent version mismatch''))"

definition version_dir :: "string \<Rightarrow> string \<Rightarrow> string" where
  "version_dir root version = path_join [managedVersionsDir root, version]"

text \<open>Unpacking and checking, before anything below the versions changes; the state found there.\<close>

definition unpack_package ::
    "install_env \<Rightarrow> config \<Rightarrow> string \<Rightarrow> string \<Rightarrow> string \<Rightarrow> string \<Rightarrow> (extractedArchive \<times> managedInstallState) io" where
  "unpack_package env cfg root version pkg tmp =
     bind_io (safeExtractTarGz (ie_unpack env pkg) tmp
       \<lparr>MaxEntries = MaxArchiveEntries cfg, MaxExpandedBytes_lim = MaxExpandedBytes cfg\<rparr>) (\<lambda>ex.
     bind_io (ask_io (\<lambda>_. verifyAgentVersion env (BinaryPath ex) version)) (\<lambda>_.
     bind_io (ask_io (validateExtractedBinaryPath tmp (ArchiveRelativeBinaryPath ex))) (\<lambda>_.
     bind_io (io_mkdir_all (path_dir (version_dir root version))) (\<lambda>_.
     bind_io (ask_io (inspectManagedInstall root)) (\<lambda>prior.
       if mi_Installed prior \<and> mi_ArchiveRelativeBinPath prior \<noteq> ArchiveRelativeBinaryPath ex
       then fail_io (plain (''managed Cursor agent binary layout changed from '' @
              quoted (mi_ArchiveRelativeBinPath prior) @ '' to '' @
              quoted (ArchiveRelativeBinaryPath ex) @ ''; refusing non-transactional migration''))
       else return_io (ex, prior))))))"

text \<open>Moving the package beside its place, and a directory that is in its place out of the way.\<close>

definition stage_version :: "string \<Rightarrow> string \<Rightarrow> bool io" where
  "stage_version versionDir tmp =
     bind_io (io_remove_all (versionDir @ ''.new'')) (\<lambda>_.
     bind_io (wrap_io ''stage Cursor agent'' (io_rename tmp (versionDir @ ''.new''))) (\<lambda>_.
     bind_io (io_remove_all (versionDir @ ''.old'')) (\<lambda>_.
     bind_io (ask_io (\<lambda>fs. Inr (is_ok (stat fs versionDir)))) (\<lambda>existed.
       if existed
       then bind_io (on_error (wrap_io ''backup previous Cursor agent version''
                (io_rename versionDir (versionDir @ ''.old'')))
              (\<lambda>d. snd (io_remove_all (versionDir @ ''.new'') d))) (\<lambda>_. return_io True)
       else return_io False))))"

definition rollback :: "string \<Rightarrow> string \<Rightarrow> bool \<Rightarrow> bool \<Rightarrow> disk \<Rightarrow> disk" where
  "rollback root versionDir existed installed d =
     (let d1 = snd (io_remove_all versionDir d);
          d2 = (if existed then snd (io_rename (versionDir @ ''.old'') versionDir d1) else d1)
      in if installed then d2 else cleanupInitialInstallLinks root d2)"

definition activate_version ::
    "string \<Rightarrow> string \<Rightarrow> string \<Rightarrow> managedInstallState \<Rightarrow> unit io" where
  "activate_version root version rel prior =
     (let versionDir = version_dir root version
      in bind_io (on_error (wrap_io ''activate Cursor agent version dir''
             (io_rename (versionDir @ ''.new'') versionDir))
           (\<lambda>d. snd (io_remove_all (versionDir @ ''.new'') d))) (\<lambda>_.
         bind_io (ask_io (validateExtractedBinaryPath versionDir rel)) (\<lambda>_.
         bind_io (if mi_Installed prior
           then wrap_io ''prepare Cursor agent current link for migration''
                  (replaceCurrentLink root (mi_Version prior))
           else return_io ()) (\<lambda>_.
         bind_io (wrap_io ''install Cursor agent bin links'' (ensureStableBinLinks root rel)) (\<lambda>_.
           wrap_io ''activate Cursor agent current link'' (replaceCurrentLink root version))))))"

definition commit_version ::
    "string \<Rightarrow> string \<Rightarrow> string \<Rightarrow> managedInstallState \<Rightarrow> bool \<Rightarrow> unit io" where
  "commit_version root version rel prior existed d =
     (case activate_version root version rel prior d of
        (Inl e, d1) \<Rightarrow> (Inl e, rollback root (version_dir root version) existed (mi_Installed prior) d1)
      | (Inr _, d1) \<Rightarrow> (Inr (), snd (io_remove_all (version_dir root version @ ''.old'') d1)))"

definition install_package ::
    "install_env \<Rightarrow> config \<Rightarrow> string \<Rightarrow> string \<Rightarrow> string \<Rightarrow> string \<Rightarrow> installResult io" where
  "install_package env cfg root version pkg tmp =
     bind_io (unpack_package env cfg root version pkg tmp) (\<lambda>(ex, prior).
     bind_io (stage_version (version_dir root version) tmp) (\<lambda>existed.
     bind_io (commit_version root version (ArchiveRelativeBinaryPath ex) prior existed) (\<lambda>_.
       return_io \<lparr>ir_Installed = True, ir_Version = version,
         ir_ExecutablePath = path_join [managedBinDir root, ''agent''],
         ir_PackageSHA256 = ie_sha256 env pkg, ir_PackageBytes = int (length pkg)\<rparr>)))"

text \<open>The temporary directory is removed however the rest ends (\<^verbatim>\<open>defer\<close>).\<close>

definition with_temp :: "string \<Rightarrow> (string \<Rightarrow> 'a io) \<Rightarrow> 'a io" where
  "with_temp root body d =
     (case wrap_io ''create install temp dir'' (mkdir_temp 10000 root) d of
        (Inl e, d1) \<Rightarrow> (Inl e, d1)
      | (Inr tmp, d1) \<Rightarrow> (case body tmp d1 of (r, d2) \<Rightarrow> (r, snd (io_remove_all tmp d2))))"

definition InstallOfficialCursorAgent :: "install_env \<Rightarrow> config \<Rightarrow> installResult io" where
  "InstallOfficialCursorAgent env cfg =
     bind_io (managed_root_io (ie_home env) cfg) (\<lambda>root.
     bind_io (ask_io (\<lambda>_. map_sum (WrapErr ''fetch official installer'') (\<lambda>b. b)
       (snd (fetchBounded env (firstNonEmpty [InstallerURL cfg, officialInstallerURL]) 131072)))) (\<lambda>body.
     bind_io (ask_io (\<lambda>_. parseOfficialInstaller body ''linux'' ''amd64'')) (\<lambda>info.
     bind_io (\<lambda>d. (let (st, d1) = install_status (ie_home env) cfg d in (Inr st, d1))) (\<lambda>st.
       if in_Installed st \<and> in_Version st = ii_Version info
       then return_io \<lparr>ir_Installed = True, ir_Version = in_Version st,
              ir_ExecutablePath = in_ExecutablePath st, ir_PackageSHA256 = [], ir_PackageBytes = 0\<rparr>
       else bind_io (ask_io (\<lambda>_. map_sum (WrapErr ''download Cursor package'') (\<lambda>b. b)
              (snd (fetchBounded env
                (if TestPackageURLOverride cfg \<noteq> [] then TestPackageURLOverride cfg else ii_PackageURL info)
                (MaxPackageBytes cfg))))) (\<lambda>pkg.
            with_temp root (install_package env cfg root (ii_Version info) pkg))))))"

subsection \<open>The managed root\<close>

definition install_root :: "install_env \<Rightarrow> config \<Rightarrow> string" where
  "install_root env cfg =
     (let root = trim_space (ManagedInstallRoot cfg) in if root = [] then ie_home env else root)"

lemma managed_root_real:
  assumes "good R" "install_root env cfg = path_of R" "real_dir (node_at (files d)) R"
  shows "managed_root_io (ie_home env) cfg d = (Inr (path_of R), d)"
  using assms(2) mkdir_all_real [OF assms(3,1)]
  by (auto simp: managed_root_io_def install_root_def Let_def bind_io_def wrap_io_def io_mkdir_all_def
      call_io_def return_io_def)

lemma install_status_real:
  assumes "good R" "install_root env cfg = path_of R" "real_dir (node_at (files d)) R"
  shows "snd (install_status (ie_home env) cfg d) = d"
  by (simp add: install_status_def managed_root_real [OF assms] split: sum.split)

subsection \<open>What a download requests and returns\<close>

definition allowed_url :: "(string \<Rightarrow> bool) \<Rightarrow> string \<Rightarrow> bool" where
  "allowed_url ip6 raw = (case url_Parse ip6 raw of Inl _ \<Rightarrow> False | Inr u \<Rightarrow> allowedInstallerHost (url_Hostname u))"

lemma client_do_bounded:
  assumes "client_do env via url = (reqs, r)" "length via < 3"
    and "allowed_url (ie_ip6 env) url" "list_all (allowed_url (ie_ip6 env)) via"
  shows "length reqs \<le> 3 \<and> list_all (allowed_url (ie_ip6 env)) reqs"
  using assms
proof (induction env via url arbitrary: reqs r rule: client_do.induct)
  case (1 env via url)
  show ?case
  proof (cases "ie_net env url")
    case (HttpRedirect loc)
    show ?thesis
    proof (cases "check_redirect (ie_ip6 env) loc (length via + 1)")
      case None
      then have "length via + 1 < 3" "allowed_url (ie_ip6 env) loc"
        by (auto simp: check_redirect_def allowed_url_def split: if_splits sum.splits)
      with "1.IH" [OF HttpRedirect None] "1.prems" HttpRedirect None show ?thesis
        by (simp add: client_do.simps [of env via url])
    qed (use "1.prems" HttpRedirect client_do.simps [of env via url] in auto)
  qed (use "1.prems" client_do.simps [of env via url] in auto)
qed

text \<open>
  C19: a download sends at most three requests, each to one of the allowed hosts (redirects
  included), and what it returns is never longer than its limit.
\<close>

theorem fetch_is_bounded:
  "length (fst (fetchBounded env raw limit)) \<le> 3 \<and>
   list_all (allowed_url (ie_ip6 env)) (fst (fetchBounded env raw limit)) \<and>
   (case snd (fetchBounded env raw limit) of Inl _ \<Rightarrow> True | Inr b \<Rightarrow> int (length b) \<le> limit)"
proof (cases "url_Parse (ie_ip6 env) raw")
  case (Inr u)
  show ?thesis
  proof (cases "(u_Scheme u \<noteq> ''https'' \<and> \<not> is_local (url_Hostname u)) \<or> \<not> allowedInstallerHost (url_Hostname u)")
    case False
    obtain reqs r where c: "client_do env [] raw = (reqs, r)" by (metis prod.collapse)
    have "allowed_url (ie_ip6 env) raw" using Inr False by (simp add: allowed_url_def)
    with client_do_bounded [OF c] have reqs: "length reqs \<le> 3 \<and> list_all (allowed_url (ie_ip6 env)) reqs" by simp
    have "fst (fetchBounded env raw limit) = reqs"
      using Inr False c by (auto simp: fetchBounded_def split: sum.split)
    moreover have "snd (fetchBounded env raw limit) = Inr b \<Longrightarrow> int (length b) \<le> limit" for b
      using Inr False c by (auto simp: fetchBounded_def Let_def split: sum.splits if_splits)
    ultimately show ?thesis using reqs by (simp split: sum.split)
  qed (use Inr in \<open>auto simp: fetchBounded_def\<close>)
qed (simp add: fetchBounded_def)

subsection \<open>What the install script names\<close>

lemma version_re_match:
  assumes "(cs, q') \<in> set (match_re version_re q)"
  shows "list_all version_char (between q q') \<and> length (between q q') \<in> {14..75}"
proof -
  have vc: "digit c \<Longrightarrow> version_char c" "alnum c \<Longrightarrow> version_char c" for c
    by (auto simp: version_char_def alnum_def digit_def word_char_def)
  from assms obtain cs1 cs2 cs3 cs4 cs5 cs6 cs7 cs8 q1 q2 q3 q4 q5 q6 q7 where
    m: "(cs1, q1) \<in> set (match_re (Rep digit 4 (Some 4)) q)" "(cs2, q2) \<in> set (match_re (lit ''.'') q1)"
      "(cs3, q3) \<in> set (match_re (Rep digit 2 (Some 2)) q2)" "(cs4, q4) \<in> set (match_re (lit ''.'') q3)"
      "(cs5, q5) \<in> set (match_re (Rep digit 2 (Some 2)) q4)" "(cs6, q6) \<in> set (match_re (lit ''-'') q5)"
      "(cs7, q7) \<in> set (match_re (Cls alnum) q6)" "(cs8, q') \<in> set (match_re (Rep version_char 2 (Some 63)) q7)"
    and b: "between q q' = between q q1 @ between q1 q2 @ between q2 q3 @ between q3 q4 @ between q4 q5 @
      between q5 q6 @ between q6 q7 @ between q7 q'"
    unfolding version_re_def seqs.simps by (elim match_SeqE) metis
  have d: "list_all digit (between p p') \<and> length (between p p') = n"
    if "(c, p') \<in> set (match_re (Rep digit n (Some n)) p)" for c p p' n
    using that by (rule match_RepE) simp
  have l: "list_all version_char (between q q1)" "list_all version_char (between q2 q3)" "list_all version_char (between q4 q5)"
    using d [OF m(1)] d [OF m(3)] d [OF m(5)] vc by (auto simp: list_all_iff)
  obtain c where c: "alnum c" "between q6 q7 = [c]" using m(7) by (rule match_ClsE)
  have e: "list_all version_char (between q7 q') \<and> length (between q7 q') \<in> {2..63}"
    using m(8) by (rule match_RepE) simp
  have ch: "version_char CHR ''.''" "version_char CHR ''-''" by (simp_all add: version_char_def)
  show ?thesis
    using l c vc e ch d [OF m(1)] d [OF m(3)] d [OF m(5)] match_lit [OF m(2)] match_lit [OF m(4)] match_lit [OF m(6)]
    by (simp add: b)
qed

lemma template_match:
  assumes "find_from officialPkgTemplateRE b a = Some (q, cs, q')"
  shows "list_all version_char (cap 1 cs) \<and> length (cap 1 cs) \<in> {14..75}"
proof -
  from find_from_match [OF assms] obtain cs1 cs2 cs3 cs4 cs5 q1 q2 q3 q4 where
    m: "(cs1, q1) \<in> set (match_re TextStart q)"
      "(cs2, q2) \<in> set (match_re (lit ''https://downloads.cursor.com/lab/'') q1)"
      "(cs3, q3) \<in> set (match_re (Cap 1 version_re) q2)" and cs: "cs = cs1 @ cs2 @ cs3 @ cs4 @ cs5"
    unfolding officialPkgTemplateRE_def seqs.simps by (elim match_SeqE) (metis append.assoc)
  have "cs1 = []" using m(1) by (simp split: if_splits)
  moreover have "cs2 = []" using match_lit [OF m(2)] by simp
  moreover obtain cs' where "(cs', q3) \<in> set (match_re version_re q2)" "cs3 = (1, between q2 q3) # cs'"
    using m(3) by (rule match_CapE)
  ultimately show ?thesis using version_re_match by (simp add: cs cap_def)
qed

lemma parse_version:
  "parseOfficialInstaller body goos goarch = Inr info \<Longrightarrow>
    list_all version_char (ii_Version info) \<and> length (ii_Version info) \<in> {14..75}"
  using template_match
  by (auto simp: parseOfficialInstaller_def split: if_splits option.splits list.splits prod.splits)

text \<open>
  C21: when the install script is accepted, the package URL is the canonical one for the platform,
  whatever URL the script itself held, and the version is 14 to 75 bytes of letters, digits,
  dots, underscores and dashes (so one path element, never with a slash).
\<close>

theorem official_package_is_canonical:
  assumes "parseOfficialInstaller body goos goarch = Inr info"
  shows "\<exists>os arch. installerPlatform goos goarch = Some (os, arch) \<and>
      ii_PackageURL info = package_url (ii_Version info) os arch \<and>
      list_all version_char (ii_Version info) \<and> length (ii_Version info) \<in> {14..75}"
  using assms parse_version [OF assms]
  by (auto simp: parseOfficialInstaller_def split: if_splits option.splits list.splits prod.splits)

definition sample_script :: string where
  "sample_script = ''https://downloads.cursor.com/lab/2025.09.18-7ae/${OS}/${ARCH}/agent-cli-package.tar.gz''"

lemma sample_candidate:
  "find_from officialPkgCandidateRE [] sample_script = Some (([], sample_script), [], (rev sample_script, []))"
  by (simp add: sample_script_def officialPkgCandidateRE_def lit_def advance_def run_length_def not_delim_def re_space_def)

lemma sample_template:
  "find_from officialPkgTemplateRE [] sample_script = Some (([], sample_script), [(1, ''2025.09.18-7ae'')], (rev sample_script, []))"
  by (simp add: sample_script_def officialPkgTemplateRE_def version_re_def lit_def advance_def run_length_def
      between_def version_char_def alnum_def word_char_def digit_def)

lemma sample_candidates: "find_all_string officialPkgCandidateRE sample_script = [sample_script]"
proof -
  have "find_all r b [] = []" for r b by (simp add: find_all.simps [of r b "[]"] split: option.split)
  then show ?thesis
    by (simp add: find_all_string_def find_all.simps [of _ "[]" sample_script] sample_candidate between_def)
      (simp add: sample_script_def)
qed

theorem official_package_is_canonical_witness:
  "\<exists>info. parseOfficialInstaller sample_script ''linux'' ''amd64'' = Inr info \<and> length (ii_Version info) \<in> {14..75}"
proof -
  have p: "parseOfficialInstaller sample_script ''linux'' ''amd64'' = Inr \<lparr>ii_Version = ''2025.09.18-7ae'',
      ii_PackageURL = package_url ''2025.09.18-7ae'' ''linux'' ''x64''\<rparr>"
    by (simp add: parseOfficialInstaller_def installerPlatform_def sample_candidates sample_template cap_def)
       (simp add: sample_script_def)
  from official_package_is_canonical [OF p] p show ?thesis by auto
qed
text \<open>
  The check of a redirect looks at the host only, so a download that must start over HTTPS may be
  redirected to plain HTTP, and its answer is accepted.
\<close>

definition downgrade_env :: install_env where
  "downgrade_env =
     \<lparr>ie_ip6 = (\<lambda>_. False),
      ie_net = (\<lambda>u. if u = ''https://cursor.com/install'' then HttpRedirect ''http://cursor.com/i''
                    else HttpResponse 200 ''script'' None),
      ie_unpack = (\<lambda>_. \<lparr>pk_OpenErr = None, pk_Entries = [], pk_EndErr = None\<rparr>),
      ie_version = (\<lambda>_. Inl []), ie_sha256 = (\<lambda>_. []), ie_home = []\<rparr>"

lemma downgrade_urls:
  "map_sum (\<lambda>_. ()) (\<lambda>u. (u_Scheme u, url_Hostname u)) (url_Parse (\<lambda>_. False) ''https://cursor.com/install'') =
     Inr (''https'', ''cursor.com'')"
  "map_sum (\<lambda>_. ()) (\<lambda>u. (u_Scheme u, url_Hostname u)) (url_Parse (\<lambda>_. False) ''http://cursor.com/i'') =
     Inr (''http'', ''cursor.com'')"
  by code_simp+

theorem redirect_leaves_https:
  "fetchBounded downgrade_env ''https://cursor.com/install'' 131072 =
     ([''https://cursor.com/install'', ''http://cursor.com/i''], Inr ''script'')"
proof -
  obtain u v where u: "url_Parse (\<lambda>_. False) ''https://cursor.com/install'' = Inr u"
      "u_Scheme u = ''https''" "url_Hostname u = ''cursor.com''"
    and v: "url_Parse (\<lambda>_. False) ''http://cursor.com/i'' = Inr v" "url_Hostname v = ''cursor.com''"
    using downgrade_urls by (auto simp: map_sum_Inr_iff)
  have h: "allowedInstallerHost ''cursor.com''" by code_simp
  have env: "ie_ip6 downgrade_env = (\<lambda>_. False)" by (simp add: downgrade_env_def)
  have net: "ie_net downgrade_env ''https://cursor.com/install'' = HttpRedirect ''http://cursor.com/i''"
    "ie_net downgrade_env ''http://cursor.com/i'' = HttpResponse 200 ''script'' None"
    by (simp_all add: downgrade_env_def)
  have c: "client_do downgrade_env [] ''https://cursor.com/install'' =
      ([''https://cursor.com/install'', ''http://cursor.com/i''], Inr (200, ''script'', None))"
    using v h env net by (simp add: client_do.simps check_redirect_def)
  show ?thesis unfolding fetchBounded_def env u(1) using u h c by simp
qed
end
