(* ===== verification/Upgrade.thy ===== *)
theory Upgrade
  imports Served Installer GoRoundtrip
begin

section \<open>An upgrade switches the served version in one step\<close>

text \<open>
  The state that \<^verbatim>\<open>InstallOfficialCursorAgent\<close> keeps, as conditions on the files: the prior version
  is served (\<open>serves\<close>), the package has been unpacked (\<open>unpacked\<close>), staged (\<open>staged\<close>), moved to its
  place (\<open>in_place\<close>), and the links of \<open>.local/bin\<close> lead through \<open>current\<close> (\<open>linked\<close>). The steps are
  triples over them; any call of any step may fail.
\<close>

subsection \<open>Conditions and what keeps them\<close>

lemma sub_touched:
  "touched (b @ [x]) fs fs' \<Longrightarrow> beside R v b x \<Longrightarrow>
    sub (node_at fs') (versions R @ [v]) = sub (node_at fs) (versions R @ [v])"
  using relevant_beside [of R v _ b x]
  by (intro sub_cong) (auto simp: touched_def relevant_def)

lemma sub_self: "sub nd b [] = nd b"
  by (simp add: sub_def)

lemma complete_iff: "complete nd D \<longleftrightarrow> sub nd D [] = Some Dir \<and> closed (sub nd D)"
  by (simp add: complete_def sub_self)

lemma complete_touched:
  "complete (node_at fs) (versions R @ [v]) \<Longrightarrow> touched (b @ [x]) fs fs' \<Longrightarrow> beside R v b x \<Longrightarrow>
    complete (node_at fs') (versions R @ [v])"
  by (simp add: complete_iff sub_touched)

lemma versions_not_Nil [simp]: "versions R \<noteq> []" "share R \<noteq> []" "bins R \<noteq> []"
  by (simp_all add: versions_def share_def bins_def)

lemma path_suffix: "path_of (versions R @ [v]) @ s = path_of (versions R @ [v @ s])"
  by (simp add: path_of_snoc)

lemma version_dir_path: "good R \<Longrightarrow> plain_elem v \<Longrightarrow> v \<noteq> dotdot \<Longrightarrow> version_dir (path_of R) v = path_of (versions R @ [v])"
  by (simp add: version_dir_def join_name)

text \<open>Renaming and removing entries of real directories.\<close>

lemma rename_entry:
  assumes "sys_rename (path_of (p @ [a])) (path_of (r @ [b])) fs = Inr fs'"
    and "real_dir (node_at fs) p" "real_dir (node_at fs) r" "good (p @ [a])" "good (r @ [b])"
    and "\<not> prefix (p @ [a]) (r @ [b])" "\<not> prefix (r @ [b]) (p @ [a])"
  shows "fs' = move_tree (p @ [a]) (r @ [b]) fs"
  using assms(1,6,7) place_of_real [OF assms(2,4)] place_of_real [OF assms(3,5)]
  by (auto simp: sys_rename_def split: if_splits)

lemma remove_entry:
  assumes "sys_remove_all (path_of (p @ [a])) fs = Inr fs'" "real_dir (node_at fs) p" "good (p @ [a])"
  shows "touched (p @ [a]) fs fs'"
  using assms(1) place_of_real [OF assms(2,3)] by (auto simp: sys_remove_all_def touched_def)

lemma serves_dirs:
  "serves k nd R v q \<Longrightarrow> real_dir nd (versions R)" "serves k nd R v q \<Longrightarrow> real_dir nd (bins R)"
  "serves k nd R v q \<Longrightarrow> real_dir nd (share R)" "serves k nd R v q \<Longrightarrow> real_dir nd R"
  by (auto simp: serves_def versions_def share_def intro: real_dir_prefix)

lemma serves_more: "serves k nd R v q \<Longrightarrow> k \<le> m \<Longrightarrow> serves m nd R v q"
  by (auto simp: serves_def leads_def dest: resolve_more)

lemma serves_moved:
  assumes "serves k (node_at fs) R v q" "beside R v p a" "beside R v r b"
    and "\<not> prefix (p @ [a]) (r @ [b])" "\<not> prefix (r @ [b]) (p @ [a])"
  shows "serves k (node_at (move_tree (p @ [a]) (r @ [b]) fs)) R v q"
  using assms(1)
proof (rule serves_cong)
  fix z assume "relevant R v z"
  then have "\<not> prefix (p @ [a]) z" "\<not> prefix (r @ [b]) z" using relevant_beside assms(2,3) by blast+
  then show "node_at (move_tree (p @ [a]) (r @ [b]) fs) z = node_at fs z"
    by (simp add: node_at_move [OF assms(4,5)])
qed

lemma sub_moved:
  assumes "\<not> prefix a b" "\<not> prefix b a"
  shows "sub (node_at (move_tree a b fs)) b = sub (node_at fs) a"
  by (simp add: sub_def node_at_move [OF assms] fun_eq_iff)

text \<open>The active version through \<open>current\<close>.\<close>

lemma resolve_current:
  assumes "real_dir nd (versions R)" "good R" "nd (share R @ [''current'']) = Some (Link (version_target v))"
    and "plain_elem v" "v \<noteq> dotdot" "nd (versions R @ [v]) = Some Dir"
  shows "resolve nd (Suc n) True [] (share R @ [''current'']) = Inr (versions R @ [v])"
proof -
  have dirs: "nd (versions R) = Some Dir" "real_dir nd (share R)"
    using assms(1) by (auto simp: versions_def real_dir_self intro: real_dir_prefix)
  have abs: "\<not> is_abs (version_target v)" by (simp add: version_target_def)
  have "resolve nd (Suc n) True [] (share R @ [''current'']) = resolve nd (Suc n) True (share R) [''current'']"
    using resolve_dir [OF dirs(2)] assms(2) by simp
  also have "\<dots> = resolve nd n True (share R) [''versions'', v]"
    using assms(3,4) abs by (simp add: split_versions)
  also have "\<dots> = Inr (versions R @ [v])"
    using assms(4-6) dirs by (simp add: versions_def plain_elem_def)
  finally show ?thesis .
qed

lemma evalSymlinks_current:
  assumes "real_dir (node_at fs) (versions R)" "good R"
    and "node_at fs (share R @ [''current'']) = Some (Link (version_target v))"
    and "plain_elem v" "v \<noteq> dotdot" "node_at fs (versions R @ [v]) = Some Dir"
  shows "evalSymlinks fs (path_of (share R @ [''current''])) = Inr (path_of (versions R @ [v]))"
proof -
  have "good (share R @ [''current''])" using assms(2) by (simp add: plain_elem_def)
  then show ?thesis
    using resolve_current [OF assms, of 254] by (simp add: evalSymlinks_def resolve_path_of)
qed

lemma path_of_inj: "good p \<Longrightarrow> good q \<Longrightarrow> path_of p = path_of q \<longleftrightarrow> p = q"
  by (metis elems_path_of)

lemma serves_current:
  assumes "serves k (node_at fs) R v q" "good R" "plain_elem u" "u \<noteq> dotdot"
  shows "pointsToManagedVersion (path_of R) (managedCurrentLink (path_of R)) u fs = (u = v)"
proof -
  have "evalSymlinks fs (path_of (share R @ [''current''])) = Inr (path_of (versions R @ [v]))"
    using assms(1,2) by (intro evalSymlinks_current) (auto simp: serves_def complete_def)
  moreover have "good (versions R @ [v])" "good (versions R @ [u])"
    using assms by (auto simp: serves_def)
  ultimately show ?thesis
    using assms(2-4) by (auto simp: pointsToManagedVersion_def join_name path_of_inj)
qed

subsection \<open>Staging\<close>

abbreviation held :: "place \<Rightarrow> string \<Rightarrow> place \<Rightarrow> fs \<Rightarrow> bool" where
  "held R u q fs \<equiv> serves 253 (node_at fs) R u q"

definition safe :: "place \<Rightarrow> string \<Rightarrow> place \<Rightarrow> string \<Rightarrow> fs \<Rightarrow> bool" where
  "safe R u q v fs = (held R u q fs \<or> (\<exists>q'. serves 255 (node_at fs) R v q'))"

definition unpacked :: "place \<Rightarrow> string \<Rightarrow> place \<Rightarrow> string \<Rightarrow> fs \<Rightarrow> bool" where
  "unpacked R u q t fs = (held R u q fs \<and> complete (node_at fs) (R @ [t]))"

definition staged :: "place \<Rightarrow> string \<Rightarrow> place \<Rightarrow> string \<Rightarrow> fs \<Rightarrow> bool" where
  "staged R u q v fs = (held R u q fs \<and> complete (node_at fs) (versions R @ [v]))"

lemma held_safe: "held R u q fs \<Longrightarrow> safe R u q v fs"
  by (simp add: safe_def)

lemma staged_held: "staged R u q v fs \<Longrightarrow> held R u q fs"
  by (simp add: staged_def)

text \<open>A version \<open>v\<close> that the installation may work on while \<open>u\<close> is served.\<close>

definition separate :: "string \<Rightarrow> string \<Rightarrow> bool" where
  "separate u v = (plain_elem v \<and> v \<noteq> dotdot \<and> u \<noteq> v \<and> u \<noteq> v @ ''.new'' \<and> u \<noteq> v @ ''.old'')"

lemma separateD:
  assumes "separate u v"
  shows "plain_elem v" "v \<noteq> dotdot" "u \<noteq> v" "u \<noteq> v @ ''.new''" "u \<noteq> v @ ''.old''"
    "plain_elem (v @ ''.new'')" "v @ ''.new'' \<noteq> dotdot" "plain_elem (v @ ''.old'')" "v @ ''.old'' \<noteq> dotdot"
  using assms by (auto simp: separate_def plain_elem_def append_eq_Cons_conv)

lemma held_remove:
  assumes "held R u q fs" "sys_remove_all (path_of (versions R @ [x])) fs = Inr fs'"
    and "good R" "plain_elem x" "x \<noteq> dotdot" "x \<noteq> u"
  shows "held R u q fs'"
proof -
  have "touched (versions R @ [x]) fs fs'"
    using assms(2-5) serves_dirs(1) [OF assms(1)] by (intro remove_entry) simp_all
  from serves_touched [OF assms(1) this] assms(6) show ?thesis by simp
qed

lemma staged_remove:
  assumes "staged R u q v fs" "sys_remove_all (path_of (versions R @ [x])) fs = Inr fs'"
    and "good R" "plain_elem x" "x \<noteq> dotdot" "x \<noteq> u" "x \<noteq> v"
  shows "staged R u q v fs'"
proof -
  have h: "held R u q fs" and c: "complete (node_at fs) (versions R @ [v])"
    using assms(1) by (simp_all add: staged_def)
  have "touched (versions R @ [x]) fs fs'"
    using assms(2-5) serves_dirs(1) [OF h] by (intro remove_entry) simp_all
  from complete_touched [OF c this] held_remove [OF h assms(2-6)] assms(7) show ?thesis
    by (simp add: staged_def)
qed

text \<open>Renaming one version to another while a third is served.\<close>

lemma rename_version:
  assumes "held R u q fs" "sys_rename (path_of (versions R @ [x])) (path_of (versions R @ [y])) fs = Inr fs'"
    and "good R" "plain_elem x" "x \<noteq> dotdot" "plain_elem y" "y \<noteq> dotdot" "x \<noteq> u" "y \<noteq> u" "x \<noteq> y"
  shows "held R u q fs'"
    and "complete (node_at fs) (versions R @ [x]) \<Longrightarrow> complete (node_at fs') (versions R @ [y])"
    and "complete (node_at fs) (versions R @ [v]) \<Longrightarrow> v \<noteq> x \<Longrightarrow> v \<noteq> y \<Longrightarrow> complete (node_at fs') (versions R @ [v])"
proof -
  have np: "\<not> prefix (versions R @ [x]) (versions R @ [y])" "\<not> prefix (versions R @ [y]) (versions R @ [x])"
    using assms(10) by auto
  have fs': "fs' = move_tree (versions R @ [x]) (versions R @ [y]) fs"
    using assms(2-7) serves_dirs(1) [OF assms(1)] np by (intro rename_entry) simp_all
  show "held R u q fs'"
    unfolding fs' using assms(1,8,9) np by (intro serves_moved) simp_all
  show "complete (node_at fs) (versions R @ [x]) \<Longrightarrow> complete (node_at fs') (versions R @ [y])"
    unfolding fs' complete_iff by (simp add: sub_moved [OF np])
  assume c: "complete (node_at fs) (versions R @ [v])" and v: "v \<noteq> x" "v \<noteq> y"
  have "sub (node_at fs') (versions R @ [v]) = sub (node_at fs) (versions R @ [v])"
    unfolding fs' node_at_move [OF np] using v by (intro sub_cong) (auto dest: prefix_same_cases)
  with c show "complete (node_at fs') (versions R @ [v])" by (simp add: complete_iff)
qed

lemma rename_unpacked:
  assumes "unpacked R u q t fs" "sys_rename (path_of (R @ [t])) (path_of (versions R @ [y])) fs = Inr fs'"
    and "good R" "plain_elem t" "t \<noteq> dotdot" "t \<noteq> ''.local''" "plain_elem y" "y \<noteq> dotdot" "y \<noteq> u"
  shows "staged R u q y fs'"
proof -
  have h: "held R u q fs" and c: "complete (node_at fs) (R @ [t])"
    using assms(1) by (simp_all add: unpacked_def)
  have np: "\<not> prefix (R @ [t]) (versions R @ [y])" "\<not> prefix (versions R @ [y]) (R @ [t])"
    using assms(6) by (auto simp: versions_def share_def dest: prefix_length_le)
  have fs': "fs' = move_tree (R @ [t]) (versions R @ [y]) fs"
    using assms(2-8) serves_dirs [OF h] np by (intro rename_entry) simp_all
  have "held R u q fs'"
    unfolding fs' using h assms(6,9) np by (intro serves_moved) simp_all
  with c show ?thesis unfolding staged_def fs' complete_iff by (simp add: sub_moved [OF np])
qed

lemma stage_version_triple:
  assumes "separate u v" "good R" "plain_elem t" "t \<noteq> dotdot" "t \<noteq> ''.local''"
  shows "triple (safe R u q w) (unpacked R u q t) (stage_version (path_of (versions R @ [v])) (path_of (R @ [t])))
    (\<lambda>_. staged R u q (v @ ''.new'')) (held R u q)"
proof -
  note v = separateD [OF assms(1)]
  let ?new = "v @ ''.new''" and ?old = "v @ ''.old''"
  have uh: "unpacked R u q t fs \<Longrightarrow> held R u q fs" for fs by (simp add: unpacked_def)
  have rm_new: "sys_remove_all (path_of (versions R @ [?new])) fs = Inr fs' \<Longrightarrow> held R u q fs \<Longrightarrow> held R u q fs'"
    for fs fs' using held_remove assms(2) v by metis
  have rm_new': "unpacked R u q t fs'"
    if "sys_remove_all (path_of (versions R @ [?new])) fs = Inr fs'" "unpacked R u q t fs" for fs fs'
  proof -
    have h: "held R u q fs" and c: "complete (node_at fs) (R @ [t])"
      using that(2) by (simp_all add: unpacked_def)
    have "touched (versions R @ [?new]) fs fs'"
      using that(1) assms(2) v serves_dirs(1) [OF h] by (intro remove_entry) simp_all
    then have "sub (node_at fs') (R @ [t]) = sub (node_at fs) (R @ [t])"
      using assms(5) by (intro sub_cong) (auto simp: touched_def versions_def share_def prefix_def)
    with c rm_new [OF that(1) h] show ?thesis by (simp add: unpacked_def complete_iff)
  qed
  have rn: "sys_rename (path_of (R @ [t])) (path_of (versions R @ [?new])) fs = Inr fs' \<Longrightarrow>
      unpacked R u q t fs \<Longrightarrow> staged R u q ?new fs'" for fs fs'
    using rename_unpacked assms(2-5) v by metis
  have rm_old: "sys_remove_all (path_of (versions R @ [?old])) fs = Inr fs' \<Longrightarrow> staged R u q ?new fs \<Longrightarrow>
      staged R u q ?new fs'" for fs fs'
    using staged_remove [of R u q ?new fs ?old fs'] assms(2) v by simp
  have bk: "staged R u q ?new fs'"
    if r: "sys_rename (path_of (versions R @ [v])) (path_of (versions R @ [?old])) fs = Inr fs'"
      and "staged R u q ?new fs" for fs fs'
  proof -
    have h: "held R u q fs" and c: "complete (node_at fs) (versions R @ [?new])"
      using that(2) by (simp_all add: staged_def)
    show ?thesis
      unfolding staged_def using rename_version(1) [OF h r] rename_version(3) [OF h r _ _ _ _ _ _ _ _ c] assms(2) v
      by simp
  qed
  note sh = held_safe [where R = R and v = w] uh staged_held
  show ?thesis
    unfolding stage_version_def path_suffix io_remove_all_def io_rename_def
    apply (rule triple_bind [where Q = "\<lambda>_. unpacked R u q t"], rule triple_ignore)
      apply (blast intro: sh)
     apply (blast intro: sh rm_new')
    apply (rule triple_bind [where Q = "\<lambda>_. staged R u q ?new"], rule triple_wrap, rule triple_call)
      apply (blast intro: sh)
     apply (blast intro: sh rn)
    apply (rule triple_bind [where Q = "\<lambda>_. staged R u q ?new"], rule triple_ignore)
      apply (blast intro: sh)
     apply (blast intro: sh rm_old)
    apply (rule triple_bind [where Q = "\<lambda>_. staged R u q ?new"], rule triple_ask)
     apply (auto intro: sh) [1]
    apply (rule triple_if)
     apply (rule triple_bind [where Q = "\<lambda>_. staged R u q ?new"], rule triple_on_error [where ?E1.0 = "held R u q"])
       apply (rule triple_wrap, rule triple_call)
        apply (blast intro: sh)
       apply (blast intro: sh bk)
      apply (simp only: snd_ignore_io)
      apply (rule went_ignore, assumption)
       apply (blast intro: sh rm_new)+
     apply (rule triple_return, blast intro: sh)
    apply (rule triple_return, blast intro: sh)
    done
qed

subsection \<open>Checking the binary in its place\<close>

definition checked :: "place \<Rightarrow> string \<Rightarrow> place \<Rightarrow> string \<Rightarrow> fs \<Rightarrow> bool" where
  "checked R u q v fs =
     (staged R u q v fs \<and>
      (\<exists>q'. q' \<noteq> [] \<and> resolve (sub (node_at fs) (versions R @ [v])) 255 True [] q = Inr q'))"

lemma checked_held: "checked R u q v fs \<Longrightarrow> held R u q fs"
  by (simp add: checked_def staged_def)

lemma safeArchivePath_join:
  assumes "good q" "q \<noteq> []" "safeArchivePath (join_on ''/'' q) = Inr c"
  shows "c = join_on ''/'' q"
proof -
  have s: "split_on ''/'' (join_on ''/'' q) = q" by (rule split_join_good [OF assms(1,2)])
  have "\<not> prefix ''./'' (join_on ''/'' q)"
  proof
    assume "prefix ''./'' (join_on ''/'' q)"
    then obtain r where "join_on ''/'' q = dot @ slash # r" by (auto simp: prefix_def)
    with s have "q = dot # split_on ''/'' r" by (simp add: split_on_byte_Cons)
    with assms(1) show False by (simp add: plain_elem_def)
  qed
  then have "trim_prefix (join_on ''/'' q) ''./'' = join_on ''/'' q" by (simp add: trim_prefix_def)
  moreover have "clean (join_on ''/'' q) = join_on ''/'' q"
    using elems_join [OF good_normal [OF assms(1)] assms(2)] join_good_head(2) [OF assms(1,2)] assms(2)
    by (simp add: clean_def)
  ultimately show ?thesis using assms(3) by (auto simp: safeArchivePath_def Let_def split: if_splits)
qed

lemma path_rel_self: "good p \<Longrightarrow> path_rel (path_of p) (path_of p) = Some dot"
proof -
  have "longest_common_prefix p p = p" by (induction p) auto
  then show "good p \<Longrightarrow> ?thesis" by (simp add: path_rel_def)
qed

lemma validate_checked:
  assumes "staged R u q v fs" "good R" "plain_elem v" "v \<noteq> dotdot"
    and "validateExtractedBinaryPath (path_of (versions R @ [v])) (join_on ''/'' q) fs = Inr c"
  shows "checked R u q v fs"
proof -
  let ?b = "versions R @ [v]"
  have h: "held R u q fs" and c: "complete (node_at fs) ?b" using assms(1) by (simp_all add: staged_def)
  have q: "good q" "q \<noteq> []" using serves_good [OF h] h by (auto simp: serves_def)
  have rd: "real_dir (node_at fs) ?b"
    using serves_dirs(1) [OF h] c by (simp add: real_dir_snoc complete_def)
  have g: "good ?b" "good (?b @ q)" using assms(2-4) q(1) by simp_all
  from assms(5) obtain z where z: "evalSymlinks fs (path_of (?b @ q)) = Inr z"
    "\<not> escapes_base (path_rel (path_of ?b) z)"
    using safeArchivePath_join [OF q] path_join_good [OF g(1) q] evalSymlinks_real [OF rd g(1)]
    by (auto simp: validateExtractedBinaryPath_def Let_def split: sum.splits if_splits)
  then obtain r where r: "resolve (node_at fs) 255 True [] (?b @ q) = Inr r" "z = path_of r"
    using g(2) by (auto simp: evalSymlinks_def resolve_path_of map_sum_Inr_iff)
  have "resolve (node_at fs) 255 True [] (?b @ q) = resolve (node_at fs) 255 True (?b @ []) q"
    using resolve_dir [OF rd g(1), of 255 True q] by simp
  also have "\<dots> = map_sum (\<lambda>e. e) ((@) ?b) (resolve (sub (node_at fs) ?b) 255 True [] q)"
    using c q(1) by (intro resolve_sub) (auto simp: complete_def good_def)
  finally obtain q' where q': "resolve (sub (node_at fs) ?b) 255 True [] q = Inr q'" "r = ?b @ q'"
    using r(1) by (auto simp: map_sum_Inr_iff)
  have "q' \<noteq> []"
  proof
    assume "q' = []"
    then have "path_rel (path_of ?b) z = Some dot"
      using r(2) q'(2) path_rel_self [OF g(1)] by simp
    with z(2) show False by (simp add: escapes_base_def)
  qed
  with q'(1) assms(1) show ?thesis by (auto simp: checked_def)
qed

lemma checked_touched:
  assumes "checked R u q v fs" "touched (b @ [x]) fs fs'" "beside R u b x" "beside R v b x"
  shows "checked R u q v fs'"
  using assms serves_touched [of 253 fs R u q b x fs'] complete_touched [of fs R v b x fs'] sub_touched [of b x fs fs' R v]
  by (auto simp: checked_def staged_def)

subsection \<open>The links of the bin directory\<close>

definition bin_linked :: "place \<Rightarrow> place \<Rightarrow> string \<Rightarrow> fs \<Rightarrow> bool" where
  "bin_linked R q name fs = (node_at fs (bins R @ [name]) = Some (Link (through_current @ join_on ''/'' q)))"

lemma apart:
  "prefix (versions R @ [v]) z \<Longrightarrow> \<not> prefix (bins R @ [x]) z"
  "prefix (versions R @ [v]) z \<Longrightarrow> x \<noteq> ''versions'' \<Longrightarrow> \<not> prefix (share R @ [x]) z"
  by (auto simp: versions_def bins_def share_def prefix_def)

lemma chain_apart:
  "prefix z (bins R) \<Longrightarrow> \<not> prefix (bins R @ [x]) z" "prefix z (versions R) \<Longrightarrow> \<not> prefix (bins R @ [x]) z"
  "prefix z (bins R) \<Longrightarrow> x \<noteq> ''versions'' \<Longrightarrow> \<not> prefix (share R @ [x]) z"
  "prefix z (versions R) \<Longrightarrow> x \<noteq> ''versions'' \<Longrightarrow> \<not> prefix (share R @ [x]) z"
  using prefix_length_le by (fastforce simp: versions_def bins_def share_def prefix_def append_eq_append_conv2
      append_eq_Cons_conv Cons_eq_append_conv)+

lemma switched_bin:
  assumes "switched (bins R @ [name]) (through_current @ join_on ''/'' q) (bins R @ [x]) fs fs'"
    and "checked R u q v fs" "name \<in> set bin_names" "x \<notin> set bin_names"
  shows "checked R u q v fs'" "bin_linked R q name fs'"
    "bin_linked R q n fs \<Longrightarrow> n \<in> set bin_names \<Longrightarrow> bin_linked R q n fs'"
proof -
  let ?nd = "node_at fs" and ?nd' = "node_at fs'"
  have same: "?nd' z = ?nd z" if "\<not> prefix (bins R @ [name]) z" "\<not> prefix (bins R @ [x]) z" for z
    using assms(1) that by (simp add: switched_def)
  have link: "?nd' (bins R @ [name]) = Some (Link (through_current @ join_on ''/'' q))"
    using assms(1) by (simp add: switched_def)
  have h: "held R u q fs" and c: "complete ?nd (versions R @ [v])"
    using assms(2) by (simp_all add: checked_def staged_def)
  have q: "good q" "q \<noteq> []" using serves_good [OF h] h by (auto simp: serves_def)
  have s: "sub ?nd' (versions R @ [w]) = sub ?nd (versions R @ [w])" for w
    using apart(1) by (intro sub_cong same) blast+
  have rd: "real_dir ?nd' (bins R) = real_dir ?nd (bins R)" "real_dir ?nd' (versions R) = real_dir ?nd (versions R)"
    using chain_apart(1,2) by (auto simp: real_dir_def same)
  have cur: "?nd' (share R @ [''current'']) = ?nd (share R @ [''current''])"
    by (rule same) (simp_all add: share_def bins_def)
  obtain rel where "resolve (sub ?nd (versions R @ [u])) 253 True [] (split_on ''/'' rel) = Inr q"
    "sub ?nd (versions R @ [u]) [] = Some Dir"
    using h by (auto simp: serves_def leads_def complete_def sub_self)
  then have again: "resolve (sub ?nd (versions R @ [u])) 253 True [] q = Inr q"
    using resolve_again q(1) by blast
  have other: "?nd' (bins R @ [n]) = ?nd (bins R @ [n])" if "n \<in> set bin_names" "n \<noteq> name" for n
    using that assms(4) by (intro same) auto
  have leads': "leads 253 ?nd' R u q n" if "n \<in> set bin_names" for n
  proof (cases "n = name")
    case True
    then show ?thesis
      using link again split_join_good [OF q] q(1) by (auto simp: leads_def s good_def)
  next
    case False
    with other [OF that] h that show ?thesis by (auto simp: serves_def leads_def s bin_names_def)
  qed
  have "held R u q fs'"
    using h leads' by (simp add: serves_def rd cur complete_iff s bin_names_def)
  then show "checked R u q v fs'"
    using assms(2) by (simp add: checked_def staged_def complete_iff s)
  show "bin_linked R q name fs'" using link by (simp add: bin_linked_def)
  show "bin_linked R q n fs \<Longrightarrow> n \<in> set bin_names \<Longrightarrow> bin_linked R q n fs'"
    using other [of n] link by (cases "n = name") (auto simp: bin_linked_def)
qed

lemma bin_link_target:
  assumes "good R" "good q" "q \<noteq> []"
  shows "path_rel (managedBinDir (path_of R)) (path_join [managedCurrentLink (path_of R), join_on ''/'' q]) =
    Some (through_current @ join_on ''/'' q)"
proof -
  have g: "good (share R @ [''current''])" using assms(1) by (simp add: plain_elem_def)
  have "longest_common_prefix (R @ [''.local'', ''bin'']) (R @ ''.local'' # ''share'' # z) = R @ [''.local'']" for z
    by (induction R) auto
  then have lcp: "longest_common_prefix (bins R) (share R @ ''current'' # q) = R @ [''.local'']"
    by (simp add: bins_def share_def)
  have ne: "dotdot # ''share'' # z = [] \<longleftrightarrow> False" for z by simp
  have "join_on ''/'' (dotdot # ''share'' # ''cursor-agent'' # ''current'' # q) = through_current @ join_on ''/'' q"
    using assms(3) by (simp add: join_on_Cons through_current_def)
  then show ?thesis
    using assms g path_join_good [OF g assms(2,3)]
    by (simp add: path_rel_def Let_def lcp) (simp add: bins_def share_def)
qed

text \<open>One link replaced while the prior version stays served.\<close>

lemma tmp_name_beside: "n \<in> set bin_names \<Longrightarrow> tmp_name n r \<notin> set bin_names"
  by (auto simp: tmp_name_def bin_names_def)

lemma replace_bin_triple:
  assumes "good R" "n \<in> set bin_names"
  shows "triple (safe R u q w) (\<lambda>fs. checked R u q v fs \<and> (\<forall>m \<in> set done'. bin_linked R q m fs) \<and> set done' \<subseteq> set bin_names)
    (replaceSymlink (path_of (bins R @ [n])) (through_current @ join_on ''/'' q))
    (\<lambda>_ fs. checked R u q v fs \<and> (\<forall>m \<in> set (n # done'). bin_linked R q m fs) \<and> set (n # done') \<subseteq> set bin_names)
    (held R u q)"
proof (rule tripleI, elim conjE)
  fix d :: disk and r d'
  let ?t = "through_current @ join_on ''/'' q"
  assume c: "checked R u q v (files d)" and l: "\<forall>m \<in> set done'. bin_linked R q m (files d)"
    and s: "set done' \<subseteq> set bin_names" and run: "replaceSymlink (path_of (bins R @ [n])) ?t d = (r, d')"
  have g: "good (bins R @ [n])" using assms by (auto simp: bin_names_def plain_elem_def)
  have rd: "real_dir (node_at (files d)) (bins R)" by (rule serves_dirs(2) [OF checked_held [OF c]])
  obtain k where w: "went (\<lambda>fs. touched (bins R @ [tmp_name n k]) (files d) fs \<or>
        switched (bins R @ [n]) ?t (bins R @ [tmp_name n k]) (files d) fs) d d'"
    and e: "case r of Inl e \<Rightarrow> touched (bins R @ [tmp_name n k]) (files d) (files d')
      | Inr _ \<Rightarrow> switched (bins R @ [n]) ?t (bins R @ [tmp_name n k]) (files d) (files d')"
    using replaceSymlink_steps [OF g rd run] by blast
  have x: "tmp_name n k \<notin> set bin_names" by (rule tmp_name_beside [OF assms(2)])
  have t: "touched (bins R @ [tmp_name n k]) (files d) fs \<Longrightarrow> held R u q fs" for fs
    using serves_touched [OF checked_held [OF c]] x by (simp add: bin_names_def)
  note sw = switched_bin [OF _ c assms(2) x]
  have "went (safe R u q w) d d'"
    using w by (rule went_mono) (auto intro: held_safe t dest: sw(1) checked_held)
  moreover have "outcome (\<lambda>_ fs. checked R u q v fs \<and> (\<forall>m \<in> set (n # done'). bin_linked R q m fs) \<and>
      set (n # done') \<subseteq> set bin_names) (held R u q) r (files d')"
    using e l s assms(2) sw t by (cases r) auto
  ultimately show "went (safe R u q w) d d' \<and> outcome (\<lambda>_ fs. checked R u q v fs \<and>
      (\<forall>m \<in> set (n # done'). bin_linked R q m fs) \<and> set (n # done') \<subseteq> set bin_names) (held R u q) r (files d')"
    by blast
qed

definition linked :: "place \<Rightarrow> string \<Rightarrow> place \<Rightarrow> string \<Rightarrow> fs \<Rightarrow> bool" where
  "linked R u q v fs = (checked R u q v fs \<and> bin_linked R q ''agent'' fs \<and> bin_linked R q ''cursor-agent'' fs)"

lemma ensureStableBinLinks_triple:
  assumes "good R" "good q" "q \<noteq> []"
  shows "triple (safe R u q w) (checked R u q v) (ensureStableBinLinks (path_of R) (join_on ''/'' q))
    (\<lambda>_. linked R u q v) (held R u q)"
proof -
  let ?t = "through_current @ join_on ''/'' q"
  have na: "\<not> is_abs ?t" by (simp add: through_current_def)
  have j: "path_join [path_of (bins R), n] = path_of (bins R @ [n])" if "n \<in> set bin_names" for n
    using assms(1) that by (auto simp: bin_names_def join_name plain_elem_def)
  have lb: "link_bins b t' (n # ns) = bind_io (replaceSymlink (path_join [b, n]) t') (\<lambda>_. link_bins b t' ns)"
    "link_bins b t' [] = return_io ()" for b t' n ns
    by (rule ext, simp)+
  have n: "''agent'' \<in> set bin_names" "''cursor-agent'' \<in> set bin_names" by (simp_all add: bin_names_def)
  have r1: "triple (safe R u q w) (checked R u q v) (replaceSymlink (path_of (bins R @ [''agent''])) ?t)
      (\<lambda>_ fs. checked R u q v fs \<and> bin_linked R q ''agent'' fs) (held R u q)"
    by (rule triple_mono [OF replace_bin_triple [OF assms(1) n(1), where done' = "[]"]]) auto
  have r2: "triple (safe R u q w) (\<lambda>fs. checked R u q v fs \<and> bin_linked R q ''agent'' fs)
      (replaceSymlink (path_of (bins R @ [''cursor-agent''])) ?t) (\<lambda>_. linked R u q v) (held R u q)"
    by (rule triple_mono [OF replace_bin_triple [OF assms(1) n(2), where done' = "[''agent'']"]])
      (auto simp: linked_def n)
  have "triple (safe R u q w) (checked R u q v) (link_bins (path_of (bins R)) ?t bin_names) (\<lambda>_. linked R u q v) (held R u q)"
    unfolding bin_names_def lb j [OF n(1)] j [OF n(2)]
    by (rule triple_bind [OF r1], rule triple_bind [OF r2], rule triple_return)
      (auto simp: linked_def intro: held_safe checked_held)
  then show ?thesis
    unfolding ensureStableBinLinks_def bin_link_target [OF assms]
    using assms(1) na
    by (auto intro!: triple_bind [OF triple_mkdir_real] simp: serves_dirs(2) held_safe checked_held
        dest: checked_held)
qed

subsection \<open>The switch\<close>

lemma join_target: "plain_elem v \<Longrightarrow> v \<noteq> dotdot \<Longrightarrow> path_join [''versions'', v] = version_target v"
proof -
  assume v: "plain_elem v" "v \<noteq> dotdot"
  then have g: "good [''versions'', v]" by (simp add: plain_elem_def)
  have j: "join_on ''/'' [''versions'', v] = version_target v" by (simp add: version_target_def)
  have "clean (version_target v) = version_target v"
    using elems_join [OF good_normal [OF g]] by (simp add: clean_def j) (simp add: version_target_def)
  then show ?thesis
    using v by (simp add: path_join_two plain_elem_def) (simp add: version_target_def)
qed

lemma switched_current:
  assumes "switched (share R @ [''current'']) (version_target v) (share R @ [x]) fs fs'"
    and "linked R u q v fs" "separate u v" "x \<noteq> ''versions''"
  shows "\<exists>q'. serves 255 (node_at fs') R v q'"
proof -
  let ?nd = "node_at fs" and ?nd' = "node_at fs'"
  have same: "?nd' z = ?nd z" if "\<not> prefix (share R @ [''current'']) z" "\<not> prefix (share R @ [x]) z" for z
    using assms(1) that by (simp add: switched_def)
  have c: "checked R u q v fs" using assms(2) by (simp add: linked_def)
  note h = checked_held [OF c]
  have q: "good q" "q \<noteq> []" using serves_good [OF h] h by (auto simp: serves_def)
  have s: "sub ?nd' (versions R @ [v]) = sub ?nd (versions R @ [v])"
    using apart(2) [of R v] assms(4) by (intro sub_cong same) auto
  have rd: "real_dir ?nd' (bins R)" "real_dir ?nd' (versions R)"
    using serves_dirs(1,2) [OF h] chain_apart(3,4) assms(4) by (auto simp: real_dir_def same)
  have bin: "?nd' (bins R @ [n]) = ?nd (bins R @ [n])" for n
    by (rule same) (simp_all add: share_def bins_def)
  obtain q' where q': "q' \<noteq> []" "resolve (sub ?nd (versions R @ [v])) 255 True [] q = Inr q'"
    using c by (auto simp: checked_def)
  have leads': "leads 255 ?nd' R v q' n" if "bin_linked R q n fs" for n
    using that q' split_join_good [OF q] q(1)
    by (auto simp: leads_def bin s bin_linked_def good_def)
  have "serves 255 ?nd' R v q'"
    using assms(1,2,3) rd q'(1) c leads'
    by (simp add: serves_def complete_iff s checked_def staged_def linked_def switched_def separate_def)
  then show ?thesis by blast
qed

lemma check_current_serves:
  assumes "serves k (node_at fs) R v q" "good R"
  shows "check_current (path_of R) v fs = Inr ()"
proof -
  have v: "good [v]" using assms(1) by (simp add: serves_def)
  have "evalSymlinks fs (path_of (share R @ [''current''])) = Inr (path_of (versions R @ [v]))"
    using assms by (intro evalSymlinks_current) (auto simp: serves_def complete_def)
  moreover have "evalSymlinks fs (path_of (versions R)) = Inr (path_of (versions R))"
    using assms serves_dirs(1) by (intro evalSymlinks_real) auto
  moreover have "path_rel (path_of (versions R)) (path_of (versions R @ [v])) = Some v"
    using path_rel_below [of "versions R" "[v]"] assms(2) v by simp
  ultimately show ?thesis using assms(2) by (simp add: check_current_def)
qed

lemma replace_current_triple:
  assumes "good R" "separate u v"
  shows "triple (safe R u q v) (linked R u q v) (replaceCurrentLink (path_of R) v)
    (\<lambda>_ fs. \<exists>q'. serves 255 (node_at fs) R v q') (held R u q)"
proof -
  note v = separateD [OF assms(2)]
  have lh: "linked R u q v fs \<Longrightarrow> held R u q fs" for fs by (auto simp: linked_def dest: checked_held)
  have pts: "linked R u q v fs \<Longrightarrow> \<not> pointsToManagedVersion (path_of R) (managedCurrentLink (path_of R)) v fs" for fs
    using serves_current [OF lh assms(1) v(1,2)] v(3) by simp
  have g: "good (share R @ [''current''])" using assms(1) by (simp add: plain_elem_def)
  have rs: "triple (safe R u q v) (linked R u q v) (replaceSymlink (path_of (share R @ [''current''])) (version_target v))
      (\<lambda>_ fs. \<exists>q'. serves 255 (node_at fs) R v q') (held R u q)"
  proof (rule tripleI)
    fix d :: disk and r d'
    assume l: "linked R u q v (files d)"
      and run: "replaceSymlink (path_of (share R @ [''current''])) (version_target v) d = (r, d')"
    obtain k where w: "went (\<lambda>fs. touched (share R @ [tmp_name ''current'' k]) (files d) fs \<or>
          switched (share R @ [''current'']) (version_target v) (share R @ [tmp_name ''current'' k]) (files d) fs) d d'"
      and e: "case r of Inl e \<Rightarrow> touched (share R @ [tmp_name ''current'' k]) (files d) (files d')
        | Inr _ \<Rightarrow> switched (share R @ [''current'']) (version_target v) (share R @ [tmp_name ''current'' k]) (files d) (files d')"
      using replaceSymlink_steps [OF g serves_dirs(3) [OF lh [OF l]] run] by blast
    have x: "tmp_name ''current'' k \<notin> {''current'', ''versions''}" by (simp add: tmp_name_def)
    have t: "touched (share R @ [tmp_name ''current'' k]) (files d) fs \<Longrightarrow> held R u q fs" for fs
      using serves_touched [OF lh [OF l]] x by simp
    have sw: "switched (share R @ [''current'']) (version_target v) (share R @ [tmp_name ''current'' k]) (files d) fs \<Longrightarrow>
        \<exists>q'. serves 255 (node_at fs) R v q'" for fs
      using switched_current [OF _ l assms(2)] x by simp
    show "went (safe R u q v) d d' \<and> outcome (\<lambda>_ fs. \<exists>q'. serves 255 (node_at fs) R v q') (held R u q) r (files d')"
      using went_mono [OF w, of "safe R u q v"] e t sw by (cases r) (auto simp: safe_def)
  qed
  show ?thesis
    unfolding replaceCurrentLink_def managed_paths [OF assms(1)] join_target [OF v(1,2)]
    apply (rule triple_bind [OF triple_mkdir_real])
      apply (simp add: lh held_safe serves_dirs(3) [OF lh])
     apply (simp add: assms(1))
    apply (rule triple_bind [where Q = "\<lambda>x fs. \<not> x \<and> linked R u q v fs"], rule triple_ask)
     apply (use pts assms(1) in \<open>auto intro: held_safe lh\<close>) [1]
    apply (rule triple_if)
     apply (rule triple_return, simp)
    apply (rule triple_bind [where Q = "\<lambda>_ fs. \<exists>q'. serves 255 (node_at fs) R v q'"], rule triple_mono [OF rs])
       apply auto [3]
    apply (rule triple_ask)
    apply (auto simp: check_current_serves assms(1) safe_def)
    done
qed

lemma same_current_triple:
  assumes "good R"
  shows "triple (safe R u q w) (checked R u q v) (replaceCurrentLink (path_of R) u) (\<lambda>_. checked R u q v) (held R u q)"
proof -
  have pts: "checked R u q v fs \<Longrightarrow> pointsToManagedVersion (path_of R) (managedCurrentLink (path_of R)) u fs" for fs
    using serves_current [OF checked_held assms] checked_held by (auto simp: serves_def)
  show ?thesis
    unfolding replaceCurrentLink_def managed_paths(1) [OF assms]
    apply (rule triple_bind [OF triple_mkdir_real])
      apply (auto intro: held_safe serves_dirs(3) dest: checked_held) [1]
     apply (simp add: assms)
    apply (rule triple_bind [where Q = "\<lambda>x fs. x \<and> checked R u q v fs"], rule triple_ask)
     apply (use pts in \<open>auto intro: held_safe checked_held\<close>) [1]
    apply (rule triple_if)
     apply (rule triple_return, auto intro: held_safe checked_held) [1]
    apply (simp add: triple_def)
    done
qed

subsection \<open>Activation and rollback\<close>

lemma activate_triple:
  assumes "good R" "separate u v" "good q" "q \<noteq> []" "mi_Installed prior" "mi_Version prior = u"
  shows "triple (safe R u q v) (staged R u q (v @ ''.new'')) (activate_version (path_of R) v (join_on ''/'' q) prior)
    (\<lambda>_ fs. \<exists>q'. serves 255 (node_at fs) R v q') (held R u q)"
proof -
  note v = separateD [OF assms(2)]
  let ?new = "v @ ''.new''"
  have rn: "staged R u q v fs'"
    if r: "sys_rename (path_of (versions R @ [?new])) (path_of (versions R @ [v])) fs = Inr fs'"
      and s: "staged R u q ?new fs" for fs fs'
    using rename_version(1,2) [OF staged_held [OF s] r] s assms(1) v by (simp add: staged_def)
  have rm: "sys_remove_all (path_of (versions R @ [?new])) fs = Inr fs' \<Longrightarrow> held R u q fs \<Longrightarrow> held R u q fs'"
    for fs fs' using held_remove assms(1) v by metis
  have ck: "staged R u q v fs \<Longrightarrow> validateExtractedBinaryPath (path_of (versions R @ [v])) (join_on ''/'' q) fs = Inr c \<Longrightarrow>
      checked R u q v fs" for fs c
    using validate_checked assms(1) v by blast
  show ?thesis
    unfolding activate_version_def version_dir_path [OF assms(1) v(1,2)] Let_def path_suffix io_remove_all_def io_rename_def
    apply (rule triple_bind [where Q = "\<lambda>_. staged R u q v"], rule triple_on_error [where ?E1.0 = "held R u q"])
      apply (rule triple_wrap, rule triple_call)
       apply (blast intro: held_safe staged_held)
      apply (blast intro: held_safe staged_held rn)
     apply (simp only: snd_ignore_io)
     apply (rule went_ignore, assumption)
      apply (blast intro: held_safe rm)+
    apply (rule triple_bind [where Q = "\<lambda>_. checked R u q v"], rule triple_ask)
     apply (rule conjI, blast intro: held_safe staged_held)
     apply (case_tac "validateExtractedBinaryPath (path_of (versions R @ [v])) (join_on ''/'' q) fs")
      apply (simp add: staged_held)
     apply (simp add: ck)
    apply (rule triple_bind [where Q = "\<lambda>_. checked R u q v"])
     apply (simp add: assms(5,6))
     apply (rule triple_wrap, rule same_current_triple [OF assms(1)])
    apply (rule triple_bind [where Q = "\<lambda>_. linked R u q v"])
     apply (rule triple_wrap, rule ensureStableBinLinks_triple [OF assms(1,3,4)])
    apply (rule triple_wrap, rule replace_current_triple [OF assms(1,2)])
    done
qed

lemma rollback_held:
  assumes "good R" "separate u v" "held R u q (files d)"
  shows "went (safe R u q v) d (rollback (path_of R) (path_of (versions R @ [v])) existed True d) \<and>
    held R u q (files (rollback (path_of R) (path_of (versions R @ [v])) existed True d))"
proof -
  note v = separateD [OF assms(2)]
  let ?rm = "attempt (sys_remove_all (path_of (versions R @ [v])))"
  let ?mv = "attempt (sys_rename (path_of (versions R @ [v @ ''.old''])) (path_of (versions R @ [v])))"
  have rm: "went (safe R u q v) d (snd (?rm d)) \<and> held R u q (files (snd (?rm d)))"
    using assms(3) by (rule went_ignore) (use assms(1) v held_safe held_remove in \<open>blast+\<close>)
  have mv: "went (safe R u q v) e (snd (?mv e)) \<and> held R u q (files (snd (?mv e)))" if "held R u q (files e)" for e
    using that
  proof (rule went_ignore)
    fix fs fs' assume "held R u q fs" and "sys_rename (path_of (versions R @ [v @ ''.old''])) (path_of (versions R @ [v])) fs = Inr fs'"
    from rename_version(1) [OF this] assms(1) v show "held R u q fs'" by simp
  qed (rule held_safe)
  show ?thesis
    unfolding rollback_def Let_def path_suffix
    using rm mv [of "snd (?rm d)"] by (auto simp: io_remove_all_def io_rename_def intro: went_trans)
qed

lemma serves_remove:
  assumes "serves k (node_at fs) R v q" "sys_remove_all (path_of (versions R @ [x])) fs = Inr fs'"
    and "good R" "plain_elem x" "x \<noteq> dotdot" "x \<noteq> v"
  shows "serves k (node_at fs') R v q"
proof -
  have "touched (versions R @ [x]) fs fs'"
    using assms(2-5) serves_dirs(1) [OF assms(1)] by (intro remove_entry) simp_all
  from serves_touched [OF assms(1) this] assms(6) show ?thesis by simp
qed

lemma commit_triple:
  assumes "good R" "separate u v" "good q" "q \<noteq> []" "mi_Installed prior" "mi_Version prior = u"
  shows "triple (safe R u q v) (staged R u q (v @ ''.new'')) (commit_version (path_of R) v (join_on ''/'' q) prior existed)
    (\<lambda>_ fs. \<exists>q'. serves 255 (node_at fs) R v q') (held R u q)"
proof (rule tripleI)
  note v = separateD [OF assms(2)]
  fix d :: disk and r d'
  assume s: "staged R u q (v @ ''.new'') (files d)"
    and run: "commit_version (path_of R) v (join_on ''/'' q) prior existed d = (r, d')"
  obtain x d1 where a: "activate_version (path_of R) v (join_on ''/'' q) prior d = (x, d1)" by (metis prod.collapse)
  note A = tripleD [OF activate_triple [OF assms] s a]
  note vd = version_dir_path [OF assms(1) v(1,2)]
  show "went (safe R u q v) d d' \<and> outcome (\<lambda>_ fs. \<exists>q'. serves 255 (node_at fs) R v q') (held R u q) r (files d')"
  proof (cases x)
    case (Inl e)
    with A(2) have "held R u q (files d1)" by simp
    with rollback_held [OF assms(1,2) this, of existed] run a Inl A(1) assms(5) show ?thesis
      by (auto simp: commit_version_def vd intro: went_trans)
  next
    case (Inr y)
    let ?rm = "attempt (sys_remove_all (path_of (versions R @ [v @ ''.old''])))"
    have "\<exists>q'. serves 255 (node_at (files d1)) R v q'" using A(2) Inr by simp
    then have "went (safe R u q v) d1 (snd (?rm d1)) \<and> (\<exists>q'. serves 255 (node_at (files (snd (?rm d1)))) R v q')"
    proof (rule went_ignore [where E = "\<lambda>fs. \<exists>q'. serves 255 (node_at fs) R v q'"])
      fix fs fs' assume "\<exists>q'. serves 255 (node_at fs) R v q'" "sys_remove_all (path_of (versions R @ [v @ ''.old''])) fs = Inr fs'"
      then show "\<exists>q'. serves 255 (node_at fs') R v q'"
        using serves_remove [OF _ _ assms(1) v(8,9)] by force
    qed (simp add: safe_def)
    then show ?thesis
      using run a Inr A(1) by (auto simp: commit_version_def vd path_suffix io_remove_all_def intro: went_trans)
  qed
qed

subsection \<open>The whole installation\<close>

lemma unpack_triple:
  assumes "good R" "separate u v" "plain_elem t" "t \<noteq> dotdot" "t \<noteq> ''.local''"
  shows "triple (safe R u q w) (unpacked R u q t) (unpack_package env cfg (path_of R) v pkg (path_of (R @ [t])))
    (\<lambda>(ex, prior) fs. unpacked R u q t fs \<and> mi_Installed prior \<and> mi_Version prior = u \<and>
       ArchiveRelativeBinaryPath ex = join_on ''/'' q) (held R u q)"
proof -
  note v = separateD [OF assms(2)]
  let ?D = "R @ [t]"
  have g: "good ?D" "good (versions R)" using assms(1,3,4) by simp_all
  have uh: "unpacked R u q t fs \<Longrightarrow> held R u q fs" for fs by (simp add: unpacked_def)
  have us: "unpacked R u q t fs \<Longrightarrow> safe R u q w fs" for fs by (simp add: held_safe uh)
  have ex: "triple (safe R u q w) (unpacked R u q t) (safeExtractTarGz p (path_of ?D) lim) (\<lambda>_. unpacked R u q t) (held R u q)"
    for p lim
  proof (rule tripleI)
    fix d :: disk and r d' assume u: "unpacked R u q t (files d)" and run: "safeExtractTarGz p (path_of ?D) lim d = (r, d')"
    have rd: "real_dir (node_at (files d)) ?D"
      using u serves_dirs(4) [OF uh [OF u]] by (simp add: real_dir_snoc unpacked_def complete_def)
    have "confined (files d) ?D (files d)"
      using u rd by (simp add: confined_def unpacked_def complete_def)
    then have w: "went (confined (files d) ?D) d d'"
      using staysD [OF extract_confined [OF g(1)]] run by (metis snd_conv)
    have c: "unpacked R u q t fs" if "confined (files d) ?D fs" for fs
    proof -
      have "touched ?D (files d) fs" using that by (simp add: confined_def touched_def)
      from serves_touched [OF uh [OF u] this] assms(5) that show ?thesis
        by (simp add: unpacked_def confined_def complete_def real_dir_self)
    qed
    have "went (safe R u q w) d d'" by (rule went_mono [OF w]) (simp add: c us)
    moreover have "unpacked R u q t (files d')" by (rule c [OF went_end [OF w]])
    ultimately show "went (safe R u q w) d d' \<and> outcome (\<lambda>_. unpacked R u q t) (held R u q) r (files d')"
      using uh by (cases r) auto
  qed
  have vd: "path_dir (version_dir (path_of R) v) = path_of (versions R)"
    using path_dir_path_of [of "versions R" v] assms(1) v by (simp add: version_dir_path)
  have insp: "unpacked R u q t fs \<Longrightarrow> \<exists>prior. inspectManagedInstall (path_of R) fs = Inr prior \<and>
      mi_Installed prior \<and> mi_Version prior = u \<and> mi_ArchiveRelativeBinPath prior = join_on ''/'' q" for fs
    using inspect_serves [OF uh assms(1)] by fastforce
  show ?thesis
    unfolding unpack_package_def vd
    apply (rule triple_bind [OF ex])
    apply (rule triple_bind [where Q = "\<lambda>_. unpacked R u q t"], rule triple_ask)
     apply (auto simp: us uh verifyAgentVersion_def split: sum.split) [1]
    apply (rule triple_bind [where Q = "\<lambda>_. unpacked R u q t"], rule triple_ask)
     apply (rule conjI, erule us, rename_tac x y fs, case_tac "validateExtractedBinaryPath (path_of ?D) (ArchiveRelativeBinaryPath x) fs")
      apply (simp_all add: uh) [2]
    apply (rule triple_bind [OF triple_mkdir_real])
      apply (auto intro: us serves_dirs(1) [OF uh]) [1]
     apply (rule g)
    apply (rule triple_bind [where Q = "\<lambda>prior fs. unpacked R u q t fs \<and> mi_Installed prior \<and> mi_Version prior = u \<and>
      mi_ArchiveRelativeBinPath prior = join_on ''/'' q"], rule triple_ask)
     apply (frule insp, auto simp: us) [1]
    apply (rule triple_if)
     apply (rule triple_fail, simp add: us uh)
    apply (rule triple_return, auto simp: us)
    done
qed

lemma install_package_triple:
  assumes "good R" "separate u v" "plain_elem t" "t \<noteq> dotdot" "t \<noteq> ''.local''" "good q" "q \<noteq> []"
  shows "triple (safe R u q v) (unpacked R u q t) (install_package env cfg (path_of R) v pkg (path_of (R @ [t])))
    (\<lambda>res fs. ir_Version res = v \<and> (\<exists>q'. serves 255 (node_at fs) R v q')) (held R u q)"
proof -
  note v = separateD [OF assms(2)]
  have cm: "triple (safe R u q v) (staged R u q (v @ ''.new'')) (commit_version (path_of R) v (ArchiveRelativeBinaryPath ex) prior existed)
      (\<lambda>_ fs. \<exists>q'. serves 255 (node_at fs) R v q') (held R u q)"
    if "mi_Installed prior" "mi_Version prior = u" "ArchiveRelativeBinaryPath ex = join_on ''/'' q" for ex prior existed
    using commit_triple [OF assms(1,2,6,7) that(1,2)] that(3) by simp
  have rest: "triple (safe R u q v) (\<lambda>fs. unpacked R u q t fs \<and> mi_Installed prior \<and> mi_Version prior = u \<and>
       ArchiveRelativeBinaryPath ex = join_on ''/'' q)
     (bind_io (stage_version (path_of (versions R @ [v])) (path_of (R @ [t]))) (\<lambda>existed.
      bind_io (commit_version (path_of R) v (ArchiveRelativeBinaryPath ex) prior existed) (\<lambda>_. return_io (res ex))))
     (\<lambda>res fs. ir_Version res = v \<and> (\<exists>q'. serves 255 (node_at fs) R v q')) (held R u q)"
    if "\<And>x. ir_Version (res x) = v" for ex prior res
  proof (cases "mi_Installed prior \<and> mi_Version prior = u \<and> ArchiveRelativeBinaryPath ex = join_on ''/'' q")
    case True
    then have pre: "(\<lambda>fs. unpacked R u q t fs \<and> mi_Installed prior \<and> mi_Version prior = u \<and>
       ArchiveRelativeBinaryPath ex = join_on ''/'' q) = unpacked R u q t" by simp
    show ?thesis
      unfolding pre
      by (rule triple_bind [OF stage_version_triple [OF assms(2,1,3-5)]], rule triple_bind [OF cm])
        (use True in \<open>auto simp: that safe_def intro!: triple_return\<close>)
  qed (auto simp: triple_def)
  show ?thesis
    unfolding install_package_def version_dir_path [OF assms(1) v(1,2)]
    apply (rule triple_bind [OF unpack_triple [OF assms(1-5)]])
    apply (simp add: case_prod_unfold)
    apply (rule rest)
    apply simp
    done
qed

text \<open>Every entry of a directory tree lies in a directory.\<close>

definition tidy :: "fs \<Rightarrow> bool" where
  "tidy fs = (\<forall>p c. node_at fs (p @ [c]) \<noteq> None \<longrightarrow> node_at fs p = Some Dir)"

lemma tidy_below: "tidy fs \<Longrightarrow> node_at fs p = None \<Longrightarrow> prefix p q \<Longrightarrow> node_at fs q = None"
proof -
  assume t: "tidy fs" and n: "node_at fs p = None"
  have "node_at fs (p @ r) = None" for r
  proof (induction r rule: rev_induct)
    case (snoc c r)
    with t [unfolded tidy_def, rule_format, of "p @ r" c] show ?case by (cases "node_at fs (p @ r @ [c])") auto
  qed (use n in simp)
  then show "prefix p q \<Longrightarrow> node_at fs q = None" by (auto simp: prefix_def)
qed

definition temp_elem :: "nat \<Rightarrow> string" where
  "temp_elem r = ''.cursor-agent-install-'' @ show_int (int r)"

lemma temp_elem_good:
  "plain_elem (temp_elem r)" "temp_elem r \<noteq> dotdot" "temp_elem r \<noteq> ''.local''"
proof -
  have "list_all digit (show_int (int r))" using digits_of_digits [of "int r"] by (simp add: show_int_def)
  then have "slash \<notin> set (show_int (int r))" by (auto simp: list_all_iff digit_def)
  then show "plain_elem (temp_elem r)" by (simp add: temp_elem_def plain_elem_def)
qed (simp_all add: temp_elem_def)

lemma temp_name_path:
  assumes "good R" shows "temp_name (path_of R) ''.cursor-agent-install-'' (show_int (int r)) = path_of (R @ [temp_elem r])"
proof (cases "R = []")
  case True
  then show ?thesis by (simp add: temp_name_def path_of_def temp_elem_def)
next
  case False
  then have l: "last R \<noteq> []" "slash \<notin> set (last R)"
    using assms by (auto simp: good_def list_all_iff plain_elem_def)
  then have "last (path_of R) = last (last R)"
    using False last_join_on [of R "''/''"] join_on_ne [of R "''/''"] by (simp add: path_of_def)
  then have "last (path_of R) \<noteq> slash" using l by (metis last_in_set)
  then show ?thesis using False by (simp add: temp_name_def path_of_snoc temp_elem_def)
qed

lemma mkdir_temp_triple:
  assumes "good R"
  shows "triple (safe R u q w) (\<lambda>fs. held R u q fs \<and> tidy fs) (mkdir_temp n (path_of R))
    (\<lambda>p fs. \<exists>r. p = path_of (R @ [temp_elem r]) \<and> unpacked R u q (temp_elem r) fs) (held R u q)"
proof (rule tripleI, elim conjE)
  fix d :: disk and x d'
  assume "held R u q (files d)" "tidy (files d)" "mkdir_temp n (path_of R) d = (x, d')"
  then show "went (safe R u q w) d d' \<and> outcome (\<lambda>p fs. \<exists>r. p = path_of (R @ [temp_elem r]) \<and>
      unpacked R u q (temp_elem r) fs) (held R u q) x (files d')"
  proof (induction n "path_of R" d rule: mkdir_temp.induct)
    case (1 n d)
    note h = "1.prems"(1) and td = "1.prems"(2) and run = "1.prems"(3)
    have hs: "went (safe R u q w) d e" if "files e = files d" "past e = past d" for e :: disk
      using h that by (simp add: went_def held_safe)
    obtain m d1 where dr: "draw d = (m, d1)" by (metis prod.collapse)
    then have d1: "files d1 = files d" "past d1 = past d" by (auto simp: draw_def)
    show ?case
    proof (cases m)
      case None
      with run dr h d1 hs show ?thesis by (auto simp: mkdir_temp.simps [of n] fail_io_def)
    next
      case (Some r)
      let ?p = "path_of (R @ [temp_elem r])"
      have g: "good (R @ [temp_elem r])" using assms temp_elem_good by simp
      note rd = serves_dirs(4) [OF h]
      show ?thesis
      proof (rule attempt_cases [of "sys_mkdir ?p" d1])
        fix e let ?d2 = "d1\<lparr>made := Suc (made d1)\<rparr>"
        assume a: "attempt (sys_mkdir ?p) d1 = (Some e, ?d2)"
        show ?thesis
        proof (cases "e = EEXIST \<and> 1 < n")
          case True
          have f2: "files ?d2 = files d" using d1 by simp
          have "mkdir_temp (n - 1) (path_of R) ?d2 = (x, d')"
            using run dr Some a True by (simp add: mkdir_temp.simps [of n] temp_name_path assms)
          then have "went (safe R u q w) ?d2 d' \<and> outcome (\<lambda>p fs. \<exists>r. p = path_of (R @ [temp_elem r]) \<and>
              unpacked R u q (temp_elem r) fs) (held R u q) x (files d')"
            using "1.hyps" dr Some a True h td f2 by (metis (no_types, lifting) temp_name_path assms prod.collapse)
          then show ?thesis using hs [of ?d2] d1 by (auto intro: went_trans)
        next
          case False
          with run dr Some a have "x = Inl (path_error ''mkdir'' ?p e)" "d' = ?d2"
            by (auto simp: mkdir_temp.simps [of n] temp_name_path assms fail_io_def)
          with h d1 hs show ?thesis by simp
        qed
      next
        fix fs1 assume m: "sys_mkdir ?p (files d1) = Inr fs1"
          and a: "attempt (sys_mkdir ?p) d1 = (None, d1\<lparr>made := Suc (made d1), files := fs1, past := past d1 @ [files d1]\<rparr>)"
        have none: "node_at (files d) (R @ [temp_elem r]) = None" and fs1: "fs1 = put_node (R @ [temp_elem r]) Dir (files d)"
          using m place_of_real [OF rd g] by (auto simp: sys_mkdir_def d1 split: if_splits)
        have xd: "x = Inr ?p" "d' = d1\<lparr>made := Suc (made d1), files := fs1, past := past d1 @ [files d1]\<rparr>"
          using run dr Some a by (simp_all add: mkdir_temp.simps [of n] temp_name_path assms return_io_def)
        have "touched (R @ [temp_elem r]) (files d) fs1" by (auto simp: fs1 touched_def)
        from serves_touched [OF h this] have h1: "held R u q fs1" using temp_elem_good(3) by simp
        have "complete (node_at fs1) (R @ [temp_elem r])"
          using tidy_below [OF td none] by (auto simp: complete_def closed_def sub_def fs1)
        with h1 have "unpacked R u q (temp_elem r) fs1" by (simp add: unpacked_def)
        with h h1 d1 show ?thesis by (auto simp: xd went_def held_safe)
      qed
    qed
  qed
qed

lemma remove_temp:
  assumes "sys_remove_all (path_of (R @ [temp_elem r])) fs = Inr fs'" "serves k (node_at fs) R v q" "good R"
  shows "serves k (node_at fs') R v q"
proof -
  have "touched (R @ [temp_elem r]) fs fs'"
    using assms(1,3) temp_elem_good serves_dirs(4) [OF assms(2)] by (intro remove_entry) simp_all
  from serves_touched [OF assms(2) this] temp_elem_good(3) show ?thesis by simp
qed

lemma with_temp_triple:
  assumes "good R" "separate u v" "good q" "q \<noteq> []"
  shows "triple (safe R u q v) (\<lambda>fs. held R u q fs \<and> tidy fs)
    (with_temp (path_of R) (install_package env cfg (path_of R) v pkg))
    (\<lambda>res fs. ir_Version res = v \<and> (\<exists>q'. serves 255 (node_at fs) R v q')) (held R u q)"
    (is "triple ?I ?P _ ?Q ?E")
proof (rule tripleI)
  fix d :: disk and x d' assume P: "?P (files d)"
    and run: "with_temp (path_of R) (install_package env cfg (path_of R) v pkg) d = (x, d')"
  obtain y d1 where m: "wrap_io ''create install temp dir'' (mkdir_temp 10000 (path_of R)) d = (y, d1)"
    by (metis prod.collapse)
  note M = tripleD [where d = d, OF triple_wrap [OF mkdir_temp_triple [OF assms(1)]] P m]
  show "went ?I d d' \<and> outcome ?Q ?E x (files d')"
  proof (cases y)
    case (Inl e)
    with run m M show ?thesis by (auto simp: with_temp_def)
  next
    case (Inr tmp)
    then obtain r where tmp: "tmp = path_of (R @ [temp_elem r])" and u: "unpacked R u q (temp_elem r) (files d1)"
      using M(2) by auto
    obtain d2 where b: "install_package env cfg (path_of R) v pkg tmp d1 = (x, d2)"
      and d': "d' = snd (attempt (sys_remove_all tmp) d2)"
      using run m Inr by (auto simp: with_temp_def io_remove_all_def split: prod.splits)
    note B = tripleD [OF install_package_triple [OF assms(1,2) temp_elem_good assms(3,4)] u b [unfolded tmp]]
    have "went ?I d2 d' \<and> outcome ?Q ?E x (files d')"
    proof (cases x)
      case (Inl e)
      with B(2) have "held R u q (files d2)" by simp
      then have "went ?I d2 d' \<and> held R u q (files d')" unfolding d'
        by (rule went_ignore) (auto simp: tmp held_safe intro: remove_temp [OF _ _ assms(1)])
      with Inl show ?thesis by simp
    next
      case (Inr res)
      with B(2) have s: "\<exists>q'. serves 255 (node_at (files d2)) R v q'" and r: "ir_Version res = v" by auto
      from s have "went ?I d2 d' \<and> (\<exists>q'. serves 255 (node_at (files d')) R v q')" unfolding d'
        by (rule went_ignore [where E = "\<lambda>fs. \<exists>q'. serves 255 (node_at fs) R v q'"])
          (auto simp: tmp safe_def intro: remove_temp [OF _ _ assms(1)])
      with Inr r show ?thesis by simp
    qed
    with went_trans [OF M(1) went_trans [OF B(1)]] show ?thesis by blast
  qed
qed

lemma version_separate:
  assumes "parseOfficialInstaller body goos goarch = Inr info" "u \<noteq> ii_Version info"
    and "\<not> suffix ''.new'' u" "\<not> suffix ''.old'' u"
  shows "separate u (ii_Version info)"
proof -
  have v: "list_all version_char (ii_Version info)" "length (ii_Version info) \<in> {14..75}"
    using parse_version [OF assms(1)] by auto
  have "\<not> version_char slash" by (simp add: version_char_def alnum_def word_char_def)
  then have "slash \<notin> set (ii_Version info)" using v(1) by (auto simp: list_all_iff)
  moreover have "suffix s (w @ s)" for s w :: string by (simp add: suffix_def)
  ultimately show ?thesis using v(2) assms(2-4) by (auto simp: separate_def plain_elem_def)
qed

lemma install_outcomes:
  assumes "good R" "install_root env cfg = path_of R" "serves 253 (node_at (files d)) R u q"
    and "InstallOfficialCursorAgent env cfg d = (x, d')"
  obtains (failed) e where "x = Inl e" "d' = d"
    | (installed) res where "x = Inr res" "ir_Version res = u" "d' = d"
    | (ran) body info pkg where "parseOfficialInstaller body ''linux'' ''amd64'' = Inr info" "u \<noteq> ii_Version info"
        "with_temp (path_of R) (install_package env cfg (path_of R) (ii_Version info) pkg) d = (x, d')"
proof -
  have root: "managed_root_io (ie_home env) cfg d = (Inr (path_of R), d)"
    by (rule managed_root_real [OF assms(1,2) serves_dirs(4) [OF assms(3)]])
  obtain st where st: "install_status (ie_home env) cfg d = (st, d)" "in_Installed st" "in_Version st = u"
    using inspect_serves [OF assms(3,1)] by (auto simp: install_status_def root)
  note start = InstallOfficialCursorAgent_def bind_io_def root ask_io_def
  show thesis
  proof (cases "snd (fetchBounded env (firstNonEmpty [InstallerURL cfg, officialInstallerURL]) 131072)")
    case (Inl e)
    then show thesis using assms(4) failed by (auto simp: start simp del: firstNonEmpty.simps)
  next
    case body: (Inr body)
    show thesis
    proof (cases "parseOfficialInstaller body ''linux'' ''amd64''")
      case (Inl e)
      then show thesis using body assms(4) failed by (auto simp: start simp del: firstNonEmpty.simps)
    next
      case info: (Inr info)
      then show thesis
        using body assms(4) st failed installed ran [OF info]
        by (cases "snd (fetchBounded env (if TestPackageURLOverride cfg \<noteq> [] then TestPackageURLOverride cfg
              else ii_PackageURL info) (MaxPackageBytes cfg))")
          (auto simp: start return_io_def simp del: firstNonEmpty.simps split: if_splits)
    qed
  qed
qed


subsection \<open>An installed root\<close>

definition sample_root :: place where
  "sample_root = [''home'']"

definition sample_disk :: disk where
  "sample_disk =
     \<lparr>files = [([''home''], Dir), ([''home'', ''.local''], Dir), (bins sample_root, Dir),
        ([''home'', ''.local'', ''share''], Dir), (share sample_root, Dir), (versions sample_root, Dir),
        (versions sample_root @ [''2025.01.01-aaa''], Dir),
        (versions sample_root @ [''2025.01.01-aaa'', ''agent''], Reg ''binary'' True),
        (share sample_root @ [''current''], Link (version_target ''2025.01.01-aaa'')),
        (bins sample_root @ [''agent''], Link (through_current @ ''agent'')),
        (bins sample_root @ [''cursor-agent''], Link (through_current @ ''agent''))],
      past = [], made = 0, faults = (\<lambda>_. None), randoms = Some, drawn = 0\<rparr>"

definition sample_env :: install_env where
  "sample_env =
     \<lparr>ie_ip6 = (\<lambda>_. False),
      ie_net = (\<lambda>u. HttpResponse 200 (if u = ''https://cursor.com/install'' then sample_script else ''package'') None),
      ie_unpack = (\<lambda>_. \<lparr>pk_OpenErr = None,
        pk_Entries = [\<lparr>te_Name = ''./agent'', te_Type = TypeReg, te_Mode = 493, te_Linkname = [], te_Size = 3,
          te_Data = ''new'', te_CopyErr = None\<rparr>], pk_EndErr = None\<rparr>),
      ie_version = (\<lambda>_. Inr ''2025.09.18-7ae''), ie_sha256 = (\<lambda>_. ''00''), ie_home = ''/home''\<rparr>"

lemma real_dir_check:
  "real_dir (node_at fs) p = list_all (\<lambda>n. node_at fs (take n p) = Some Dir) [0..<Suc (length p)]"
proof -
  have "real_dir (node_at fs) p = (\<forall>n \<in> {0..<Suc (length p)}. node_at fs (take n p) = Some Dir)"
    by (auto simp: real_dir_def take_is_prefix) (metis append_eq_conv_conj atLeastLessThan_iff le0 le_imp_less_Suc prefixE prefix_length_le)
  then show ?thesis by (simp add: list_all_iff del: upt_Suc)
qed

lemma tidy_check:
  assumes "list_all (\<lambda>e. fst e = [] \<or> node_at fs (butlast (fst e)) = Some Dir) fs"
  shows "tidy fs"
  unfolding tidy_def
proof (intro allI impI)
  fix p c assume "node_at fs (p @ [c]) \<noteq> None"
  then obtain n where "(p @ [c], n) \<in> set fs" by (auto simp: node_at_def dest: map_of_SomeD)
  with assms show "node_at fs p = Some Dir" by (force simp: list_all_iff)
qed

lemma closed_check:
  assumes "list_all (\<lambda>e. prefix b (fst e) \<longrightarrow> inward (snd e)) fs" "b \<noteq> []"
  shows "closed (sub (node_at fs) b)"
  using assms by (fastforce simp: closed_def sub_def node_at_def list_all_iff dest: map_of_SomeD)

lemma sample_serves: "serves 253 (node_at (files sample_disk)) sample_root ''2025.01.01-aaa'' [''agent'']"
proof -
  let ?fs = "files sample_disk" and ?v = "versions sample_root @ [''2025.01.01-aaa'']"
  note defs = sample_disk_def sample_root_def bins_def versions_def share_def node_at_def
  have rd: "real_dir (node_at ?fs) (bins sample_root)" "real_dir (node_at ?fs) (versions sample_root)"
    unfolding real_dir_check by (simp_all add: defs upt_rec)
  have c: "complete (node_at ?fs) ?v"
    unfolding complete_def by (intro conjI closed_check) (simp_all add: defs)
  have a: "sub (node_at ?fs) ?v [''agent''] = Some (Reg ''binary'' True)" by (simp add: sub_def defs)
  have "leads 253 (node_at ?fs) sample_root ''2025.01.01-aaa'' [''agent''] n" if "n = ''agent'' \<or> n = ''cursor-agent''" for n
    unfolding leads_def using that a by (intro exI [of _ "''agent''"]) (auto simp: split_on_byte_absent, auto simp: defs)
  with rd c show ?thesis by (simp add: serves_def plain_elem_def) (simp add: defs)
qed


subsection \<open>Names that collide with staging\<close>

text \<open>
  The condition on the prior version's name is needed: installing \<open>v\<close> while \<open>v.new\<close> is served
  begins with removing the served version, and nothing is served after that step. The version
  pattern of the install script allows such names.
\<close>

lemma staging_removes_served:
  assumes "good R" "plain_elem v" "v \<noteq> dotdot" "serves k (node_at (files d)) R (v @ ''.new'') q" "\<forall>n. faults d n = None"
  shows "\<not> serves k' (node_at (files (snd (io_remove_all (version_dir (path_of R) v @ ''.new'') d)))) R u q'"
proof
  let ?p = "versions R @ [v @ ''.new'']"
  let ?fs = "files (snd (io_remove_all (version_dir (path_of R) v @ ''.new'') d))"
  assume s: "serves k' (node_at ?fs) R u q'"
  have g: "good ?p" using assms(1-3) by (auto simp: plain_elem_def append_eq_Cons_conv)
  have fs: "?fs = drop_tree ?p (files d)"
    using assms(5) place_of_real [OF serves_dirs(1) [OF assms(4)] g]
    by (simp add: version_dir_path assms(1-3) path_suffix io_remove_all_def attempt_def sys_remove_all_def)
  have "node_at ?fs (share R @ [''current'']) = node_at (files d) (share R @ [''current''])"
    unfolding fs by (simp add: versions_def)
  then have "version_target u = version_target (v @ ''.new'')"
    using s assms(4) by (simp add: serves_def)
  then have "u = v @ ''.new''" by (simp add: version_target_def)
  moreover have "node_at ?fs ?p = None" unfolding fs by simp
  ultimately show False using s by (simp add: serves_def complete_def)
qed

end
