(* ===== verification/GoBase64.thy ===== *)
theory GoBase64
  imports GoStrings
begin

section \<open>Go's encoding/base64, as json.Marshal uses it\<close>

text \<open>
  A \<^verbatim>\<open>[]byte\<close> is a JSON string in the standard base64 alphabet with padding. The decoder skips
  line ends and does not look at the bits that the padding leaves over.
\<close>

definition b64_char :: "int \<Rightarrow> char" where
  "b64_char n =
     (if n < 26 then char_of (65 + n)
      else if n < 52 then char_of (71 + n)
      else if n < 62 then char_of (n - 4)
      else if n = 62 then CHR ''+'' else CHR ''/'')"

definition b64_val :: "char \<Rightarrow> int option" where
  "b64_val c =
     (if 65 \<le> byte c \<and> byte c < 91 then Some (byte c - 65)
      else if 97 \<le> byte c \<and> byte c < 123 then Some (byte c - 71)
      else if 48 \<le> byte c \<and> byte c < 58 then Some (byte c + 4)
      else if c = CHR ''+'' then Some 62
      else if c = CHR ''/'' then Some 63
      else None)"

fun b64_encode :: "string \<Rightarrow> string" where
  "b64_encode [] = []"
| "b64_encode [a] = [b64_char (byte a div 4), b64_char (byte a mod 4 * 16), CHR ''='', CHR ''='']"
| "b64_encode [a, b] =
     [b64_char (byte a div 4), b64_char (byte a mod 4 * 16 + byte b div 16), b64_char (byte b mod 16 * 4), CHR ''='']"
| "b64_encode (a # b # c # s) =
     [b64_char (byte a div 4), b64_char (byte a mod 4 * 16 + byte b div 16),
      b64_char (byte b mod 16 * 4 + byte c div 64), b64_char (byte c mod 64)] @ b64_encode s"

fun b64_groups :: "string \<Rightarrow> string option" where
  "b64_groups [] = Some []"
| "b64_groups (a # b # c # d # s) =
     (case (b64_val a, b64_val b) of
        (Some w, Some x) \<Rightarrow>
          if c = CHR ''='' then (if d = CHR ''='' \<and> s = [] then Some [char_of (w * 4 + x div 16)] else None)
          else (case b64_val c of
            None \<Rightarrow> None
          | Some y \<Rightarrow>
              if d = CHR ''='' then
                (if s = [] then Some [char_of (w * 4 + x div 16), char_of (x mod 16 * 16 + y div 4)] else None)
              else (case b64_val d of
                None \<Rightarrow> None
              | Some z \<Rightarrow>
                  map_option (\<lambda>t. char_of (w * 4 + x div 16) # char_of (x mod 16 * 16 + y div 4) #
                      char_of (y mod 4 * 64 + z) # t) (b64_groups s)))
      | _ \<Rightarrow> None)"
| "b64_groups _ = None"

definition b64_decode :: "string \<Rightarrow> string option" where
  "b64_decode s = b64_groups (filter (\<lambda>c. c \<noteq> CHR 0x0A \<and> c \<noteq> CHR 0x0D) s)"

subsection \<open>Decoding what was encoded\<close>

lemma byte_bounds: "0 \<le> byte c \<and> byte c < 256"
  using pos_mod_sign [of 256 "byte c"] pos_mod_bound [of 256 "byte c"] by simp

lemma sextets: "0 \<le> n \<Longrightarrow> n < 64 \<Longrightarrow> n \<in> set (map int [0..<64])"
  by (auto simp: image_iff intro!: bexI [of _ "nat n"])

lemma b64_char_table:
  "list_all (\<lambda>n. b64_val (b64_char n) = Some n \<and> b64_char n \<noteq> CHR ''='' \<and> b64_char n \<noteq> CHR 0x0A \<and>
     b64_char n \<noteq> CHR 0x0D) (map int [0..<64])"
  by code_simp

lemma b64_char_ok:
  assumes "0 \<le> n" "n < 64"
  shows "b64_val (b64_char n) = Some n" "b64_char n \<noteq> CHR ''=''" "b64_char n \<noteq> CHR 0x0A" "b64_char n \<noteq> CHR 0x0D"
  using b64_char_table sextets [OF assms] unfolding list_all_iff by blast+

text \<open>The sextets of three bytes, and what the decoder makes of them.\<close>

definition sextet :: "int \<Rightarrow> bool" where
  "sextet n = (0 \<le> n \<and> n < 64)"

lemma sextet_char:
  "sextet n \<Longrightarrow> b64_val (b64_char n) = Some n" "sextet n \<Longrightarrow> b64_char n \<noteq> CHR ''=''"
  "sextet n \<Longrightarrow> b64_char n \<noteq> CHR 0x0A" "sextet n \<Longrightarrow> b64_char n \<noteq> CHR 0x0D"
  by (simp_all add: sextet_def b64_char_ok)

lemma quotient_bounds:
  fixes x k m :: int
  assumes "0 < k" "0 \<le> x" "x < k * m"
  shows "0 \<le> x div k \<and> x div k < m"
proof -
  have "k * (x div k) \<le> x" using mult_div_mod_eq [of k x] pos_mod_sign [of k x] assms by linarith
  then have "k * (x div k) < k * m" using assms by linarith
  then have "x div k < m" using assms by simp
  then show ?thesis using assms by (simp add: pos_imp_zdiv_nonneg_iff)
qed

lemma byte_parts:
  fixes x :: int
  assumes "0 \<le> x" "x < 256"
  shows "0 \<le> x div 4 \<and> x div 4 < 64" "0 \<le> x div 16 \<and> x div 16 < 16" "0 \<le> x div 64 \<and> x div 64 < 4"
  using quotient_bounds [of 4 x 64] quotient_bounds [of 16 x 16] quotient_bounds [of 64 x 4] assms by simp_all

lemma sextet_sum:
  fixes m d k n :: int
  assumes "0 \<le> m" "m < n" "0 \<le> d" "d < k" "n * k = 64"
  shows "sextet (m * k + d)"
proof -
  have "0 \<le> m * k" using assms by simp
  moreover have "(m + 1) * k \<le> n * k" using assms by (intro mult_right_mono) simp_all
  then have "m * k + d < n * k" using assms(4) by (simp add: distrib_right)
  ultimately show ?thesis using assms unfolding sextet_def by simp
qed

lemma sextets_of_bytes:
  assumes "x = byte a" "y = byte b" "z = byte c"
  shows "sextet (x div 4)" "sextet (x mod 4 * 16)" "sextet (x mod 4 * 16 + y div 16)"
    "sextet (y mod 16 * 4)" "sextet (y mod 16 * 4 + z div 64)" "sextet (z mod 64)"
proof -
  have b: "0 \<le> x" "x < 256" "0 \<le> y" "y < 256" "0 \<le> z" "z < 256" using assms byte_bounds by auto
  show "sextet (x div 4)" using byte_parts(1) [OF b(1,2)] by (simp add: sextet_def)
  show "sextet (x mod 4 * 16)" using sextet_sum [of "x mod 4" 4 0 16] by simp
  show "sextet (x mod 4 * 16 + y div 16)"
    using byte_parts(2) [OF b(3,4)] by (intro sextet_sum [where n = 4]) simp_all
  show "sextet (y mod 16 * 4)" using sextet_sum [of "y mod 16" 16 0 4] by simp
  show "sextet (y mod 16 * 4 + z div 64)"
    using byte_parts(3) [OF b(5,6)] by (intro sextet_sum [where n = 16]) simp_all
  show "sextet (z mod 64)" by (simp add: sextet_def)
qed

lemma shifted:
  fixes m d k :: int
  assumes "0 \<le> d" "d < k"
  shows "(m * k + d) div k = m" "(m * k + d) mod k = d"
  using assms by simp_all

lemma bytes_of_sextets:
  fixes x y z :: int
  assumes "0 \<le> y" "y < 256" "0 \<le> z" "z < 256"
  shows "x div 4 * 4 + x mod 4 * 16 div 16 = x" "x div 4 * 4 + (x mod 4 * 16 + y div 16) div 16 = x"
    "(x mod 4 * 16 + y div 16) mod 16 * 16 + y mod 16 * 4 div 4 = y"
    "(x mod 4 * 16 + y div 16) mod 16 * 16 + (y mod 16 * 4 + z div 64) div 4 = y"
    "(y mod 16 * 4 + z div 64) mod 4 * 64 + z mod 64 = z"
proof -
  have y: "0 \<le> y div 16" "y div 16 < 16" and z: "0 \<le> z div 64" "z div 64 < 4"
    using byte_parts [OF assms(1,2)] byte_parts [OF assms(3,4)] by auto
  show "x div 4 * 4 + x mod 4 * 16 div 16 = x" "x div 4 * 4 + (x mod 4 * 16 + y div 16) div 16 = x"
    "(x mod 4 * 16 + y div 16) mod 16 * 16 + y mod 16 * 4 div 4 = y"
    "(x mod 4 * 16 + y div 16) mod 16 * 16 + (y mod 16 * 4 + z div 64) div 4 = y"
    "(y mod 16 * 4 + z div 64) mod 4 * 64 + z mod 64 = z"
    unfolding shifted [OF y] shifted [OF z] by simp_all
qed

lemma groups_sextets:
  assumes "sextet p" "sextet q"
  shows "b64_groups [b64_char p, b64_char q, CHR ''='', CHR ''=''] = Some [char_of (p * 4 + q div 16)]"
    and "sextet r \<Longrightarrow> b64_groups [b64_char p, b64_char q, b64_char r, CHR ''=''] =
      Some [char_of (p * 4 + q div 16), char_of (q mod 16 * 16 + r div 4)]"
    and "sextet r \<Longrightarrow> sextet t \<Longrightarrow> b64_groups (b64_char p # b64_char q # b64_char r # b64_char t # s) =
      map_option (\<lambda>u. char_of (p * 4 + q div 16) # char_of (q mod 16 * 16 + r div 4) # char_of (r mod 4 * 64 + t) # u)
        (b64_groups s)"
  using assms by (simp_all add: sextet_char)

lemma b64_groups_encode: "b64_groups (b64_encode s) = Some s"
proof (induction s rule: b64_encode.induct)
  case (2 a)
  show ?case
    unfolding b64_encode.simps groups_sextets(1) [OF sextets_of_bytes(1,2) [OF refl refl refl]]
    using bytes_of_sextets(1) [where x = "byte a"] by simp
next
  case (3 a b)
  show ?case
    unfolding b64_encode.simps groups_sextets(2) [OF sextets_of_bytes(1,3,4) [OF refl refl refl]]
    using bytes_of_sextets(2) [of "byte b" 0 "byte a"] bytes_of_sextets(3) [of "byte b" 0 "byte a"] byte_bounds [of a] byte_bounds [of b] by simp
next
  case (4 a b c s)
  show ?case
    unfolding b64_encode.simps append.simps groups_sextets(3) [OF sextets_of_bytes(1,3,5,6) [OF refl refl refl]] 4
    using bytes_of_sextets(2) [of "byte b" "byte c" "byte a"] bytes_of_sextets(4,5) [of "byte b" "byte c"] byte_bounds [of a] byte_bounds [of b] byte_bounds [of c]
    by simp
qed simp

lemma b64_encode_lines: "list_all (\<lambda>c. c \<noteq> CHR 0x0A \<and> c \<noteq> CHR 0x0D) (b64_encode s)"
  by (induction s rule: b64_encode.induct) (simp_all add: sextet_char sextets_of_bytes)

lemma b64_decode_encode: "b64_decode (b64_encode s) = Some s"
proof -
  have "filter (\<lambda>c. c \<noteq> CHR 0x0A \<and> c \<noteq> CHR 0x0D) (b64_encode s) = b64_encode s"
    using b64_encode_lines [of s] by (simp add: list_all_iff filter_id_conv)
  then show ?thesis by (simp add: b64_decode_def b64_groups_encode)
qed

end
