(* ===== verification/Host.thy ===== *)
theory Host
  imports GoBase64 GoRoundtrip Auth
begin

section \<open>Host callbacks (cmd/cliproxyapi-cursor/main.go and host.go)\<close>

text \<open>
  The plugin is a C library. It keeps a pointer to the table of functions that the host gave it
  and calls the host with a method name and a JSON text, both copied into C memory; the host
  answers with a return code and a buffer of its own, which the plugin copies and gives back.
  \<open>cgo\<close> is this state with the effects on C memory so far (\<open>c_trace\<close>); \<open>'w\<close> is the state of the
  host, whose functions are unknown. A call that panics has the result \<open>None\<close>: the process ends.

  The package \<^verbatim>\<open>pluginabi\<close> is not part of the repository. Its constants and the JSON codec of
  its envelope are the fields of \<open>plugin_sdk\<close>; \<open>json_error\<close> is the text of the error of
  \<^verbatim>\<open>json.Unmarshal\<close> for a target type and a text.
\<close>

subsection \<open>The SDK\<close>

record abi_error =
  ae_Code :: string
  ae_Message :: string
  ae_HTTPStatus :: int
  ae_Retryable :: bool

record envelope =
  ev_OK :: bool
  ev_Result :: string
  ev_Error :: "abi_error option"

record plugin_sdk =
  ABIVersion :: int
  MethodHostHTTPDo :: string
  MethodHostHTTPDoStream :: string
  MethodHostHTTPStreamRead :: string
  MethodHostHTTPStreamClose :: string
  MethodHostStreamEmit :: string
  MethodHostStreamClose :: string
  encode_envelope :: "envelope \<Rightarrow> (string, string) result"
  decode_envelope :: "string \<Rightarrow> (string, envelope) result"
  json_error :: "string \<Rightarrow> string \<Rightarrow> string"

subsection \<open>C memory and the host\<close>

text \<open>
  A reply of the host: the return code, the buffer it wrote (\<open>0\<close> is the null pointer; the length
  is that of \<open>rp_bytes\<close>), and whether \<^verbatim>\<open>cliproxyPluginShutdown\<close> ran on another thread during
  the call.
\<close>

record host_reply =
  rp_code :: int
  rp_ptr :: nat
  rp_bytes :: string
  rp_shutdown :: bool

text \<open>\<^verbatim>\<open>cliproxy_host_api\<close>: \<open>ha_call\<close> may be null, \<open>ha_free\<close> says whether \<^verbatim>\<open>free_buffer\<close> is not.\<close>

record 'w host_api =
  ha_abi_version :: int
  ha_call :: "(string \<Rightarrow> string \<Rightarrow> 'w \<Rightarrow> host_reply \<times> 'w) option"
  ha_free :: bool

datatype c_event =
    CAlloc nat string
  | CFree nat
  | HostCall string string
  | HostBuffer nat
  | HostFree nat

record 'w cgo =
  stored_host :: "'w host_api option"
  host_world :: 'w
  next_block :: nat
  c_trace :: "c_event list"

definition c_log :: "c_event list \<Rightarrow> 'w cgo \<Rightarrow> 'w cgo" where
  "c_log evs s = s\<lparr>c_trace := c_trace s @ evs\<rparr>"

definition c_alloc :: "string \<Rightarrow> 'w cgo \<Rightarrow> nat \<times> 'w cgo" where
  "c_alloc mem s =
     (next_block s, c_log [CAlloc (next_block s) mem] (s\<lparr>next_block := next_block s + 1\<rparr>))"

definition c_free :: "nat \<Rightarrow> 'w cgo \<Rightarrow> 'w cgo" where
  "c_free p = c_log [CFree p]"

text \<open>
  \<^verbatim>\<open>C.GoBytes(ptr, C.int(n))\<close>: the length becomes a 32-bit signed integer, and a negative one
  panics.
\<close>

definition c_int :: "nat \<Rightarrow> int" where
  "c_int n = signed_take_bit 31 (int n)"

definition go_bytes :: "string \<Rightarrow> string option" where
  "go_bytes mem =
     (if c_int (length mem) < 0 then None else Some (take (nat (c_int (length mem))) mem))"

definition no_reply :: "int \<Rightarrow> host_reply" where
  "no_reply rc = \<lparr>rp_code = rc, rp_ptr = 0, rp_bytes = [], rp_shutdown = False\<rparr>"

definition call_host_api :: "string \<Rightarrow> string \<Rightarrow> 'w cgo \<Rightarrow> host_reply \<times> 'w cgo" where
  "call_host_api method request s =
     (case Option.bind (stored_host s) ha_call of
        None \<Rightarrow> (no_reply 1, s)
      | Some call \<Rightarrow>
          (let (r, w) = call method request (host_world s);
               s1 = c_log ([HostCall method request] @ (if rp_ptr r = 0 then [] else [HostBuffer (rp_ptr r)]))
                      (s\<lparr>host_world := w\<rparr>)
           in (r, if rp_shutdown r then s1\<lparr>stored_host := None\<rparr> else s1)))"

definition free_host_buffer :: "nat \<Rightarrow> 'w cgo \<Rightarrow> 'w cgo" where
  "free_host_buffer p s =
     (case stored_host s of
        None \<Rightarrow> s
      | Some h \<Rightarrow> if ha_free h \<and> p \<noteq> 0 then c_log [HostFree p] s else s)"

subsection \<open>\<open>callHost\<close>\<close>

text \<open>What the plugin makes of the bytes and the return code.\<close>

definition host_answer :: "plugin_sdk \<Rightarrow> string \<Rightarrow> int \<Rightarrow> string \<Rightarrow> (go_error, string) result" where
  "host_answer sdk method rc raw =
     (if raw = []
      then Inl (PlainErr (''host callback '' @ method @ '' returned '' @ show_int rc @ '' without a response''))
      else case decode_envelope sdk raw of
        Inl e \<Rightarrow> Inl (WrapErr (''decode host callback '' @ method) (PlainErr e))
      | Inr env \<Rightarrow>
          if \<not> ev_OK env
          then (case ev_Error env of
                  None \<Rightarrow> Inl (PlainErr (''host callback '' @ method @ '' failed''))
                | Some e \<Rightarrow>
                    (let message = trim_space (ae_Message e)
                     in Inl (PlainErr (if message = [] then ''host callback failed'' else message))))
          else if rc \<noteq> 0
          then Inl (PlainErr (''host callback '' @ method @ '' returned '' @ show_int rc))
          else Inr (ev_Result env))"

text \<open>
  \<open>payload\<close> is the result of \<^verbatim>\<open>json.Marshal\<close>. The deferred calls of \<^verbatim>\<open>C.free\<close> run last, the last
  one deferred first, and they run when the copy of the reply panics, too.
\<close>

definition copy_request :: "string \<Rightarrow> 'w cgo \<Rightarrow> nat \<times> 'w cgo" where
  "copy_request request s = (if request = [] then (0, s) else c_alloc request s)"

definition deferred_frees :: "nat \<Rightarrow> string \<Rightarrow> nat \<Rightarrow> 'w cgo \<Rightarrow> 'w cgo" where
  "deferred_frees cMethod request cRequest s =
     c_free cMethod (if request = [] then s else c_free cRequest s)"

definition callHost ::
    "plugin_sdk \<Rightarrow> string \<Rightarrow> (string, string) result \<Rightarrow> 'w cgo \<Rightarrow>
     (go_error, string) result option \<times> 'w cgo" where
  "callHost sdk method payload s =
     (case payload of
        Inl e \<Rightarrow> (Some (Inl (WrapErr (''marshal host callback '' @ method) (PlainErr e))), s)
      | Inr request \<Rightarrow>
          (let (cMethod, s1) = c_alloc (method @ [CHR 0x00]) s;
               (cRequest, s2) = copy_request request s1;
               (response, s3) = call_host_api method request s2;
               frees = deferred_frees cMethod request cRequest
           in case (if rp_ptr response \<noteq> 0 \<and> rp_bytes response \<noteq> [] then go_bytes (rp_bytes response)
                    else Some []) of
                None \<Rightarrow> (None, frees s3)
              | Some raw \<Rightarrow>
                  (Some (host_answer sdk method (rp_code response) raw),
                   frees (if rp_ptr response \<noteq> 0 then free_host_buffer (rp_ptr response) s3 else s3))))"

lemma callHost_steps:
  obtains m s1 q s2 a s3 where "c_alloc (method @ [CHR 0x00]) s = (m, s1)" "copy_request request s1 = (q, s2)"
    "call_host_api method request s2 = (a, s3)"
    "callHost sdk method (Inr request) s =
      (case (if rp_ptr a \<noteq> 0 \<and> rp_bytes a \<noteq> [] then go_bytes (rp_bytes a) else Some []) of
         None \<Rightarrow> (None, deferred_frees m request q s3)
       | Some raw \<Rightarrow> (Some (host_answer sdk method (rp_code a) raw),
           deferred_frees m request q (if rp_ptr a \<noteq> 0 then free_host_buffer (rp_ptr a) s3 else s3)))"
proof -
  obtain m s1 where m: "c_alloc (method @ [CHR 0x00]) s = (m, s1)" by fastforce
  obtain q s2 where q: "copy_request request s1 = (q, s2)" by fastforce
  obtain a s3 where a: "call_host_api method request s2 = (a, s3)" by fastforce
  show thesis
    by (rule that [OF m q a]) (simp only: callHost_def sum.case Let_def m q a prod.case)
qed

subsection \<open>JSON of the callbacks\<close>

definition optional_bytes :: "string \<Rightarrow> string \<Rightarrow> (string \<times> json) list" where
  "optional_bytes k b = (if b = [] then [] else [(k, JStr (b64_encode b))])"

definition json_headers :: "string list go_map \<Rightarrow> json" where
  "json_headers hs = JObj (map (\<lambda>(k, vs). (k, JArr (map JStr vs))) hs)"

text \<open>
  Decoding into a struct: \<open>setters\<close> gives, for each field, its name and how a value sets it, or
  fails to. \<^verbatim>\<open>null\<close> leaves a text, a number or a truth value as it was and empties a slice
  or a map; a member that no field matches is skipped. A \<^verbatim>\<open>[]byte\<close> is read from base64 or from
  an array of numbers. \<^verbatim>\<open>json.Unmarshal\<close> goes on after a value of the wrong type and reports it
  in the end; the callers use no result then.
\<close>

type_synonym 'r setters = "(string \<times> (json \<Rightarrow> 'r \<Rightarrow> 'r option)) list"

definition set_member :: "'r setters \<Rightarrow> string \<times> json \<Rightarrow> 'r option \<Rightarrow> 'r option" where
  "set_member setters kv r =
     (case find (\<lambda>(name, f). field_is name (fst kv)) setters of
        None \<Rightarrow> r
      | Some (name, f) \<Rightarrow> Option.bind r (f (snd kv)))"

definition unmarshal_struct :: "'r setters \<Rightarrow> 'r \<Rightarrow> string \<Rightarrow> 'r option" where
  "unmarshal_struct setters zero s =
     (case dec_shape add_member (Some (dec_value 9999)) s of
        None \<Rightarrow> None
      | Some (v, r) \<Rightarrow>
          if skip_ws r \<noteq> [] then None
          else case v of
            JObj m \<Rightarrow> fold (set_member setters) m (Some zero)
          | JNull \<Rightarrow> Some zero
          | _ \<Rightarrow> None)"

definition into_string :: "json \<Rightarrow> string \<Rightarrow> string option" where
  "into_string v old = (case v of JStr s \<Rightarrow> Some s | JNull \<Rightarrow> Some old | _ \<Rightarrow> None)"

definition into_bool :: "json \<Rightarrow> bool \<Rightarrow> bool option" where
  "into_bool v old = (case v of JBool b \<Rightarrow> Some b | JNull \<Rightarrow> Some old | _ \<Rightarrow> None)"

definition parse_integer :: "string \<Rightarrow> int option" where
  "parse_integer l =
     (let neg = prefix ''-'' l; ds = (if neg then drop 1 l else l); n = int_of_digits 0 ds
      in if ds \<noteq> [] \<and> list_all digit ds then Some (if neg then - n else n) else None)"

definition into_int :: "json \<Rightarrow> int \<Rightarrow> int option" where
  "into_int v old =
     (case v of
        JNum l \<Rightarrow>
          (case parse_integer l of
             None \<Rightarrow> None
           | Some n \<Rightarrow> if - (2 ^ 63) \<le> n \<and> n < 2 ^ 63 then Some n else None)
      | JNull \<Rightarrow> Some old
      | _ \<Rightarrow> None)"

definition byte_element :: "json \<Rightarrow> char option" where
  "byte_element v =
     (case v of
        JNum l \<Rightarrow>
          (case parse_integer l of
             None \<Rightarrow> None
           | Some n \<Rightarrow> if \<not> prefix ''-'' l \<and> n < 256 then Some (char_of n) else None)
      | JNull \<Rightarrow> Some (CHR 0x00)
      | _ \<Rightarrow> None)"

definition all_some :: "'a option list \<Rightarrow> 'a list option" where
  "all_some xs = (if list_all (\<lambda>x. x \<noteq> None) xs then Some (map the xs) else None)"

definition into_bytes :: "json \<Rightarrow> string option" where
  "into_bytes v =
     (case v of
        JStr s \<Rightarrow> b64_decode s
      | JArr xs \<Rightarrow> all_some (map byte_element xs)
      | JNull \<Rightarrow> Some []
      | _ \<Rightarrow> None)"

definition header_values :: "json \<Rightarrow> string list option" where
  "header_values v =
     (case v of
        JArr xs \<Rightarrow> all_some (map (\<lambda>x. into_string x []) xs)
      | JNull \<Rightarrow> Some []
      | _ \<Rightarrow> None)"

definition into_headers :: "json \<Rightarrow> string list go_map \<Rightarrow> string list go_map option" where
  "into_headers v old =
     (case v of
        JObj m \<Rightarrow>
          fold (\<lambda>(k, x) r. case (header_values x, r) of
                   (Some vs, Some hs) \<Rightarrow> Some (put_entry k vs hs) | _ \<Rightarrow> None) m (Some old)
      | JNull \<Rightarrow> Some []
      | _ \<Rightarrow> None)"

subsection \<open>The transport\<close>

text \<open>The types of internal/transport/transport.go.\<close>

record http_request =
  hq_Method :: string
  hq_URL :: string
  hq_Headers :: "string list go_map"
  hq_Body :: string

record http_response =
  hp_StatusCode :: int
  hp_Headers :: "string list go_map"
  hp_Body :: string

record http_stream =
  hs_StatusCode :: int
  hs_Headers :: "string list go_map"
  hs_ID :: string

record stream_chunk =
  ch_Payload :: string
  ch_Error :: string
  ch_Done :: bool

record emit_request =
  em_StreamID :: string
  em_Payload :: string

text \<open>The JSON that the host receives: \<^verbatim>\<open>omitempty\<close> leaves an empty member out.\<close>

definition host_request_json :: "string \<Rightarrow> http_request \<Rightarrow> string" where
  "host_request_json callbackID req =
     marshal_fields (
       optional ''host_callback_id'' callbackID @
       [(''method'', JStr (hq_Method req)), (''url'', JStr (hq_URL req))] @
       (if hq_Headers req = [] then [] else [(''headers'', json_headers (hq_Headers req))]) @
       optional_bytes ''body'' (hq_Body req))"

definition stream_read_json :: "string \<Rightarrow> string" where
  "stream_read_json streamID = marshal_fields [(''stream_id'', JStr streamID)]"

definition emit_json :: "string \<Rightarrow> string \<Rightarrow> string" where
  "emit_json streamID payload =
     marshal_fields ([(''stream_id'', JStr streamID)] @ optional_bytes ''payload'' payload)"

definition stream_close_json :: "string \<Rightarrow> string \<Rightarrow> string" where
  "stream_close_json streamID message =
     marshal_fields ([(''stream_id'', JStr streamID)] @ optional ''error'' message)"

definition chunk_json :: "stream_chunk \<Rightarrow> string" where
  "chunk_json c =
     marshal_fields (
       optional_bytes ''payload'' (ch_Payload c) @ optional ''error'' (ch_Error c) @
       optional_bool ''done'' (ch_Done c))"

text \<open>The structs that are read.\<close>

definition response_setters :: "http_response setters" where
  "response_setters =
     [(''StatusCode'', \<lambda>v r. map_option (\<lambda>n. r\<lparr>hp_StatusCode := n\<rparr>) (into_int v (hp_StatusCode r))),
      (''Headers'', \<lambda>v r. map_option (\<lambda>hs. r\<lparr>hp_Headers := hs\<rparr>) (into_headers v (hp_Headers r))),
      (''Body'', \<lambda>v r. map_option (\<lambda>b. r\<lparr>hp_Body := b\<rparr>) (into_bytes v))]"

definition stream_setters :: "http_stream setters" where
  "stream_setters =
     [(''status_code'', \<lambda>v r. map_option (\<lambda>n. r\<lparr>hs_StatusCode := n\<rparr>) (into_int v (hs_StatusCode r))),
      (''headers'', \<lambda>v r. map_option (\<lambda>hs. r\<lparr>hs_Headers := hs\<rparr>) (into_headers v (hs_Headers r))),
      (''stream_id'', \<lambda>v r. map_option (\<lambda>t. r\<lparr>hs_ID := t\<rparr>) (into_string v (hs_ID r)))]"

definition chunk_setters :: "stream_chunk setters" where
  "chunk_setters =
     [(''payload'', \<lambda>v r. map_option (\<lambda>b. r\<lparr>ch_Payload := b\<rparr>) (into_bytes v)),
      (''error'', \<lambda>v r. map_option (\<lambda>t. r\<lparr>ch_Error := t\<rparr>) (into_string v (ch_Error r))),
      (''done'', \<lambda>v r. map_option (\<lambda>b. r\<lparr>ch_Done := b\<rparr>) (into_bool v (ch_Done r)))]"

definition emit_setters :: "emit_request setters" where
  "emit_setters =
     [(''stream_id'', \<lambda>v r. map_option (\<lambda>t. r\<lparr>em_StreamID := t\<rparr>) (into_string v (em_StreamID r))),
      (''payload'', \<lambda>v r. map_option (\<lambda>b. r\<lparr>em_Payload := b\<rparr>) (into_bytes v))]"

text \<open>
  The methods of \<^verbatim>\<open>hostTransport\<close>: a call and what becomes of its result.
\<close>

definition decode_as ::
    "plugin_sdk \<Rightarrow> string \<Rightarrow> string \<Rightarrow> 'r setters \<Rightarrow> 'r \<Rightarrow> string \<Rightarrow> (go_error, 'r) result" where
  "decode_as sdk what type setters zero raw =
     (case unmarshal_struct setters zero raw of
        None \<Rightarrow> Inl (WrapErr (''decode host HTTP '' @ what) (PlainErr (json_error sdk type raw)))
      | Some r \<Rightarrow> Inr r)"

definition then_decode ::
    "(string \<Rightarrow> (go_error, 'r) result) \<Rightarrow> (go_error, string) result option \<times> 'w cgo \<Rightarrow>
     (go_error, 'r) result option \<times> 'w cgo" where
  "then_decode f called =
     (map_option (\<lambda>r. case r of Inl e \<Rightarrow> Inl e | Inr raw \<Rightarrow> f raw) (fst called), snd called)"

definition hostDo ::
    "plugin_sdk \<Rightarrow> string \<Rightarrow> http_request \<Rightarrow> 'w cgo \<Rightarrow> (go_error, http_response) result option \<times> 'w cgo" where
  "hostDo sdk callbackID req s =
     then_decode
       (decode_as sdk ''response'' ''hostHTTPResponse'' response_setters
          \<lparr>hp_StatusCode = 0, hp_Headers = [], hp_Body = []\<rparr>)
       (callHost sdk (MethodHostHTTPDo sdk) (Inr (host_request_json callbackID req)) s)"

definition hostOpenStream ::
    "plugin_sdk \<Rightarrow> string \<Rightarrow> http_request \<Rightarrow> 'w cgo \<Rightarrow> (go_error, http_stream) result option \<times> 'w cgo" where
  "hostOpenStream sdk callbackID req s =
     then_decode
       (\<lambda>raw. case decode_as sdk ''stream response'' ''hostHTTPStreamResponse'' stream_setters
                     \<lparr>hs_StatusCode = 0, hs_Headers = [], hs_ID = []\<rparr> raw of
                Inl e \<Rightarrow> Inl e
              | Inr r \<Rightarrow>
                  if trim_space (hs_ID r) = []
                  then Inl (PlainErr ''host HTTP stream response has no stream_id'')
                  else Inr r)
       (callHost sdk (MethodHostHTTPDoStream sdk) (Inr (host_request_json callbackID req)) s)"

definition hostReadStream ::
    "plugin_sdk \<Rightarrow> string \<Rightarrow> 'w cgo \<Rightarrow> (go_error, stream_chunk) result option \<times> 'w cgo" where
  "hostReadStream sdk streamID s =
     then_decode
       (decode_as sdk ''stream chunk'' ''hostHTTPStreamReadResponse'' chunk_setters
          \<lparr>ch_Payload = [], ch_Error = [], ch_Done = False\<rparr>)
       (callHost sdk (MethodHostHTTPStreamRead sdk) (Inr (stream_read_json streamID)) s)"

definition hostCloseStream ::
    "plugin_sdk \<Rightarrow> string \<Rightarrow> 'w cgo \<Rightarrow> (go_error, unit) result option \<times> 'w cgo" where
  "hostCloseStream sdk streamID s =
     then_decode (\<lambda>_. Inr ())
       (callHost sdk (MethodHostHTTPStreamClose sdk) (Inr (stream_read_json streamID)) s)"

definition hostEmit ::
    "plugin_sdk \<Rightarrow> string \<Rightarrow> string \<Rightarrow> 'w cgo \<Rightarrow> (go_error, unit) result option \<times> 'w cgo" where
  "hostEmit sdk streamID payload s =
     then_decode (\<lambda>_. Inr ())
       (callHost sdk (MethodHostStreamEmit sdk) (Inr (emit_json streamID payload)) s)"

text \<open>\<^verbatim>\<open>CloseOutput\<close> ignores the result; \<open>None\<close> is a panic as before.\<close>

definition hostCloseOutput ::
    "plugin_sdk \<Rightarrow> string \<Rightarrow> string \<Rightarrow> 'w cgo \<Rightarrow> unit option \<times> 'w cgo" where
  "hostCloseOutput sdk streamID message s =
     (case callHost sdk (MethodHostStreamClose sdk) (Inr (stream_close_json streamID message)) s of
        (r, s1) \<Rightarrow> (map_option (\<lambda>_. ()) r, s1))"

subsection \<open>What is taken is given back\<close>

text \<open>
  \<open>c_run\<close> checks a trace: the blocks of the plugin that are allocated and the buffers of the host
  that are not given back. Freeing what is not held is an error.
\<close>

fun c_step :: "c_event \<Rightarrow> nat set \<times> nat list \<Rightarrow> (nat set \<times> nat list) option" where
  "c_step (CAlloc p mem) (blocks, buffers) =
     (if p = 0 \<or> p \<in> blocks then None else Some (insert p blocks, buffers))"
| "c_step (CFree p) (blocks, buffers) = (if p \<in> blocks then Some (blocks - {p}, buffers) else None)"
| "c_step (HostCall m q) held = Some held"
| "c_step (HostBuffer p) (blocks, buffers) = Some (blocks, p # buffers)"
| "c_step (HostFree p) (blocks, buffers) =
     (if p \<in> set buffers then Some (blocks, remove1 p buffers) else None)"

fun c_run :: "c_event list \<Rightarrow> nat set \<times> nat list \<Rightarrow> (nat set \<times> nat list) option" where
  "c_run [] held = Some held"
| "c_run (e # es) held = Option.bind (c_step e held) (c_run es)"

definition holds :: "'w cgo \<Rightarrow> nat set \<Rightarrow> nat list \<Rightarrow> bool" where
  "holds s blocks buffers =
     (c_run (c_trace s) ({}, []) = Some (blocks, buffers) \<and> 0 < next_block s \<and>
      (\<forall>p \<in> blocks. p < next_block s))"

lemma c_run_append: "c_run (es @ fs) held = Option.bind (c_run es held) (c_run fs)"
  by (induction es arbitrary: held) (simp_all split: Option.bind_split)

lemma holds_log:
  "holds s blocks buffers \<Longrightarrow> c_run evs (blocks, buffers) = Some (blocks', buffers') \<Longrightarrow> blocks' \<subseteq> blocks \<Longrightarrow>
     holds (c_log evs s) blocks' buffers'"
  by (auto simp: holds_def c_log_def c_run_append)

lemma holds_alloc:
  "holds s blocks buffers \<Longrightarrow> c_alloc mem s = (p, s1) \<Longrightarrow>
     holds s1 (insert p blocks) buffers \<and> p \<notin> blocks \<and> stored_host s1 = stored_host s"
  by (auto simp: holds_def c_alloc_def c_log_def c_run_append)

lemma holds_free: "holds s blocks buffers \<Longrightarrow> p \<in> blocks \<Longrightarrow> holds (c_free p s) (blocks - {p}) buffers"
  unfolding c_free_def by (rule holds_log) auto

lemma holds_call:
  "holds s blocks buffers \<Longrightarrow> call_host_api m q s = (r, s1) \<Longrightarrow>
     holds s1 blocks (if rp_ptr r = 0 then buffers else rp_ptr r # buffers)"
  by (auto simp: call_host_api_def no_reply_def c_log_def holds_def c_run_append Let_def split: option.splits
      prod.splits if_splits)

lemma holds_give_back:
  assumes "holds s blocks (p # buffers)"
  shows "holds (free_host_buffer p s) blocks buffers \<or>
    (holds (free_host_buffer p s) blocks (p # buffers) \<and>
     (p = 0 \<or> stored_host s = None \<or> (\<exists>h. stored_host s = Some h \<and> \<not> ha_free h)))"
  using assms holds_log [of s blocks "p # buffers" "[HostFree p]" blocks buffers]
  by (auto simp: free_host_buffer_def split: option.splits)

lemma stored_host_kept [simp]:
  "stored_host (c_free p s) = stored_host s" "stored_host (free_host_buffer p s) = stored_host s"
  by (simp_all add: c_free_def free_host_buffer_def c_log_def split: option.splits)

lemma holds_copy:
  "holds s blocks buffers \<Longrightarrow> copy_request request s = (q, s1) \<Longrightarrow>
     holds s1 (if request = [] then blocks else insert q blocks) buffers \<and> (request \<noteq> [] \<longrightarrow> q \<notin> blocks)"
  using holds_alloc [of s blocks buffers request q s1] by (auto simp: copy_request_def split: if_splits)

lemma holds_frees:
  assumes "holds s (if request = [] then insert m blocks else insert q (insert m blocks)) buffers"
    and "m \<notin> blocks" "request \<noteq> [] \<longrightarrow> q \<notin> insert m blocks"
  shows "holds (deferred_frees m request q s) blocks buffers"
  using assms holds_free [of s "insert m blocks" buffers m] holds_free [of s "insert q (insert m blocks)" buffers q]
    holds_free [of "c_free q s" "insert m blocks" buffers m]
  by (simp add: deferred_frees_def split: if_splits)

lemma frees_host [simp]: "stored_host (deferred_frees m request q s) = stored_host s"
  by (simp add: deferred_frees_def)

text \<open>
  C8: A host callback gives back all the C memory that it takes: the blocks that are allocated
  afterwards are those of before, nothing is freed twice, and the buffer of the host goes back to
  it. The buffer is lost in three cases only: the copy of the reply panicked, the host has no
  \<^verbatim>\<open>free_buffer\<close>, or its table of functions was cleared by a shutdown.
\<close>

theorem callHost_gives_back:
  assumes "holds s blocks buffers" and "callHost sdk method payload s = (r, s')"
  shows "holds s' blocks buffers \<or>
    (\<exists>p. holds s' blocks (p # buffers) \<and>
       (r = None \<or> stored_host s' = None \<or> (\<exists>h. stored_host s' = Some h \<and> \<not> ha_free h)))"
proof (cases payload)
  case (Inl e)
  with assms show ?thesis by (auto simp: callHost_def)
next
  case (Inr request)
  obtain m s1 q s2 a s3 where st: "c_alloc (method @ [CHR 0x00]) s = (m, s1)" "copy_request request s1 = (q, s2)"
      "call_host_api method request s2 = (a, s3)"
    and out: "callHost sdk method (Inr request) s =
      (case (if rp_ptr a \<noteq> 0 \<and> rp_bytes a \<noteq> [] then go_bytes (rp_bytes a) else Some []) of
         None \<Rightarrow> (None, deferred_frees m request q s3)
       | Some raw \<Rightarrow> (Some (host_answer sdk method (rp_code a) raw),
           deferred_frees m request q (if rp_ptr a \<noteq> 0 then free_host_buffer (rp_ptr a) s3 else s3)))"
    by (rule callHost_steps)
  from holds_alloc [OF assms(1) st(1)] have h1: "holds s1 (insert m blocks) buffers" "m \<notin> blocks" by auto
  let ?mine = "if request = [] then insert m blocks else insert q (insert m blocks)"
  from holds_copy [OF h1(1) st(2)]
  have h2: "holds s2 ?mine buffers" and fresh: "request \<noteq> [] \<longrightarrow> q \<notin> insert m blocks" by auto
  have frees: "holds (deferred_frees m request q t) blocks bs" if "holds t ?mine bs" for t bs
    by (rule holds_frees [OF that h1(2) fresh])
  show ?thesis
  proof (cases "rp_ptr a = 0")
    case True
    with out assms(2) Inr have "s' = deferred_frees m request q s3" by simp
    moreover have "holds s3 ?mine buffers" using holds_call [OF h2 st(3)] True by simp
    ultimately show ?thesis using frees by blast
  next
    case False
    have h3: "holds s3 ?mine (rp_ptr a # buffers)" using holds_call [OF h2 st(3)] False by simp
    have "(r = None \<and> s' = deferred_frees m request q s3) \<or>
        s' = deferred_frees m request q (free_host_buffer (rp_ptr a) s3)"
      using out assms(2) Inr False by (auto split: option.splits if_splits)
    then show ?thesis
    proof
      assume "r = None \<and> s' = deferred_frees m request q s3"
      with frees [OF h3] show ?thesis by blast
    next
      assume s': "s' = deferred_frees m request q (free_host_buffer (rp_ptr a) s3)"
      from holds_give_back [OF h3] False show ?thesis
        unfolding s' using frees by (metis frees_host stored_host_kept(2))
    qed
  qed
qed

text \<open>A host that answers with an envelope, in a buffer of its own.\<close>

definition sample_sdk :: plugin_sdk where
  "sample_sdk =
     \<lparr>ABIVersion = 1, MethodHostHTTPDo = ''host.http.do'', MethodHostHTTPDoStream = ''host.http.do_stream'',
      MethodHostHTTPStreamRead = ''host.http.stream_read'', MethodHostHTTPStreamClose = ''host.http.stream_close'',
      MethodHostStreamEmit = ''host.stream.emit'', MethodHostStreamClose = ''host.stream.close'',
      encode_envelope = (\<lambda>env. Inr ((if ev_OK env then CHR ''+'' else CHR ''-'') # ev_Result env)),
      decode_envelope = (\<lambda>raw. Inr \<lparr>ev_OK = prefix ''+'' raw, ev_Result = drop 1 raw, ev_Error = None\<rparr>),
      json_error = (\<lambda>type raw. ''invalid JSON'')\<rparr>"

definition sample_host :: "string \<Rightarrow> bool \<Rightarrow> unit host_api" where
  "sample_host bytes closing =
     \<lparr>ha_abi_version = 1,
      ha_call = Some (\<lambda>m q w. (\<lparr>rp_code = 0, rp_ptr = 7, rp_bytes = bytes, rp_shutdown = closing\<rparr>, w)),
      ha_free = True\<rparr>"

definition sample_cgo :: "string \<Rightarrow> bool \<Rightarrow> unit cgo" where
  "sample_cgo bytes closing =
     \<lparr>stored_host = Some (sample_host bytes closing), host_world = (), next_block = 1, c_trace = []\<rparr>"

lemma sample_holds: "holds (sample_cgo bytes closing) {} []"
  by (simp add: holds_def sample_cgo_def)

lemmas call_defs =
  callHost_def copy_request_def deferred_frees_def c_alloc_def c_free_def c_log_def call_host_api_def free_host_buffer_def go_bytes_def c_int_def

theorem callHost_gives_back_witness:
  "\<exists>r s'. callHost sample_sdk ''m'' (Inr ''q'') (sample_cgo ''+1'' False) = (r, s') \<and> r = Some (Inr ''1'') \<and>
     (holds s' {} [] \<or> stored_host s' = None)"
proof -
  obtain r s' where c: "callHost sample_sdk ''m'' (Inr ''q'') (sample_cgo ''+1'' False) = (r, s')" by fastforce
  have "r = Some (Inr ''1'')" and "stored_host s' = Some (sample_host ''+1'' False)"
    using c by (auto simp: call_defs sample_cgo_def sample_sdk_def sample_host_def host_answer_def)
  moreover have "ha_free (sample_host ''+1'' False)" by (simp add: sample_host_def)
  ultimately show ?thesis using callHost_gives_back [OF sample_holds c] c by auto
qed

text \<open>
  A shutdown on another thread while the host answers: the table of functions is gone when the
  buffer should be given back, and the buffer is lost.
\<close>

lemma shutdown_loses_buffer:
  "holds (snd (callHost sample_sdk ''m'' (Inr ''q'') (sample_cgo ''+1'' True))) {} [7]"
  by (simp add: call_defs sample_cgo_def sample_sdk_def sample_host_def holds_def insert_Diff_if)

subsection \<open>When a callback succeeds\<close>

lemma callHost_fst:
  assumes "stored_host s = Some h" "ha_call h = Some call" "call method request (host_world s) = (reply, w)"
  shows "fst (callHost sdk method (Inr request) s) =
    (if rp_ptr reply = 0 then Some (host_answer sdk method (rp_code reply) [])
     else map_option (host_answer sdk method (rp_code reply)) (go_bytes (rp_bytes reply)))"
  using assms
  by (auto simp: callHost_def copy_request_def c_alloc_def c_log_def call_host_api_def Let_def go_bytes_def c_int_def
      split: option.splits prod.splits if_splits)

lemma host_answer_ok:
  "host_answer sdk method rc raw = Inr x \<longleftrightarrow>
     raw \<noteq> [] \<and> rc = 0 \<and> (\<exists>env. decode_envelope sdk raw = Inr env \<and> ev_OK env \<and> x = ev_Result env)"
  by (auto simp: host_answer_def Let_def split: sum.splits option.splits)

text \<open>
  C29: A host callback succeeds exactly when the host wrote a buffer, the buffer holds an envelope
  that says so, and the return code is 0; its result is the result in the envelope. So neither an
  envelope with a failure code nor a code without an envelope passes for a success.
\<close>

theorem callHost_succeeds_iff:
  assumes "stored_host s = Some h" "ha_call h = Some call" "call method request (host_world s) = (reply, w)"
  shows "fst (callHost sdk method (Inr request) s) = Some (Inr x) \<longleftrightarrow>
    rp_ptr reply \<noteq> 0 \<and> rp_code reply = 0 \<and>
    (\<exists>raw env. go_bytes (rp_bytes reply) = Some raw \<and> raw \<noteq> [] \<and> decode_envelope sdk raw = Inr env \<and>
       ev_OK env \<and> x = ev_Result env)"
  by (auto simp: callHost_fst [OF assms] host_answer_ok)

theorem callHost_succeeds_iff_witness:
  "fst (callHost sample_sdk ''m'' (Inr ''q'') (sample_cgo ''+1'' False)) = Some (Inr ''1'')"
  using callHost_succeeds_iff [of "sample_cgo ''+1'' False" "sample_host ''+1'' False" _ "''m''" "''q''" _ _
      sample_sdk "''1''"]
  by (simp add: sample_cgo_def sample_host_def sample_sdk_def go_bytes_def c_int_def)


subsection \<open>What is sent arrives\<close>

lemma unmarshal_fields:
  assumes "distinct (map fst fs)" and "\<forall>(k, v) \<in> set fs. utf8 k \<and> printable v \<and> depth v = 0"
  shows "unmarshal_struct setters zero (marshal_fields fs) = fold (set_member setters) fs (Some zero)"
  by (simp add: unmarshal_struct_def struct_shape [OF assms] skip_ws_def)

lemma b64_ascii: "list_all (\<lambda>c. byte c < 128) (b64_encode s)"
proof -
  have a: "byte (b64_char n) < 128" if "sextet n" for n
  proof -
    have "list_all (\<lambda>n. byte (b64_char n) < 128) (map int [0..<64])" by code_simp
    then show ?thesis using that sextets [of n] unfolding list_all_iff sextet_def by blast
  qed
  show ?thesis
    by (induction s rule: b64_encode.induct) (simp_all add: a sextets_of_bytes)
qed

lemma utf8_b64 [simp]: "utf8 (b64_encode s)"
  by (rule utf8_ascii) (rule b64_ascii)

lemmas field_simps_of = field_is_def equal_fold_def lower_char_def

definition no_emit :: emit_request where
  "no_emit = \<lparr>em_StreamID = [], em_Payload = []\<rparr>"

lemma emit_json_read:
  assumes "utf8 streamID"
  shows "unmarshal_struct emit_setters no_emit (emit_json streamID payload) =
    Some \<lparr>em_StreamID = streamID, em_Payload = payload\<rparr>"
proof -
  let ?fs = "[(''stream_id'', JStr streamID)] @ optional_bytes ''payload'' payload"
  have "unmarshal_struct emit_setters no_emit (marshal_fields ?fs) =
      fold (set_member emit_setters) ?fs (Some no_emit)"
    using assms by (intro unmarshal_fields) (auto simp: optional_bytes_def)
  then show ?thesis
    by (simp add: emit_json_def optional_bytes_def set_member_def emit_setters_def field_simps_of
        into_string_def into_bytes_def b64_decode_encode no_emit_def)
qed

lemma chunk_json_read:
  assumes "utf8 (ch_Error c)"
  shows "unmarshal_struct chunk_setters \<lparr>ch_Payload = [], ch_Error = [], ch_Done = False\<rparr> (chunk_json c) = Some c"
proof -
  let ?fs = "optional_bytes ''payload'' (ch_Payload c) @ optional ''error'' (ch_Error c) @
    optional_bool ''done'' (ch_Done c)"
  let ?z = "\<lparr>ch_Payload = [], ch_Error = [], ch_Done = False\<rparr>"
  have "unmarshal_struct chunk_setters ?z (marshal_fields ?fs) = fold (set_member chunk_setters) ?fs (Some ?z)"
    using assms by (intro unmarshal_fields) (auto simp: optional_bytes_def optional_def optional_bool_def)
  then show ?thesis
    by (cases c) (simp add: chunk_json_def optional_bytes_def optional_def optional_bool_def set_member_def
        chunk_setters_def field_simps_of into_string_def into_bytes_def into_bool_def b64_decode_encode)
qed

definition host_calls :: "c_event list \<Rightarrow> (string \<times> string) list" where
  "host_calls evs = concat (map (\<lambda>e. case e of HostCall m q \<Rightarrow> [(m, q)] | _ \<Rightarrow> []) evs)"

lemma host_calls_simps [simp]:
  "host_calls [] = []" "host_calls (evs @ evs') = host_calls evs @ host_calls evs'"
  "host_calls (HostCall m q # evs) = (m, q) # host_calls evs" "host_calls (CAlloc p mem # evs) = host_calls evs"
  "host_calls (CFree p # evs) = host_calls evs" "host_calls (HostBuffer p # evs) = host_calls evs"
  "host_calls (HostFree p # evs) = host_calls evs"
  by (simp_all add: host_calls_def)

lemma log_calls:
  "host_calls (c_trace (c_log evs s)) = host_calls (c_trace s) @ host_calls evs"
  by (simp add: c_log_def)

lemma callHost_kept:
  assumes "stored_host s = Some h" "ha_call h = Some call" "call method request (host_world s) = (reply, w)"
  shows "stored_host (snd (callHost sdk method (Inr request) s)) = (if rp_shutdown reply then None else Some h) \<and>
    host_calls (c_trace (snd (callHost sdk method (Inr request) s))) = host_calls (c_trace s) @ [(method, request)]"
proof -
  obtain m s1 q s2 a s3 where st: "c_alloc (method @ [CHR 0x00]) s = (m, s1)" "copy_request request s1 = (q, s2)"
      "call_host_api method request s2 = (a, s3)"
    and out: "callHost sdk method (Inr request) s =
      (case (if rp_ptr a \<noteq> 0 \<and> rp_bytes a \<noteq> [] then go_bytes (rp_bytes a) else Some []) of
         None \<Rightarrow> (None, deferred_frees m request q s3)
       | Some raw \<Rightarrow> (Some (host_answer sdk method (rp_code a) raw),
           deferred_frees m request q (if rp_ptr a \<noteq> 0 then free_host_buffer (rp_ptr a) s3 else s3)))"
    by (rule callHost_steps)
  have al: "host_calls (c_trace t') = host_calls (c_trace t) \<and> stored_host t' = stored_host t \<and> host_world t' = host_world t"
    if "c_alloc mem t = (p, t')" for mem p and t t' :: "'a cgo"
    using that by (auto simp: c_alloc_def log_calls) (auto simp: c_log_def)
  have fr: "host_calls (c_trace (deferred_frees m request q t)) = host_calls (c_trace t)"
    "host_calls (c_trace (free_host_buffer p t)) = host_calls (c_trace t)" for p and t :: "'a cgo"
    by (simp_all add: deferred_frees_def c_free_def free_host_buffer_def log_calls split: option.splits)
  have "host_calls (c_trace s2) = host_calls (c_trace s)" "stored_host s2 = Some h" "host_world s2 = host_world s"
    using al [OF st(1)] al [of request s1 q s2] st(2) assms(1) by (auto simp: copy_request_def split: if_splits)
  then have "host_calls (c_trace s3) = host_calls (c_trace s) @ [(method, request)]"
    "stored_host s3 = (if rp_shutdown reply then None else Some h)"
    using st(3) assms(2,3) by (auto simp: call_host_api_def c_log_def Let_def split: if_splits)
  then show ?thesis unfolding out by (simp add: fr split: option.split)
qed

text \<open>
  C11: A payload that the plugin emits arrives: the host is called once, with the emit method and a
  JSON text that reads back as the identifier of the stream and the very bytes of the payload,
  whatever they are.
\<close>

theorem emit_roundtrip:
  assumes "stored_host s = Some h" "ha_call h = Some call" "utf8 streamID"
  shows "\<exists>request. host_calls (c_trace (snd (hostEmit sdk streamID payload s))) =
      host_calls (c_trace s) @ [(MethodHostStreamEmit sdk, request)] \<and>
    unmarshal_struct emit_setters no_emit request = Some \<lparr>em_StreamID = streamID, em_Payload = payload\<rparr>"
proof -
  obtain reply w where "call (MethodHostStreamEmit sdk) (emit_json streamID payload) (host_world s) = (reply, w)" by fastforce
  from callHost_kept [OF assms(1,2) this] emit_json_read [OF assms(3)] show ?thesis
    by (auto simp: hostEmit_def then_decode_def)
qed

theorem emit_roundtrip_witness:
  "\<exists>request. host_calls (c_trace (snd (hostEmit sample_sdk ''s-1'' [CHR 0x00, CHR 0xFF] (sample_cgo ''+1'' False)))) =
      [(''host.stream.emit'', request)] \<and>
    unmarshal_struct emit_setters no_emit request = Some \<lparr>em_StreamID = ''s-1'', em_Payload = [CHR 0x00, CHR 0xFF]\<rparr>"
  using emit_roundtrip [of "sample_cgo ''+1'' False" "sample_host ''+1'' False" _ "''s-1''" sample_sdk
      "[CHR 0x00, CHR 0xFF]"]
  by (simp add: sample_cgo_def sample_host_def sample_sdk_def)

end
