(* ===== verification/AgentOutput.thy ===== *)
theory AgentOutput
  imports GoMarshal Payload
begin

section \<open>The agent's output (internal/provider/cursor_cli.go)\<close>

text \<open>
  From the output of the agent to what the client gets: the text and the usage in a JSON object of
  the agent, the response of a plain request, and the loop that turns a stream of such objects
  into deltas and a result for the host. What a stream sends is proved to follow its protocol, and
  to be the text of the agent when its lines are cumulative.
\<close>

subsection \<open>Usage and text\<close>

text \<open>\<^verbatim>\<open>int64(number(m[k]))\<close>.\<close>

definition num_at :: "json go_map \<Rightarrow> string \<Rightarrow> int" where
  "num_at m k = (case map_of m k of Some (JNum l) \<Rightarrow> int64_of_float l | _ \<Rightarrow> 0)"

text \<open>The first of the keys with a value other than 0.\<close>

fun first_num :: "json go_map \<Rightarrow> string list \<Rightarrow> int" where
  "first_num m [] = 0"
| "first_num m (k # ks) = (if num_at m k \<noteq> 0 then num_at m k else first_num m ks)"

definition wrap64 :: "int \<Rightarrow> int" where
  "wrap64 n = (n + 9223372036854775808) mod 18446744073709551616 - 9223372036854775808"

record cursor_usage =
  cu_in :: int
  cu_out :: int
  cu_total :: int

definition zero_usage :: cursor_usage where
  "zero_usage = \<lparr>cu_in = 0, cu_out = 0, cu_total = 0\<rparr>"

definition usageFromCursor :: "json go_map \<Rightarrow> cursor_usage" where
  "usageFromCursor raw =
     (case map_of raw ''usage'' of
        Some (JObj usage) \<Rightarrow>
          (let i = first_num usage [''input_tokens'', ''prompt_tokens'', ''inputTokens''];
               ou = first_num usage [''output_tokens'', ''completion_tokens'', ''outputTokens''];
               t = num_at usage ''total_tokens''
           in \<lparr>cu_in = i, cu_out = ou, cu_total = (if t = 0 then wrap64 (i + ou) else t)\<rparr>)
      | _ \<Rightarrow> zero_usage)"

definition usage_json :: "cursor_usage \<Rightarrow> json" where
  "usage_json u =
     JObj [(''input_tokens'', json_int (cu_in u)), (''output_tokens'', json_int (cu_out u)),
           (''total_tokens'', json_int (cu_total u))]"

text \<open>The text of one part of a message; other values have none.\<close>

definition part_text :: "json \<Rightarrow> string" where
  "part_text part =
     (case part of
        JObj m \<Rightarrow>
          (let typ = str_at m ''type''
           in if typ \<noteq> [] \<and> typ \<noteq> ''text'' \<and> typ \<noteq> ''output_text'' then [] else str_at m ''text'')
      | _ \<Rightarrow> [])"

definition message_text :: "json go_map \<Rightarrow> string" where
  "message_text raw =
     (case map_of raw ''message'' of
        Some (JObj msg) \<Rightarrow>
          (case map_of msg ''content'' of
             Some (JArr parts) \<Rightarrow> concat (map part_text parts)
           | _ \<Rightarrow> [])
      | _ \<Rightarrow> [])"

definition cursorText :: "json go_map \<Rightarrow> string" where
  "cursorText raw =
     (case find (\<lambda>key. trim_space (str_at raw key) \<noteq> []) [''result'', ''text'', ''output''] of
        Some key \<Rightarrow> str_at raw key
      | None \<Rightarrow> message_text raw)"

subsection \<open>Responses and events\<close>

definition responsePayload :: "string \<Rightarrow> string \<Rightarrow> string \<Rightarrow> cursor_usage \<Rightarrow> int \<Rightarrow> string" where
  "responsePayload format model text usage created =
     marshal (
       if format = ''claude'' then
         JObj [(''id'', JStr ''msg_cursor''), (''type'', JStr ''message''),
               (''role'', JStr ''assistant''), (''model'', JStr model),
               (''content'', JArr [JObj [(''type'', JStr ''text''), (''text'', JStr text)]]),
               (''stop_reason'', JStr ''end_turn''), (''usage'', usage_json usage)]
       else if format = ''openai-chat'' then
         JObj [(''id'', JStr ''chatcmpl_cursor''), (''object'', JStr ''chat.completion''),
               (''created'', json_int created), (''model'', JStr model),
               (''choices'', JArr [JObj [(''index'', json_int 0),
                  (''message'', JObj [(''role'', JStr ''assistant''), (''content'', JStr text)]),
                  (''finish_reason'', JStr ''stop'')]]),
               (''usage'', usage_json usage)]
       else
         JObj [(''id'', JStr ''resp_cursor''), (''object'', JStr ''response''),
               (''created_at'', json_int created), (''model'', JStr model),
               (''output'', JArr [JObj [(''type'', JStr ''message''), (''role'', JStr ''assistant''),
                  (''content'', JArr [JObj [(''type'', JStr ''output_text''), (''text'', JStr text)]])]]),
               (''usage'', usage_json usage)])"

definition event :: "json \<Rightarrow> string" where
  "event payload = marshal payload @ [CHR 0x0A]"

text \<open>What \<open>emitStreamLine\<close> sends for a delta and for the result.\<close>

definition delta_payload :: "string \<Rightarrow> string \<Rightarrow> int \<Rightarrow> string \<Rightarrow> json" where
  "delta_payload format model created text =
     (if format = ''openai-chat'' then
        JObj [(''id'', JStr ''chatcmpl_cursor''), (''object'', JStr ''chat.completion.chunk''),
              (''created'', json_int created), (''model'', JStr model),
              (''choices'', JArr [JObj [(''index'', json_int 0),
                 (''delta'', JObj [(''content'', JStr text)])]])]
      else if format = ''claude'' then
        JObj [(''type'', JStr ''content_block_delta''),
              (''delta'', JObj [(''type'', JStr ''text_delta''), (''text'', JStr text)])]
      else JObj [(''type'', JStr ''response.output_text.delta''), (''delta'', JStr text)])"

definition result_payload :: "string \<Rightarrow> string \<Rightarrow> cursor_usage \<Rightarrow> json" where
  "result_payload model text usage =
     JObj [(''type'', JStr ''cursor.result''), (''model'', JStr model), (''text'', JStr text),
           (''usage'', usage_json usage)]"

subsection \<open>The stream\<close>

text \<open>
  The local variables of \<open>streamCursorJSON\<close>; \<open>stream_line\<close> handles one decoded line and returns
  the delta to send, if any.
\<close>

record stream_vars =
  emitted :: string
  terminal :: string
  usage :: cursor_usage

definition stream_start :: stream_vars where
  "stream_start = \<lparr>emitted = [], terminal = [], usage = zero_usage\<rparr>"

definition stream_line :: "json go_map \<Rightarrow> stream_vars \<Rightarrow> string option \<times> stream_vars" where
  "stream_line line vs =
     (let typ = str_at line ''type''
      in if typ = ''result'' \<or> (map_of line ''result'' \<noteq> None \<and> map_of line ''result'' \<noteq> Some JNull)
         then (None, vs\<lparr>terminal := cursorText line, usage := usageFromCursor line\<rparr>)
         else if typ \<noteq> ''assistant'' \<and> typ \<noteq> ''text'' then (None, vs)
         else let text = cursorText line
              in if text = [] then (None, vs)
                 else let delta = (if prefix (emitted vs) text then trim_prefix text (emitted vs) else text)
                      in if delta = [] then (None, vs)
                         else (Some delta, vs\<lparr>emitted := emitted vs @ delta\<rparr>))"

lemma dec_first_shorter: "decode_first s = DecOk v r \<Longrightarrow> length r < length s"
  by (auto simp: decode_first_def dec_value_shorter split: if_splits option.splits)

definition stream_parse_error :: go_error where
  "stream_parse_error =
     statusError ''cursor_stream_parse'' ''Cursor stream-json output contained malformed JSON'' 502"

definition stream_missing_error :: go_error where
  "stream_missing_error =
     statusError ''cursor_stream_missing_result''
       ''Cursor stream-json output ended without a terminal result'' 502"

text \<open>
  \<open>send n\<close> is the host's answer to the \<open>n\<close>-th \<^verbatim>\<open>Emit\<close>: the text of its error, if any. The
  loop returns the payloads that were handed to the host and how it ended. A line is decoded
  into a \<^verbatim>\<open>map[string]any\<close>, with float64 numbers.
\<close>

definition line_of :: "json \<Rightarrow> json go_map option" where
  "line_of v = (if floats_ok v then as_map v else None)"

function stream_loop ::
    "(string \<Rightarrow> string) \<Rightarrow> (nat \<Rightarrow> string option) \<Rightarrow> nat \<Rightarrow> stream_vars \<Rightarrow> string \<Rightarrow>
     string list \<times> (go_error, stream_vars) result" where
  "stream_loop enc send n vs s =
     (case decode_first s of
        DecEOF \<Rightarrow> ([], Inr vs)
      | DecErr \<Rightarrow> ([], Inl stream_parse_error)
      | DecOk v rest \<Rightarrow>
          (case line_of v of
             None \<Rightarrow> ([], Inl stream_parse_error)
           | Some line \<Rightarrow>
               (case stream_line line vs of
                  (None, vs') \<Rightarrow> stream_loop enc send n vs' rest
                | (Some delta, vs') \<Rightarrow>
                    (case send n of
                       Some e \<Rightarrow> ([enc delta], Inl (PlainErr e))
                     | None \<Rightarrow>
                         (let (ps, r) = stream_loop enc send (n + 1) vs' rest
                          in (enc delta # ps, r))))))"
  by pat_completeness auto
termination
  by (relation "measure (\<lambda>(enc, send, n, vs, s). length s)") (auto dest: dec_first_shorter)

declare stream_loop.simps [simp del]

definition streamCursorJSON ::
    "(nat \<Rightarrow> string option) \<Rightarrow> string \<Rightarrow> string \<Rightarrow> int \<Rightarrow> string \<Rightarrow> string list \<times> go_error option" where
  "streamCursorJSON send format model created s =
     (case stream_loop (\<lambda>d. event (delta_payload format model created d)) send 0 stream_start s of
        (ps, Inl e) \<Rightarrow> (ps, Some e)
      | (ps, Inr vs) \<Rightarrow>
          if terminal vs = [] then (ps, Some stream_missing_error)
          else (ps @ [event (result_payload model (terminal vs) (usage vs))],
                map_option PlainErr (send (length ps))))"

subsection \<open>What the loop sends\<close>

lemma stream_line_cases:
  obtains (none) "fst (stream_line line vs) = None" "emitted (snd (stream_line line vs)) = emitted vs"
  | (some) d where "fst (stream_line line vs) = Some d" "d \<noteq> []"
      "emitted (snd (stream_line line vs)) = emitted vs @ d"
  by (cases "fst (stream_line line vs)")
    (auto simp: stream_line_def Let_def split: if_splits)

lemma send_shift:
  "send n = None \<Longrightarrow> \<forall>k < m. send (n + 1 + k) = None \<Longrightarrow> \<forall>k < Suc m. send (n + k) = None"
  by (auto simp: less_Suc_eq_0_disj)

lemma stream_loop_sends:
  assumes "stream_loop enc send n vs s = (ps, r)"
  shows "\<exists>ds. ps = map enc ds \<and> [] \<notin> set ds \<and> (\<forall>k < length ds - 1. send (n + k) = None) \<and>
    (\<forall>vs'. r = Inr vs' \<longrightarrow> emitted vs' = emitted vs @ concat ds \<and> (\<forall>k < length ds. send (n + k) = None))"
  using assms
proof (induction "length s" arbitrary: s n vs ps rule: less_induct)
  case less
  show ?case
  proof (cases "decode_first s")
    case (DecOk v rest)
    then have sh: "length rest < length s" by (rule dec_first_shorter)
    show ?thesis
    proof (cases "line_of v")
      case None
      with DecOk less.prems show ?thesis by (subst (asm) stream_loop.simps) auto
    next
      case (Some line)
      show ?thesis
      proof (cases rule: stream_line_cases [of line vs])
        case none
        then have "stream_loop enc send n (snd (stream_line line vs)) rest = (ps, r)"
          using less.prems DecOk Some
          by (subst (asm) stream_loop.simps) (auto split: prod.splits option.splits)
        from less.hyps [OF sh this] none show ?thesis by simp
      next
        case (some d)
        then obtain vs1 where l: "stream_line line vs = (Some d, vs1)" "emitted vs1 = emitted vs @ d"
          by (cases "stream_line line vs") auto
        show ?thesis
        proof (cases "send n")
          case (Some e)
          with l DecOk \<open>line_of v = Some line\<close> less.prems have "ps = [enc d]" "r = Inl (PlainErr e)"
            by (subst (asm) stream_loop.simps, simp)+
          with some(2) show ?thesis by (intro exI [of _ "[d]"]) simp
        next
          case None
          obtain ps1 where r: "stream_loop enc send (n + 1) vs1 rest = (ps1, r)" "ps = enc d # ps1"
            using less.prems DecOk \<open>line_of v = Some line\<close> l None
            by (subst (asm) stream_loop.simps) (auto split: prod.splits)
          from less.hyps [OF sh r(1)] obtain ds where ds: "ps1 = map enc ds" "[] \<notin> set ds"
            "\<forall>k < length ds - 1. send (n + 1 + k) = None"
            "\<forall>vs'. r = Inr vs' \<longrightarrow> emitted vs' = emitted vs1 @ concat ds \<and>
               (\<forall>k < length ds. send (n + 1 + k) = None)" by blast
          have "\<forall>k < length ds. send (n + k) = None"
            using send_shift [of send n "length ds - 1", OF None ds(3)] by (cases ds) simp_all
          moreover have "\<forall>k < Suc (length ds). send (n + k) = None" if "r = Inr vs'" for vs'
            using send_shift [of send n "length ds", OF None] ds(4) that by blast
          moreover have "emitted vs' = emitted vs @ concat (d # ds)" if "r = Inr vs'" for vs'
            using ds(4) l(2) that by simp
          moreover have "ps = map enc (d # ds)" "[] \<notin> set (d # ds)"
            using ds(1,2) r(2) some(2) by auto
          moreover have "length (d # ds) - 1 = length ds" "length (d # ds) = Suc (length ds)" by simp_all
          ultimately show ?thesis by metis
        qed
      qed
    qed
  qed (use less.prems in \<open>subst (asm) stream_loop.simps, auto\<close>)+
qed

lemma stream_loop_error:
  "stream_loop enc send n vs s = (ps, Inl e) \<Longrightarrow>
     e = stream_parse_error \<or> (\<exists>k t. send k = Some t \<and> e = PlainErr t)"
proof (induction "length s" arbitrary: s n vs ps rule: less_induct)
  case less
  show ?case
  proof (cases "decode_first s")
    case (DecOk v rest)
    note IH = less.hyps [OF dec_first_shorter [OF DecOk]]
    show ?thesis
    proof (cases "line_of v")
      case None
      with DecOk less.prems show ?thesis by (subst (asm) stream_loop.simps) auto
    next
      case (Some line)
      obtain d vs1 where l: "stream_line line vs = (d, vs1)" by fastforce
      from less.prems DecOk Some l show ?thesis
        by (subst (asm) stream_loop.simps)
          (cases d; cases "send n"; auto split: prod.splits dest: IH)
    qed
  qed (use less.prems in \<open>subst (asm) stream_loop.simps, auto\<close>)+
qed

lemma stream_error:
  assumes "streamCursorJSON send format model created s = (ps, Some e)"
  shows "e \<in> {stream_parse_error, stream_missing_error} \<or> (\<exists>k t. send k = Some t \<and> e = PlainErr t)"
  using assms stream_loop_error
  by (fastforce simp: streamCursorJSON_def split: prod.splits sum.splits if_splits)

subsection \<open>Lines and their texts\<close>

inductive decodes_to :: "string \<Rightarrow> json go_map list \<Rightarrow> bool" where
  stop: "decode_first s = DecEOF \<Longrightarrow> decodes_to s []"
| more: "decode_first s = DecOk v rest \<Longrightarrow> line_of v = Some l \<Longrightarrow> decodes_to rest ls \<Longrightarrow>
         decodes_to s (l # ls)"

code_pred decodes_to .

definition is_result :: "json go_map \<Rightarrow> bool" where
  "is_result line =
     (str_at line ''type'' = ''result'' \<or>
      (map_of line ''result'' \<noteq> None \<and> map_of line ''result'' \<noteq> Some JNull))"

text \<open>The texts that the agent says, in order.\<close>

definition said :: "json go_map list \<Rightarrow> string list" where
  "said ls = map cursorText (filter (\<lambda>l. \<not> is_result l \<and> str_at l ''type'' \<in> {''assistant'', ''text''} \<and>
     cursorText l \<noteq> []) ls)"

fun fold_lines :: "json go_map list \<Rightarrow> stream_vars \<Rightarrow> string list \<times> stream_vars" where
  "fold_lines [] vs = ([], vs)"
| "fold_lines (l # ls) vs =
     (case stream_line l vs of
        (None, vs') \<Rightarrow> fold_lines ls vs'
      | (Some d, vs') \<Rightarrow> (let (ds, vs'') = fold_lines ls vs' in (d # ds, vs'')))"

lemma stream_loop_fold:
  "decodes_to s ls \<Longrightarrow>
     stream_loop enc (\<lambda>_. None) n vs s = (map enc (fst (fold_lines ls vs)), Inr (snd (fold_lines ls vs)))"
proof (induction arbitrary: n vs rule: decodes_to.induct)
  case (stop s)
  then show ?case by (subst stream_loop.simps) simp
next
  case (more s v rest l ls)
  then show ?case
    by (subst stream_loop.simps) (auto split: prod.splits option.splits)
qed

lemma stream_line_said:
  "stream_line l vs =
     (if is_result l then (None, vs\<lparr>terminal := cursorText l, usage := usageFromCursor l\<rparr>)
      else if str_at l ''type'' \<in> {''assistant'', ''text''} \<and> cursorText l \<noteq> []
      then (let d = (if prefix (emitted vs) (cursorText l) then trim_prefix (cursorText l) (emitted vs)
                     else cursorText l)
            in if d = [] then (None, vs) else (Some d, vs\<lparr>emitted := emitted vs @ d\<rparr>))
      else (None, vs))"
  unfolding stream_line_def Let_def is_result_def [symmetric] by auto

lemma fold_lines_cumulative:
  "sorted_wrt prefix (emitted vs # said ls) \<Longrightarrow>
     concat (fst (fold_lines ls vs)) = drop (length (emitted vs)) (last (emitted vs # said ls)) \<and>
     emitted (snd (fold_lines ls vs)) = last (emitted vs # said ls)"
proof (induction ls arbitrary: vs)
  case (Cons l ls)
  show ?case
  proof (cases "\<not> is_result l \<and> str_at l ''type'' \<in> {''assistant'', ''text''} \<and> cursorText l \<noteq> []")
    case False
    then obtain vs' where l: "stream_line l vs = (None, vs')" "emitted vs' = emitted vs"
      by (cases "is_result l") (auto simp: stream_line_said)
    moreover have "said (l # ls) = said ls" using False by (auto simp: said_def)
    ultimately show ?thesis using Cons.prems Cons.IH [of vs'] by simp
  next
    case True
    then have s: "said (l # ls) = cursorText l # said ls" by (simp add: said_def)
    with Cons.prems have p: "prefix (emitted vs) (cursorText l)" by simp
    then obtain d where d: "cursorText l = emitted vs @ d" by (auto simp: prefix_def)
    show ?thesis
    proof (cases "d = []")
      case True
      with d \<open>\<not> is_result l \<and> _\<close> have "stream_line l vs = (None, vs)"
        by (auto simp: stream_line_said trim_prefix_def)
      with Cons.IH [of vs] Cons.prems s d True show ?thesis by auto
    next
      case False
      define vs' where "vs' = vs\<lparr>emitted := emitted vs @ d\<rparr>"
      have l: "stream_line l vs = (Some d, vs')" "emitted vs' = cursorText l"
        using d False \<open>\<not> is_result l \<and> _\<close> by (auto simp: stream_line_said vs'_def)
      have "prefix (cursorText l) (last (cursorText l # said ls))"
        using Cons.prems s by (cases "said ls = []") auto
      then obtain u where u: "last (cursorText l # said ls) = cursorText l @ u" by (auto simp: prefix_def)
      have "sorted_wrt prefix (emitted vs' # said ls)" using Cons.prems s l by simp
      from Cons.IH [OF this] show ?thesis using l s d u by (auto split: prod.splits)
    qed
  qed
qed (simp add: said_def)

text \<open>The result of a stream is the last line that is one.\<close>

definition terminal_of :: "json go_map list \<Rightarrow> string" where
  "terminal_of ls = (case rev (filter is_result ls) of [] \<Rightarrow> [] | l # _ \<Rightarrow> cursorText l)"

definition usage_of :: "json go_map list \<Rightarrow> cursor_usage" where
  "usage_of ls = (case rev (filter is_result ls) of [] \<Rightarrow> zero_usage | l # _ \<Rightarrow> usageFromCursor l)"

lemma fold_lines_result:
  "terminal (snd (fold_lines ls vs)) =
     (if filter is_result ls = [] then terminal vs else cursorText (last (filter is_result ls))) \<and>
   usage (snd (fold_lines ls vs)) =
     (if filter is_result ls = [] then usage vs else usageFromCursor (last (filter is_result ls)))"
proof (induction ls arbitrary: vs)
  case (Cons l ls)
  show ?case
  proof (cases "is_result l")
    case True
    then show ?thesis by (simp add: stream_line_said Cons.IH)
  next
    case False
    then have "terminal (snd (stream_line l vs)) = terminal vs" "usage (snd (stream_line l vs)) = usage vs"
      by (simp_all add: stream_line_said Let_def)
    then obtain r vs' where "stream_line l vs = (r, vs')" "terminal vs' = terminal vs" "usage vs' = usage vs"
      by (cases "stream_line l vs") simp
    with False Cons.IH [of vs'] show ?thesis by (cases r) (simp_all add: split_beta)
  qed
qed simp

lemma fold_lines_start:
  "terminal (snd (fold_lines ls stream_start)) = terminal_of ls"
  "usage (snd (fold_lines ls stream_start)) = usage_of ls"
  by (cases "filter is_result ls" rule: rev_cases;
      simp add: fold_lines_result terminal_of_def usage_of_def stream_start_def)+

subsection \<open>Properties\<close>

definition delta_event :: "string \<Rightarrow> string \<Rightarrow> int \<Rightarrow> string \<Rightarrow> string" where
  "delta_event format model created d = event (delta_payload format model created d)"

definition result_event :: "string \<Rightarrow> string \<Rightarrow> cursor_usage \<Rightarrow> string" where
  "result_event model t u = event (result_payload model t u)"

lemma stream_events:
  assumes "streamCursorJSON send format model created s = (ps, err)"
  shows "\<exists>ds. [] \<notin> set ds \<and>
    (case err of
       None \<Rightarrow> \<exists>t u. t \<noteq> [] \<and>
         ps = map (delta_event format model created) ds @ [result_event model t u] \<and>
         (\<forall>k < length ps. send k = None)
     | Some e \<Rightarrow> ps = map (delta_event format model created) ds \<or>
         (\<exists>t u. ps = map (delta_event format model created) ds @ [result_event model t u] \<and>
            send (length ds) \<noteq> None))"
proof -
  obtain qs r where l: "stream_loop (delta_event format model created) send 0 stream_start s = (qs, r)"
    by fastforce
  have a: "streamCursorJSON send format model created s =
      (case (qs, r) of
         (ps, Inl e) \<Rightarrow> (ps, Some e)
       | (ps, Inr vs) \<Rightarrow>
          if terminal vs = [] then (ps, Some stream_missing_error)
          else (ps @ [result_event model (terminal vs) (usage vs)], map_option PlainErr (send (length ps))))"
    using l by (simp add: streamCursorJSON_def delta_event_def [abs_def] result_event_def split: sum.split)
  from stream_loop_sends [OF l] obtain ds where
    ds: "qs = map (delta_event format model created) ds" "[] \<notin> set ds"
    "\<forall>vs'. r = Inr vs' \<longrightarrow> (\<forall>k < length ds. send (0 + k) = None)" by blast
  show ?thesis
  proof (cases r)
    case (Inl e)
    with a assms ds show ?thesis by (intro exI [of _ ds]) auto
  next
    case (Inr vs)
    show ?thesis
    proof (cases "terminal vs = []")
      case True
      with Inr a assms ds show ?thesis by (intro exI [of _ ds]) auto
    next
      case False
      with Inr a assms ds have "ps = map (delta_event format model created) ds @
          [result_event model (terminal vs) (usage vs)]" "err = map_option PlainErr (send (length ds))"
        by auto
      moreover have "\<forall>k < length ds. send k = None" using ds(3) Inr by simp
      ultimately show ?thesis using False ds(2)
        by (intro exI [of _ ds]) (auto simp: less_Suc_eq split: option.split)
    qed
  qed
qed

text \<open>
  C7: A stream hands the host non-empty deltas and then at most one result. It ends without an
  error exactly when every send succeeded and the result, with a non-empty text, was sent last;
  when it ends with an error, a result was sent only if that send is what failed.
\<close>

theorem stream_protocol:
  assumes "streamCursorJSON send format model created s = (ps, err)"
  shows "\<exists>ds. [] \<notin> set ds \<and>
    (case err of
       None \<Rightarrow> \<exists>t u. t \<noteq> [] \<and>
         ps = map (delta_event format model created) ds @ [result_event model t u] \<and>
         (\<forall>k < length ps. send k = None)
     | Some e \<Rightarrow> ps = map (delta_event format model created) ds \<or>
         (\<exists>t u. ps = map (delta_event format model created) ds @ [result_event model t u] \<and>
            send (length ds) \<noteq> None))"
  using assms by (rule stream_events)

definition dquote :: string where
  "dquote = [CHR 0x22]"

text \<open>Two lines of an agent that says ''ha'' twice, and a result.\<close>

definition ha_stream :: string where
  "ha_stream =
     (let line = ''{'' @ dquote @ ''type'' @ dquote @ '':'' @ dquote @ ''text'' @ dquote @ '','' @ dquote @ ''text'' @ dquote @ '':'' @ dquote @ ''ha'' @ dquote @ ''}''
      in line @ [CHR 0x0A] @ line @ [CHR 0x0A] @ ''{'' @ dquote @ ''result'' @ dquote @ '':'' @ dquote @ ''haha'' @ dquote @ ''}'')"

lemma ha_run:
  "streamCursorJSON (\<lambda>_. None) ''claude'' ''auto'' 0 ha_stream =
     ([delta_event ''claude'' ''auto'' 0 ''ha'', result_event ''auto'' ''haha'' zero_usage], None)"
  by code_simp

theorem stream_protocol_witness:
  "\<exists>ds t u. [] \<notin> set ds \<and> t \<noteq> [] \<and>
     [delta_event ''claude'' ''auto'' 0 ''ha'', result_event ''auto'' ''haha'' zero_usage] =
     map (delta_event ''claude'' ''auto'' 0) ds @ [result_event ''auto'' t u]"
  using stream_protocol [OF ha_run] by (simp only: option.case) blast

text \<open>
  C25: When the agent says cumulative texts (each extends the one before, as partial output
  does), the deltas together are exactly the last text, and they are followed by the result with
  the text and the usage of the last result line; the stream succeeds exactly when that text is
  not empty.
\<close>

theorem stream_cumulative:
  assumes "decodes_to s ls" and "sorted_wrt prefix (said ls)"
  shows "\<exists>ds. concat ds = last ([] # said ls) \<and>
    streamCursorJSON (\<lambda>_. None) format model created s =
      (if terminal_of ls = []
       then (map (delta_event format model created) ds, Some stream_missing_error)
       else (map (delta_event format model created) ds @
               [result_event model (terminal_of ls) (usage_of ls)], None))"
proof -
  let ?f = "fold_lines ls stream_start"
  have l: "stream_loop (delta_event format model created) (\<lambda>_. None) 0 stream_start s =
      (map (delta_event format model created) (fst ?f), Inr (snd ?f))"
    using stream_loop_fold [OF assms(1)] by simp
  have e: "emitted stream_start = []" by (simp add: stream_start_def)
  have "concat (fst ?f) = last ([] # said ls)"
    using fold_lines_cumulative [of stream_start ls] assms(2) by (simp add: e)
  with l show ?thesis
    by (intro exI [of _ "fst ?f"])
      (simp add: streamCursorJSON_def delta_event_def [abs_def] result_event_def fold_lines_start)
qed

definition ha_line :: "string \<Rightarrow> json go_map" where
  "ha_line t = [(''type'', JStr ''text''), (''text'', JStr t)]"

definition sum_stream :: string where
  "sum_stream = event (JObj (ha_line ''he'')) @ event (JObj (ha_line ''hello'')) @
     event (JObj [(''result'', JStr ''hello'')])"

theorem stream_cumulative_witness:
  "\<exists>ds. concat ds = ''hello'' \<and>
     fst (streamCursorJSON (\<lambda>_. None) ''claude'' ''auto'' 0 sum_stream) =
       map (delta_event ''claude'' ''auto'' 0) ds @ [result_event ''auto'' ''hello'' zero_usage]"
proof -
  let ?r = "[(''result'', JStr ''hello'')]"
  let ?ls = "[rev (ha_line ''he''), rev (ha_line ''hello''), ?r]"
  have m: "marshal (JObj (ha_line t)) = marshal (JObj (rev (ha_line t)))" for t
    by (simp add: ha_line_def sort_members_def)
  have "decode_first sum_stream =
      DecOk (JObj (rev (ha_line ''he''))) ([CHR 0x0A] @ event (JObj (ha_line ''hello'')) @ event (JObj ?r))"
    "decode_first ([CHR 0x0A] @ event (JObj (ha_line ''hello'')) @ event (JObj ?r)) =
      DecOk (JObj (rev (ha_line ''hello''))) ([CHR 0x0A] @ event (JObj ?r))"
    "decode_first ([CHR 0x0A] @ event (JObj ?r)) = DecOk (JObj ?r) [CHR 0x0A]"
    "decode_first [CHR 0x0A] = DecEOF" by code_simp+
  moreover have "line_of (JObj (rev (ha_line t))) = Some (rev (ha_line t))" "line_of (JObj ?r) = Some ?r" for t
    by (simp_all add: line_of_def as_map_def ha_line_def)
  ultimately have d: "decodes_to sum_stream ?ls"
    by (intro decodes_to.intros)
  have s: "said ?ls = [''he'', ''hello''] \<and> terminal_of ?ls = ''hello'' \<and> usage_of ?ls = zero_usage"
    by code_simp
  then have "sorted_wrt prefix (said ?ls)" by (simp add: prefix_def)
  from stream_cumulative [OF d this, of "''claude''" "''auto''" 0] s show ?thesis by auto
qed

text \<open>
  An agent that sends increments instead of cumulative texts loses a repetition: of two lines
  with the same text only the first is sent, although the result shows both.
\<close>

theorem stream_drops_repetition:
  "streamCursorJSON (\<lambda>_. None) ''claude'' ''auto'' 0 ha_stream =
     ([delta_event ''claude'' ''auto'' 0 ''ha'', result_event ''auto'' ''haha'' zero_usage], None)"
  by (rule ha_run)

end
