(* ===== verification/Executor.thy ===== *)
theory Executor
  imports Models AgentOutput
begin

section \<open>Executing requests (internal/provider/executor.go)\<close>

text \<open>
  The requests of clients: what is checked before the agent runs (\<open>prepare\<close>), the plain answer
  (\<open>execute\<close>), and streams, as the call and the goroutine it starts. The properties say which
  requests are refused, when and how, and what a success means.
\<close>

record execute_request =
  er_Format :: string
  er_SourceFormat :: string
  er_Model :: string
  er_Payload :: string
  er_OriginalRequest :: string
  er_StreamID :: string

record executor_response =
  rs_Payload :: string
  rs_Headers :: "string go_map"
  rs_Metadata :: "json go_map"

definition normalizeRequestFormat :: "string \<Rightarrow> string" where
  "normalizeRequestFormat v =
     (let f = to_lower (trim_space v)
      in if List.member [[], ''responses'', ''openai-response'', ''openai-responses''] f then ''openai-response''
         else if List.member [''chat'', ''openai-chat'', ''chat-completions''] f then ''openai-chat''
         else if List.member [''claude'', ''anthropic'', ''anthropic-messages''] f then ''claude''
         else [])"

definition firstPayload :: "execute_request \<Rightarrow> string" where
  "firstPayload req = (if er_OriginalRequest req \<noteq> [] then er_OriginalRequest req else er_Payload req)"

definition request_format :: "execute_request \<Rightarrow> string" where
  "request_format req = firstNonEmpty [er_SourceFormat req, er_Format req]"

definition jsonHeaders :: "string go_map" where
  "jsonHeaders = [(''Content-Type'', ''application/json'')]"

definition unsupported_format_error :: "string \<Rightarrow> go_error" where
  "unsupported_format_error f =
     statusError ''unsupported_format'' (''unsupported request format '' @ quoted f) 422"

definition request_too_large_error :: go_error where
  "request_too_large_error =
     statusError ''request_too_large'' ''request body exceeds max_request_bytes'' 413"

definition prompt_too_large_error :: go_error where
  "prompt_too_large_error =
     statusError ''prompt_too_large'' ''encoded Cursor prompt exceeds max_prompt_bytes'' 413"

text \<open>
  The steps that \<open>Execute\<close> and \<open>ExecuteStream\<close> share, up to the size limits: the format, the
  model, the prompt and the configuration with which the agent is run.
\<close>

definition prepare ::
    "execute_request \<Rightarrow> state \<Rightarrow>
     (go_error, string \<times> string \<times> string \<times> config) result \<times> state" where
  "prepare req st =
     (let format = normalizeRequestFormat (request_format req)
      in if format = [] then (Inl (unsupported_format_error (request_format req)), st)
         else let raw = firstPayload req
         in case validateRequestPayload raw of
           Some e \<Rightarrow> (Inl e, st)
         | None \<Rightarrow>
             (case resolveModel (er_Model req) st of
                (Inl e, st1) \<Rightarrow> (Inl e, st1)
              | (Inr model, st1) \<Rightarrow>
                  (case promptFromRequest raw of
                     Inl e \<Rightarrow> (Inl e, st1)
                   | Inr prompt \<Rightarrow>
                       (let cfg = sv_config st1
                        in if int (length raw) > MaxRequestBytes cfg
                           then (Inl request_too_large_error, st1)
                           else if int (length prompt) > MaxPromptBytes cfg
                           then (Inl prompt_too_large_error, st1)
                           else (Inr (format, model, prompt, cfg), st1)))))"

definition json_parse_error :: go_error where
  "json_parse_error =
     statusError ''cursor_json_parse'' ''Cursor agent JSON output was malformed'' 502"

definition empty_result_error :: go_error where
  "empty_result_error =
     statusError ''cursor_empty_result'' ''Cursor agent JSON output contained no result text'' 502"

text \<open>The first JSON value of the output, decoded into a map with \<^verbatim>\<open>UseNumber\<close>.\<close>

definition output_map :: "string \<Rightarrow> json go_map option" where
  "output_map out = (case decode_first out of DecOk v rest \<Rightarrow> as_map v | _ \<Rightarrow> None)"

definition response_metadata :: "string \<Rightarrow> json go_map" where
  "response_metadata model =
     [(''cursor_cli'', JBool True), (''cursor_model'', JStr model),
      (''harness'', JStr ''official-agent-cli-ask-sandbox-disabled'')]"

text \<open>The end of \<open>Execute\<close>, for the text and the usage in the output.\<close>

definition answer ::
    "string \<Rightarrow> execute_request \<Rightarrow> string \<Rightarrow> string \<Rightarrow> cursor_usage \<Rightarrow> state \<Rightarrow>
     (go_error, executor_response) result \<times> state" where
  "answer format req model text u st =
     (if text = [] then (Inl empty_result_error, st)
      else let (t, st1) = now st
           in (Inr \<lparr>rs_Payload = responsePayload format (er_Model req) text u (unix_seconds t),
                    rs_Headers = jsonHeaders, rs_Metadata = response_metadata model\<rparr>, st1))"

definition execute ::
    "execute_request \<Rightarrow> state \<Rightarrow> (go_error, executor_response) result \<times> state" where
  "execute req st =
     (case prepare req st of
        (Inl e, st1) \<Rightarrow> (Inl e, st1)
      | (Inr (format, model, prompt, cfg), st1) \<Rightarrow>
          (case run_agent cfg (cursorPromptArgs model ''json'' False prompt) None False st1 of
             ((res, Some e), st2) \<Rightarrow> (Inl e, st2)
           | ((res, None), st2) \<Rightarrow>
               (case output_map (ar_Stdout res) of
                  None \<Rightarrow> (Inl json_parse_error, st2)
                | Some parsed \<Rightarrow>
                    answer format req model (cursorText parsed) (usageFromCursor parsed) st2)))"

subsection \<open>Streams\<close>

text \<open>
  \<open>execute_stream\<close> is the call, which returns the headers and leaves a \<open>stream_job\<close> for the
  goroutine it starts; \<open>run_stream\<close> is that goroutine. \<open>streams\<close> says whether the host
  implements the output callbacks. What the host receives is a list of events; \<open>send n\<close> is its
  answer to the \<open>n\<close>-th payload.
\<close>

record stream_job =
  sj_config :: config
  sj_format :: string
  sj_model :: string
  sj_prompt :: string
  sj_request :: execute_request

datatype host_event = Emit string string | CloseOutput string string

definition stream_id_error :: go_error where
  "stream_id_error = statusError ''invalid_request'' ''stream_id is required'' 400"

definition stream_unavailable_error :: go_error where
  "stream_unavailable_error =
     statusError ''stream_unavailable'' ''host does not implement output streaming callbacks'' 500"

definition streamHeaders :: "string go_map" where
  "streamHeaders = [(''Content-Type'', ''application/x-ndjson''), (''Cache-Control'', ''no-cache'')]"

definition execute_stream ::
    "bool \<Rightarrow> execute_request \<Rightarrow> state \<Rightarrow>
     (go_error, string go_map \<times> stream_job) result \<times> state" where
  "execute_stream streams req st =
     (if trim_space (er_StreamID req) = [] then (Inl stream_id_error, st)
      else case prepare req st of
        (Inl e, st1) \<Rightarrow> (Inl e, st1)
      | (Inr (format, model, prompt, cfg), st1) \<Rightarrow>
          if \<not> streams then (Inl stream_unavailable_error, st1)
          else (Inr (streamHeaders,
                 \<lparr>sj_config = cfg, sj_format = format, sj_model = model, sj_prompt = prompt,
                  sj_request = req\<rparr>), st1))"

definition run_stream ::
    "(nat \<Rightarrow> string option) \<Rightarrow> stream_job \<Rightarrow> state \<Rightarrow> host_event list \<times> state" where
  "run_stream send job st =
     (let sid = er_StreamID (sj_request job)
      in case run_agent (sj_config job)
                (cursorPromptArgs (sj_model job) ''stream-json'' True (sj_prompt job)) None False st of
           ((res, Some e), st1) \<Rightarrow> ([CloseOutput sid (error_text e)], st1)
         | ((res, None), st1) \<Rightarrow>
             (let (t, st2) = now st1;
                  (ps, err) = streamCursorJSON send (sj_format job) (er_Model (sj_request job))
                                (unix_seconds t) (ar_Stdout res);
                  message = (case err of None \<Rightarrow> [] | Some e \<Rightarrow> error_text e)
              in (map (Emit sid) ps @ [CloseOutput sid message], st2)))"

text \<open>\<open>HTTP\<close> refuses every request.\<close>

definition http_error :: go_error where
  "http_error =
     statusError ''unsupported_http''
       ''Cursor provider does not proxy raw HTTP or private Cursor endpoints'' 403"

subsection \<open>Preparation\<close>

lemma prepare_Inr:
  assumes "prepare req st = (Inr (format, model, prompt, cfg), st1)"
  shows "format = normalizeRequestFormat (request_format req) \<and> format \<noteq> [] \<and>
    validateRequestPayload (firstPayload req) = None \<and>
    resolveModel (er_Model req) st = (Inr model, st1) \<and>
    promptFromRequest (firstPayload req) = Inr prompt \<and> cfg = sv_config st1 \<and>
    int (length (firstPayload req)) \<le> MaxRequestBytes cfg \<and> int (length prompt) \<le> MaxPromptBytes cfg"
  using assms
  by (auto simp: prepare_def Let_def split: if_splits option.splits prod.splits sum.splits)

lemma prepare_state:
  assumes "prepare req st = (r, st1)"
  obtains "st1 = st" | r' where "resolveModel (er_Model req) st = (r', st1)"
  using assms
  by (auto simp: prepare_def Let_def split: if_splits option.splits prod.splits sum.splits)

lemma prepare_keeps [keeps]:
  "cache_ok st \<Longrightarrow> prepare req st = (r, st1) \<Longrightarrow> cache_ok st1 \<and> sv_config st1 = sv_config st"
  by (erule prepare_state) (auto dest: resolve_keeps)

lemma prepare_clean [keeps]:
  "clean_trace {} 0 (trace st) \<Longrightarrow> prepare req st = (r, st1) \<Longrightarrow> clean_trace {} 0 (trace st1)"
  by (erule prepare_state) (auto dest: resolve_clean)

lemma run_agent_keeps [keeps]:
  "cache_ok st \<Longrightarrow> cache_ok (snd (run_agent cfg args stdin login st)) \<and>
     sv_config (snd (run_agent cfg args stdin login st)) = sv_config st"
  using cache_ok_same [OF run_agent_same] by (simp add: run_agent_eq)

lemma execute_state:
  assumes "execute req st = (r, st')"
  obtains r1 where "prepare req st = (r1, st')"
  | r1 st1 st2 cfg args n where "prepare req st = (r1, st1)"
      "st2 = snd (run_agent cfg args None False st1)" "st' = st2\<lparr>ticks := n\<rparr>"
proof -
  obtain r1 st1 where p: "prepare req st = (r1, st1)" by fastforce
  show thesis
  proof (cases r1)
    case (Inl e)
    with p assms that(1) show thesis by (simp add: execute_def)
  next
    case (Inr x)
    then obtain format model prompt cfg where r1: "r1 = Inr (format, model, prompt, cfg)"
      by (cases x) auto
    define ro where "ro = run_agent cfg (cursorPromptArgs model ''json'' False prompt) None False st1"
    have "\<exists>n. st' = (snd ro)\<lparr>ticks := n\<rparr>"
    proof -
      have id: "\<exists>n. s = s\<lparr>ticks := n\<rparr>" for s :: state by (rule exI [of _ "ticks s"]) simp
      show ?thesis
        using assms p r1 id [of "snd ro"]
        by (auto simp: execute_def answer_def ro_def [symmetric] now_def Let_def
            split: prod.splits option.splits if_splits)
    qed
    with p that(2) show thesis unfolding ro_def by blast
  qed
qed

lemma execute_keeps [keeps]:
  "cache_ok st \<Longrightarrow> execute req st = (r, st') \<Longrightarrow> cache_ok st' \<and> sv_config st' = sv_config st"
proof (erule execute_state)
  fix r1 st1 st2 cfg args n
  assume "cache_ok st" "prepare req st = (r1, st1)" "st2 = snd (run_agent cfg args None False st1)"
    and s: "st' = st2\<lparr>ticks := n\<rparr>"
  then have "cache_ok st2" "sv_config st2 = sv_config st"
    using prepare_keeps run_agent_keeps by metis+
  with s cache_ok_cong [of st' st2] show "cache_ok st' \<and> sv_config st' = sv_config st" by simp
qed (rule prepare_keeps)

lemma execute_clean [keeps]:
  "clean_trace {} 0 (trace st) \<Longrightarrow> execute req st = (r, st') \<Longrightarrow> clean_trace {} 0 (trace st')"
proof (erule execute_state)
  fix r1 st1 st2 cfg args n
  assume "clean_trace {} 0 (trace st)" "prepare req st = (r1, st1)"
    "st2 = snd (run_agent cfg args None False st1)" "st' = st2\<lparr>ticks := n\<rparr>"
  then have "clean_trace {} 0 (trace st2)" "trace st' = trace st2"
    using prepare_clean run_agent_clean by simp_all
  then show "clean_trace {} 0 (trace st')" by simp
qed (rule prepare_clean)

subsection \<open>Properties\<close>

text \<open>
  C39: A request in an unknown format or with a body that does not pass validation is answered
  with that error before anything happens: no process is started and the state does not change,
  for a plain request and for a stream.
\<close>

theorem invalid_request_rejected_early:
  assumes "normalizeRequestFormat (request_format req) = [] \<or>
    validateRequestPayload (firstPayload req) \<noteq> None"
  shows "\<exists>e. execute req st = (Inl e, st) \<and>
    (trim_space (er_StreamID req) \<noteq> [] \<longrightarrow> execute_stream streams req st = (Inl e, st)) \<and>
    (if normalizeRequestFormat (request_format req) = []
     then e = unsupported_format_error (request_format req)
     else validateRequestPayload (firstPayload req) = Some e)"
  using assms by (auto simp: execute_def execute_stream_def prepare_def Let_def split: option.splits)

definition sample_execute :: execute_request where
  "sample_execute =
     \<lparr>er_Format = ''chat'', er_SourceFormat = [], er_Model = ''auto'', er_Payload = sample_request,
      er_OriginalRequest = [], er_StreamID = ''s1''\<rparr>"

theorem invalid_request_rejected_early_witness:
  "execute (sample_execute\<lparr>er_Payload := []\<rparr>) models_state =
     (Inl (bad_request ''request body is required''), models_state)"
proof -
  have "normalizeRequestFormat (request_format (sample_execute\<lparr>er_Payload := []\<rparr>)) = ''openai-chat''"
    by code_simp
  moreover have "validateRequestPayload (firstPayload (sample_execute\<lparr>er_Payload := []\<rparr>)) =
      Some (bad_request ''request body is required'')"
    by (simp add: firstPayload_def sample_execute_def validateRequestPayload_def)
  ultimately show ?thesis
    using invalid_request_rejected_early [of "sample_execute\<lparr>er_Payload := []\<rparr>" models_state False]
    by simp
qed


text \<open>A service whose agent lists a model and then answers.\<close>

definition answer_os :: os_answers where
  "answer_os = sample_os\<lparr>os_stdout := [''{'' @ dquote @ ''result'' @ dquote @ '':'' @ dquote @ ''hello'' @ dquote @ ''}'']\<rparr>"

definition answering :: state where
  "answering =
     new_service ''/tmp'' (\<lambda>n. if n = 0 then models_os else answer_os) (\<lambda>n. seconds (62135596800 + int n))"

lemma answering_prepare:
  "\<exists>st1. prepare sample_execute answering = (Inr (''openai-chat'', ''auto'',
       preamble @ [CHR 0x0A, CHR 0x0A] @ ''user: hi'', default_config ''/tmp''), st1) \<and>
     answers st1 (calls st1) = answer_os"
proof -
  have f: "normalizeRequestFormat (request_format sample_execute) = ''openai-chat''" by code_simp
  have p: "firstPayload sample_execute = sample_request"
    by (simp add: firstPayload_def sample_execute_def)
  obtain st1 where r: "resolveModel ''auto'' answering = (Inr ''auto'', st1)"
    "calls st1 = 1" "answers st1 = answers answering" "sv_config st1 = default_config ''/tmp''"
  proof -
    have "fst (resolveModel ''auto'' answering) = Inr ''auto''"
      "calls (snd (resolveModel ''auto'' answering)) = 1" by code_simp+
    moreover have "cache_ok answering" by (simp add: answering_def new_service_cache)
    ultimately show thesis
      using resolve_same_answers [of "''auto''" answering] resolve_keeps [of answering "''auto''"]
      by (intro that [of "snd (resolveModel ''auto'' answering)"])
        (auto simp: prod_eq_iff answering_def new_service_def)
  qed
  have "er_Model sample_execute = ''auto''" by (simp add: sample_execute_def)
  moreover have "length sample_request \<le> 1000 \<and> length (preamble @ [CHR 0x0A, CHR 0x0A] @ ''user: hi'') \<le> 1000"
    by (simp add: sample_request_def preamble_def)
  ultimately show ?thesis
    using f p r sample_valid sample_prompt
    by (simp add: prepare_def default_config_def answering_def new_service_def)
qed

lemma answering_executes: "\<exists>resp st'. execute sample_execute answering = (Inr resp, st')"
proof -
  let ?args = "cursorPromptArgs ''auto'' ''json'' False (preamble @ [CHR 0x0A, CHR 0x0A] @ ''user: hi'')"
  let ?out = "''{'' @ dquote @ ''result'' @ dquote @ '':'' @ dquote @ ''hello'' @ dquote @ ''}''"
  have "snd (runAgent answer_os (default_config ''/tmp'') ?args None False) =
      (\<lparr>ar_Stdout = ?out, ar_Stderr = []\<rparr>, None)"
    unfolding runAgent_ok await_ok by code_simp
  moreover have "output_map ?out = Some [(''result'', JStr ''hello'')]" by code_simp
  moreover have "cursorText [(''result'', JStr ''hello'')] = ''hello''" by code_simp
  ultimately show ?thesis
    using answering_prepare
    by (auto simp: execute_def run_agent_eq answer_def now_def)
qed


text \<open>
  C26: The background part of a stream closes the request's own output exactly once, after
  everything else it sends; if it sent anything and closes without a message, the last thing it
  sent is a result with a text and the host accepted everything. (The host's errors have a
  text.)
\<close>

theorem run_stream_closes:
  assumes "run_stream send job st = (evs, st')" and "\<forall>n. send n \<noteq> Some []"
  shows "\<exists>ps message. evs = map (Emit (er_StreamID (sj_request job))) ps @
      [CloseOutput (er_StreamID (sj_request job)) message] \<and>
    (ps \<noteq> [] \<and> message = [] \<longrightarrow> (\<exists>qs t u. t \<noteq> [] \<and>
       ps = qs @ [result_event (er_Model (sj_request job)) t u] \<and> (\<forall>k < length ps. send k = None)))"
proof -
  define ro where "ro = run_agent (sj_config job)
    (cursorPromptArgs (sj_model job) ''stream-json'' True (sj_prompt job)) None False st"
  obtain res err st1 where ro': "ro = ((res, err), st1)" by (metis prod.exhaust)
  show ?thesis
  proof (cases err)
    case (Some e)
    with assms(1) ro' show ?thesis
      by (intro exI [of _ "[]"] exI [of _ "error_text e"])
        (simp add: run_stream_def ro_def [symmetric])
  next
    case None
    let ?m = "er_Model (sj_request job)"
    obtain ps e where s: "streamCursorJSON send (sj_format job) ?m
        (unix_seconds (clock st1 (ticks st1))) (ar_Stdout res) = (ps, e)" by fastforce
    have ev: "evs = map (Emit (er_StreamID (sj_request job))) ps @
        [CloseOutput (er_StreamID (sj_request job)) (case e of None \<Rightarrow> [] | Some x \<Rightarrow> error_text x)]"
      using assms(1) ro' None s
      by (auto simp: run_stream_def ro_def [symmetric] now_def Let_def)
    show ?thesis
    proof (cases e)
      case (Some x)
      with s have "x \<in> {stream_parse_error, stream_missing_error} \<or> (\<exists>k t. send k = Some t \<and> x = PlainErr t)"
        by (blast dest: stream_error)
      then have "error_text x \<noteq> []"
        using assms(2) by (auto simp: stream_parse_error_def stream_missing_error_def)
      with ev Some show ?thesis by (intro exI [of _ ps]) auto
    next
      case None
      with stream_events [OF s] obtain ds t u where "t \<noteq> []"
        "ps = map (delta_event (sj_format job) ?m (unix_seconds (clock st1 (ticks st1)))) ds @ [result_event ?m t u]"
        "\<forall>k < length ps. send k = None" by auto
      with ev None show ?thesis by (intro exI [of _ ps] exI [of _ "[]"]) auto
    qed
  qed
qed

definition sample_job :: stream_job where
  "sample_job =
     \<lparr>sj_config = default_config ''/tmp'', sj_format = ''claude'', sj_model = ''auto'', sj_prompt = ''hi'',
      sj_request = sample_execute\<rparr>"

theorem run_stream_closes_witness:
  "\<exists>ps message. fst (run_stream (\<lambda>_. None) sample_job answering) =
     map (Emit ''s1'') ps @ [CloseOutput ''s1'' message]"
proof -
  obtain evs st' where "run_stream (\<lambda>_. None) sample_job answering = (evs, st')" by fastforce
  from run_stream_closes [OF this] this show ?thesis
    by (auto simp: sample_job_def sample_execute_def)
qed

text \<open>
  A request over the configured size never reaches the agent as a prompt, but it is refused
  only after its model has been resolved, which may start the agent to list the models.
\<close>

theorem oversized_request_refused:
  assumes "cache_ok st" and "normalizeRequestFormat (request_format req) \<noteq> []"
    and "validateRequestPayload (firstPayload req) = None"
    and "int (length (firstPayload req)) > MaxRequestBytes (sv_config st)"
  shows "\<exists>e. execute req st = (Inl e, snd (resolveModel (er_Model req) st)) \<and>
    (is_ok (fst (resolveModel (er_Model req) st)) \<and> is_ok (promptFromRequest (firstPayload req)) \<longrightarrow>
       e = request_too_large_error)"
proof -
  obtain r st1 where r: "resolveModel (er_Model req) st = (r, st1)" by fastforce
  with resolve_keeps [OF assms(1)] have "sv_config st1 = sv_config st" by blast
  with r assms show ?thesis
    by (cases r; cases "promptFromRequest (firstPayload req)")
      (simp_all add: execute_def prepare_def)
qed

theorem oversized_request_refused_witness:
  "\<exists>req st. int (length (firstPayload req)) > MaxRequestBytes (sv_config st) \<and>
     fst (execute req st) = Inl request_too_large_error"
proof -
  let ?st = "answering\<lparr>sv_config := (default_config ''/tmp'')\<lparr>MaxRequestBytes := 1\<rparr>\<rparr>"
  obtain st1 where r: "resolveModel ''auto'' ?st = (Inr ''auto'', st1)" "calls st1 = 1"
      "sv_config st1 = sv_config ?st"
  proof -
    have "fst (resolveModel ''auto'' ?st) = Inr ''auto''"
      "calls (snd (resolveModel ''auto'' ?st)) = 1" by code_simp+
    moreover have "cache_ok ?st" by (simp add: answering_def new_service_def cache_ok_def)
    ultimately show thesis
      using resolve_keeps [of ?st "''auto''"]
      by (intro that [of "snd (resolveModel ''auto'' ?st)"]) (auto simp: prod_eq_iff)
  qed
  have f: "normalizeRequestFormat (request_format sample_execute) = ''openai-chat''" by code_simp
  have p: "firstPayload sample_execute = sample_request" "er_Model sample_execute = ''auto''"
    by (simp_all add: firstPayload_def sample_execute_def)
  have len: "1 < length sample_request" by (simp add: sample_request_def)
  have c: "cache_ok ?st" by (simp add: answering_def new_service_def cache_ok_def)
  have "fst (execute sample_execute ?st) = Inl request_too_large_error"
    using oversized_request_refused [OF c, of sample_execute] f p r len sample_valid sample_prompt
    by auto
  with p len show ?thesis
    by (intro exI [of _ sample_execute] exI [of _ ?st]) simp
qed

end
