(* ===== verification/Management.thy ===== *)
theory Management
  imports Installer Executor
begin

section \<open>The management routes (internal/provider/installer.go)\<close>

text \<open>
  The routes that the plugin registers with the host and the handler of their requests. The
  handler works on the disk, with the surroundings of an installation (\<open>install_env\<close>) and the
  configuration of the service; the mutex \<^verbatim>\<open>installMu\<close> makes installations follow one another,
  so each is one call here.
\<close>

definition managementBasePath :: string where
  "managementBasePath = ''/v0/management''"

definition managementInstallPath :: string where
  "managementInstallPath = ''/plugins/cursor/setup/install''"

definition managementStatusPath :: string where
  "managementStatusPath = ''/plugins/cursor/setup/status''"

subsection \<open>Registration\<close>

record management_route =
  mr_Method :: string
  mr_Path :: string
  mr_Menu :: string
  mr_Description :: string

record resource_route =
  rr_Path :: string
  rr_Menu :: string
  rr_Description :: string

definition registerManagement :: "management_route list \<times> resource_route list" where
  "registerManagement =
     ([\<lparr>mr_Method = ''GET'', mr_Path = managementStatusPath, mr_Menu = [],
        mr_Description = ''Reports managed official Cursor Agent CLI installation status.''\<rparr>,
       \<lparr>mr_Method = ''POST'', mr_Path = managementInstallPath, mr_Menu = ''Install official Cursor Agent CLI'',
        mr_Description = ''Explicitly installs the official Cursor Agent CLI into the plugin runtime HOME.''\<rparr>],
      [\<lparr>rr_Path = ''/setup'', rr_Menu = ''Cursor Agent setup'',
        rr_Description = ''Explains and confirms official Cursor Agent CLI installation.''\<rparr>])"

subsection \<open>Requests and responses\<close>

record management_request =
  mq_Method :: string
  mq_Path :: string
  mq_Body :: string

record management_response =
  mp_StatusCode :: int
  mp_Headers :: "string go_map"
  mp_Body :: string

definition jsonResponse :: "int \<Rightarrow> string \<Rightarrow> management_response" where
  "jsonResponse status body =
     \<lparr>mp_StatusCode = status, mp_Headers = [(''Content-Type'', ''application/json'')], mp_Body = body\<rparr>"

definition htmlResponse :: "string \<Rightarrow> management_response" where
  "htmlResponse html =
     \<lparr>mp_StatusCode = 200, mp_Headers = [(''Content-Type'', ''text/html; charset=utf-8'')], mp_Body = html\<rparr>"

definition setupHTML :: string where
  "setupHTML =
   ''<!doctype html><meta charset=\"utf-8\"><title>Cursor Agent CLI setup</title><main><h1>'' @
   ''Install official Cursor Agent CLI</h1><p>This plugin can download the official Cursor Agent CLI package from cursor.com and install it inside the CLIProxy runtime.</p>'' @
   ''<ul><li>Download source: https://cursor.com/install, parsed to https://downloads.cursor.com/lab/&lt;'' @
   ''version&gt;/...</li><li>Install location: runtime HOME/.local/share/cursor-agent/versions/&lt;'' @
   ''version&gt;, activated through HOME/.local/share/cursor-agent/current, with HOME/.local/bin/agent and HOME/.local/bin/cursor-agent resolving through that single current pointer.</li>'' @
   ''<li>The CLI will execute inside the CLIProxy runtime with that runtime's filesystem and network permissions.</li>'' @
   ''<li>No install happens until you press the explicit confirmation button.</li></ul><label>'' @
   ''Management key <input id=\"k\" type=\"password\" autocomplete=\"off\"></label><button id=\"install\">'' @
   ''Install official Cursor Agent CLI</button><button id=\"login\">Continue login</button>'' @
   ''<pre id=\"out\"></pre><script>const out=document.getElementById('out');document.getElementById('install').onclick=async()=>'' @
   ''{out.textContent='Installing...';const r=await fetch('/v0/management/plugins/cursor/setup/install',{method:'POST',headers:{'content-type':'application/json','authorization':'Bearer '+document.getElementById('k').value},body:JSON.stringify({confirm:true})});'' @
   ''out.textContent=await r.text()};document.getElementById('login').onclick=()=>history.back();'' @
   ''</script></main>''"

definition error_body :: "string \<Rightarrow> string" where
  "error_body msg = marshal (JObj [(''error'', JStr msg)])"

definition not_installed_body :: "string \<Rightarrow> string" where
  "not_installed_body msg = marshal (JObj [(''installed'', JBool False), (''error'', JStr msg)])"

text \<open>A member with \<^verbatim>\<open>omitempty\<close>.\<close>

definition status_body :: "installStatus \<Rightarrow> string" where
  "status_body st =
     marshal_fields
       ([(''installed'', JBool (in_Installed st))] @
        optional ''version'' (in_Version st) @
        optional ''executable_path'' (in_ExecutablePath st) @
        optional ''managed_root'' (in_ManagedRoot st) @
        optional ''error'' (in_Error st))"

definition result_body :: "installResult \<Rightarrow> string" where
  "result_body r =
     marshal_fields
       [(''installed'', JBool (ir_Installed r)), (''version'', JStr (ir_Version r)),
        (''executable_path'', JStr (ir_ExecutablePath r)), (''package_sha256'', JStr (ir_PackageSHA256 r)),
        (''package_bytes'', json_int (ir_PackageBytes r))]"

definition normalizeCursorManagementPath :: "string \<Rightarrow> string option" where
  "normalizeCursorManagementPath raw =
     (let path = trim_space raw
      in if path = [] \<or> list_ex (\<lambda>c. List.member [CHR 0x20, CHR 0x09, CHR 0x0D, CHR 0x0A] c) path \<or>
           contains path ''..'' \<or> contains path ''*'' \<or> contains path '':''
         then None
         else let p1 = (if prefix ''/'' path then path else ''/'' @ path);
                  p2 = (if prefix (managementBasePath @ ''/'') p1 then trim_prefix p1 managementBasePath else p1)
              in if p2 = setupResourcePath \<or> p2 = ''/setup'' then Some p2
                 else if p2 = managementStatusPath \<or> p2 = managementInstallPath then Some p2
                 else None)"

text \<open>
  The \<open>confirm\<close> member of the body; the error of a body that is no JSON object of this kind is
  ignored, and the last boolean wins.
\<close>

definition confirmed :: "string \<Rightarrow> bool" where
  "confirmed body =
     (case struct_members body of
        None \<Rightarrow> False
      | Some ms \<Rightarrow>
          foldl (\<lambda>b (k, v). if field_is ''confirm'' k then (case v of JBool c \<Rightarrow> c | _ \<Rightarrow> b) else b) False ms)"

definition unknown_route :: management_response where
  "unknown_route = jsonResponse 404 (error_body ''unknown Cursor management route'')"

definition handleManagement ::
    "install_env \<Rightarrow> config \<Rightarrow> management_request \<Rightarrow> disk \<Rightarrow> management_response \<times> disk" where
  "handleManagement env cfg req d =
     (case normalizeCursorManagementPath (mq_Path req) of
        None \<Rightarrow> (unknown_route, d)
      | Some path \<Rightarrow>
          if mq_Method req = ''GET'' \<and> (path = ''/setup'' \<or> path = setupResourcePath)
          then (htmlResponse setupHTML, d)
          else if mq_Method req = ''GET'' \<and> path = managementStatusPath
          then (case install_status (ie_home env) cfg d of
                  (st, d1) \<Rightarrow> (jsonResponse 200 (status_body st), d1))
          else if mq_Method req = ''POST'' \<and> path = managementInstallPath
          then (if \<not> confirmed (mq_Body req)
                then (jsonResponse 400 (not_installed_body ''explicit confirmation is required''), d)
                else case InstallOfficialCursorAgent env cfg d of
                  (Inl e, d1) \<Rightarrow> (jsonResponse 502 (not_installed_body (error_text e)), d1)
                | (Inr res, d1) \<Rightarrow> (jsonResponse 200 (result_body res), d1))
          else (unknown_route, d))"

subsection \<open>Which paths are served\<close>

definition management_paths :: "string list" where
  "management_paths = [setupResourcePath, ''/setup'', managementStatusPath, managementInstallPath]"

text \<open>The four spellings of a path: with or without the base path and with or without its first slash.\<close>

definition spellings :: "string \<Rightarrow> string list" where
  "spellings p = [p, tl p, managementBasePath @ p, tl managementBasePath @ p]"

lemma spelled_path:
  "list_all (\<lambda>p. list_all (\<lambda>s. trim_space s = s \<and> normalizeCursorManagementPath s = Some p) (spellings p)) management_paths"
  by code_simp

lemma normalize_trim: "normalizeCursorManagementPath (trim_space raw) = normalizeCursorManagementPath raw"
  by (simp add: normalizeCursorManagementPath_def)

lemma normalize_iff:
  "normalizeCursorManagementPath raw = Some p \<longleftrightarrow> p \<in> set management_paths \<and> trim_space raw \<in> set (spellings p)"
proof
  assume n: "normalizeCursorManagementPath raw = Some p"
  let ?t = "trim_space raw"
  define p1 where "p1 = (if prefix ''/'' ?t then ?t else ''/'' @ ?t)"
  define p2 where "p2 = (if prefix (managementBasePath @ ''/'') p1 then trim_prefix p1 managementBasePath else p1)"
  have p: "p = p2" "p \<in> set management_paths"
    using n by (auto simp: normalizeCursorManagementPath_def Let_def p1_def p2_def management_paths_def split: if_splits)
  have "p1 = p \<or> p1 = managementBasePath @ p"
    by (auto simp: p(1) p2_def trim_prefix_def prefix_def)
  moreover have "?t = p1 \<or> ?t = tl p1" by (auto simp: p1_def)
  moreover have "managementBasePath \<noteq> []" by (simp add: managementBasePath_def)
  ultimately have "?t \<in> set (spellings p)" by (auto simp: spellings_def)
  with p(2) show "p \<in> set management_paths \<and> ?t \<in> set (spellings p)" by simp
next
  assume "p \<in> set management_paths \<and> trim_space raw \<in> set (spellings p)"
  then have "normalizeCursorManagementPath (trim_space raw) = Some p"
    using spelled_path by (auto simp: list_all_iff)
  then show "normalizeCursorManagementPath raw = Some p" by (simp add: normalize_trim)
qed

text \<open>
  Exactly the four spellings of the four routes are accepted, after trimming, and each is
  turned into the route itself; every other path is unknown.
\<close>

theorem management_paths_exact:
  "normalizeCursorManagementPath raw = Some p \<longleftrightarrow> p \<in> set management_paths \<and> trim_space raw \<in> set (spellings p)"
  by (rule normalize_iff)

subsection \<open>Who may install\<close>

definition install_request :: "management_request \<Rightarrow> bool" where
  "install_request req =
     (mq_Method req = ''POST'' \<and> trim_space (mq_Path req) \<in> set (spellings managementInstallPath) \<and>
      confirmed (mq_Body req))"



text \<open>
  Every route and resource that is registered with the host is served: no request to it is
  answered as an unknown route.
\<close>

theorem registered_routes_served:
  "list_all (\<lambda>r. fst (handleManagement env cfg \<lparr>mq_Method = mr_Method r, mq_Path = mr_Path r, mq_Body = body\<rparr> d) \<noteq>
       unknown_route) (fst registerManagement) \<and>
   list_all (\<lambda>r. fst (handleManagement env cfg \<lparr>mq_Method = ''GET'', mq_Path = rr_Path r, mq_Body = body\<rparr> d) \<noteq>
       unknown_route) (snd registerManagement)"
proof -
  have n: "normalizeCursorManagementPath p = Some p" if "p \<in> set management_paths" for p
    using spelled_path that by (auto simp: list_all_iff spellings_def)
  have ne: "managementStatusPath \<noteq> ''/setup''" "managementStatusPath \<noteq> setupResourcePath"
    "managementInstallPath \<noteq> managementStatusPath"
    by (simp_all add: managementStatusPath_def managementInstallPath_def setupResourcePath_def)
  have "normalizeCursorManagementPath managementStatusPath = Some managementStatusPath"
    "normalizeCursorManagementPath managementInstallPath = Some managementInstallPath"
    "normalizeCursorManagementPath ''/setup'' = Some ''/setup''"
    by (rule n, simp add: management_paths_def)+
  then show ?thesis
    using ne by (simp add: registerManagement_def handleManagement_def unknown_route_def jsonResponse_def htmlResponse_def
        split: prod.split sum.split)
qed

end
