(* ===== verification/TokenCount.thy ===== *)
theory TokenCount
  imports Executor GoRoundtrip
begin

section \<open>Counting tokens (internal/provider/token\_count.go)\<close>

text \<open>
  The request body is read with gjson, a third-party package, and counted with a third-party
  tokenizer. Both are arguments: a \<open>gjson\<close> has the operations the code calls on a
  \<^verbatim>\<open>gjson.Result\<close> (of type \<open>'g\<close>), \<open>tokenizer_codec\<close> the result of \<^verbatim>\<open>tokenizer.Get\<close>. Segments are
  appended to a list in the code; here every collector returns what it appends.

  \<^verbatim>\<open>collectContentTokenSegments\<close> calls itself on parts of its argument. Since \<open>'g\<close> is
  abstract, it takes fuel here; \<open>content_terminates\<close> shows that the nesting depth of the document
  is enough, so the code returns on every finite document.
\<close>

record 'g gjson =
  g_valid :: "string \<Rightarrow> bool"
  g_parse :: "string \<Rightarrow> 'g"
  g_get :: "'g \<Rightarrow> string \<Rightarrow> 'g"
  g_string :: "'g \<Rightarrow> string"
  g_raw :: "'g \<Rightarrow> string"
  g_exists :: "'g \<Rightarrow> bool"
  g_is_string :: "'g \<Rightarrow> bool"
  g_is_array :: "'g \<Rightarrow> bool"
  g_is_object :: "'g \<Rightarrow> bool"
  g_items :: "'g \<Rightarrow> 'g list"

record tokenizer_codec =
  tk_error :: "string option"
  tk_count :: "string \<Rightarrow> (string, int) result"

subsection \<open>json.Compact\<close>

text \<open>White space outside of string literals is dropped; \<open>strip_string\<close> is inside of one.\<close>

fun strip_json :: "string \<Rightarrow> string" and strip_string :: "string \<Rightarrow> string" where
  "strip_json [] = []"
| "strip_json (c # s) =
     (if json_ws c then strip_json s else if c = CHR 0x22 then c # strip_string s else c # strip_json s)"
| "strip_string [] = []"
| "strip_string (c # s) =
     (if c = CHR 0x5C then (case s of [] \<Rightarrow> [c] | d # t \<Rightarrow> c # d # strip_string t)
      else if c = CHR 0x22 then c # strip_json s else c # strip_string s)"

definition json_compact :: "string \<Rightarrow> string option" where
  "json_compact s = (case decode_all s of None \<Rightarrow> None | Some _ \<Rightarrow> Some (strip_json s))"

subsection \<open>Segments\<close>

definition token_string :: "string \<Rightarrow> string list" where
  "token_string v = (let t = trim_space v in if t \<noteq> [] then [t] else [])"

definition token_json :: "'g gjson \<Rightarrow> 'g \<Rightarrow> string list" where
  "token_json G v =
     (if \<not> g_exists G v then []
      else if g_is_string G v then token_string (g_string G v)
      else let raw = trim_space (g_raw G v)
           in if raw = [] then []
              else case json_compact raw of
                Some c \<Rightarrow> token_string c
              | None \<Rightarrow> token_string raw)"

text \<open>The member \<open>k\<close> as a string, and such members one after the other.\<close>

definition member_string :: "'g gjson \<Rightarrow> 'g \<Rightarrow> string \<Rightarrow> string" where
  "member_string G v k = g_string G (g_get G v k)"

definition member_tokens :: "'g gjson \<Rightarrow> 'g \<Rightarrow> string list \<Rightarrow> string list" where
  "member_tokens G v ks = concat (map (\<lambda>k. token_string (member_string G v k)) ks)"

definition systemSegments :: "'g gjson \<Rightarrow> 'g \<Rightarrow> string list" where
  "systemSegments G sys =
     (if g_is_string G sys then token_string (g_string G sys)
      else if \<not> g_is_array G sys then []
      else concat (map (\<lambda>part.
        if g_is_string G part then token_string (g_string G part)
        else if member_string G part ''type'' = ''text'' then member_tokens G part [''text''] else [])
        (g_items G sys)))"

definition tool_use_types :: "string list" where
  "tool_use_types = [''tool_use'', ''server_tool_use'', ''mcp_tool_use'']"

definition tool_result_types :: "string list" where
  "tool_result_types =
     [''tool_result'', ''mcp_tool_result'', ''web_search_tool_result'', ''web_fetch_tool_result'',
      ''code_execution_tool_result'', ''bash_code_execution_tool_result'',
      ''text_editor_code_execution_tool_result'']"

definition execution_result_types :: "string list" where
  "execution_result_types =
     [''code_execution_result'', ''bash_code_execution_result'', ''text_editor_code_execution_result'']"

definition media_types :: "string list" where
  "media_types = [''image'', ''input_audio'', ''audio'', ''video'', ''redacted_thinking'']"

text \<open>
  An object of one of the block types: the segments of its own members, and the members whose
  content is collected after them.
\<close>

definition block_segments :: "'g gjson \<Rightarrow> 'g \<Rightarrow> string list \<times> string list" where
  "block_segments G v =
     (let t = member_string G v ''type''
      in if t = ''text'' then (member_tokens G v [''text''], [])
         else if t = ''thinking'' then (member_tokens G v [''thinking''], [])
         else if t = ''document'' then
           (if member_string G (g_get G v ''source'') ''type'' = ''text''
            then (member_tokens G v [''title'', ''context''] @
                    member_tokens G (g_get G v ''source'') [''data'', ''content''], [])
            else ([], []))
         else if List.member tool_use_types t then
           (member_tokens G v [''id'', ''name''] @ token_json G (g_get G v ''input''), [])
         else if List.member tool_result_types t then
           (member_tokens G v [''tool_use_id'', ''tool_call_id''], [''content''])
         else if t = ''web_search_result'' \<or> t = ''search_result'' then
           (member_tokens G v [''source'', ''title'', ''url'', ''page_age''], [''content''])
         else if t = ''web_fetch_result'' then (member_tokens G v [''url'', ''retrieved_at''], [''content''])
         else if List.member execution_result_types t then
           (member_tokens G v [''stdout'', ''stderr'', ''return_code''], [''content'', ''output''])
         else if t = ''tool_reference'' then (member_tokens G v [''tool_name''], [])
         else if List.member media_types t then ([], [])
         else if t = [] then (token_json G v, [])
         else (member_tokens G v [''text''], []))"

text \<open>\<open>None\<close> is out of fuel.\<close>

definition concat_all :: "'a list option list \<Rightarrow> 'a list option" where
  "concat_all rs = (if list_all (\<lambda>r. r \<noteq> None) rs then Some (concat (map the rs)) else None)"

fun contentSegments :: "'g gjson \<Rightarrow> nat \<Rightarrow> 'g \<Rightarrow> string list option" where
  "contentSegments G 0 v = None"
| "contentSegments G (Suc n) v =
     (if \<not> g_exists G v then Some []
      else if g_is_string G v then Some (token_string (g_string G v))
      else if g_is_array G v then concat_all (map (contentSegments G n) (g_items G v))
      else if \<not> g_is_object G v then Some []
      else (let (own, ks) = block_segments G v
            in concat_all (Some own # map (\<lambda>k. contentSegments G n (g_get G v k)) ks)))"

definition messageSegments :: "'g gjson \<Rightarrow> nat \<Rightarrow> 'g \<Rightarrow> string list option" where
  "messageSegments G n ms =
     (if \<not> g_is_array G ms then Some []
      else concat_all (map (\<lambda>m. concat_all [Some (member_tokens G m [''role'']),
             contentSegments G n (g_get G m ''content'')]) (g_items G ms)))"

definition toolSegments :: "'g gjson \<Rightarrow> 'g \<Rightarrow> string list" where
  "toolSegments G tools =
     (if \<not> g_is_array G tools then []
      else concat (map (\<lambda>tool. member_tokens G tool [''type'', ''name'', ''description''] @
             token_json G (g_get G tool ''input_schema'')) (g_items G tools)))"

definition toolChoiceSegments :: "'g gjson \<Rightarrow> 'g \<Rightarrow> string list" where
  "toolChoiceSegments G choice =
     (if \<not> g_exists G choice then []
      else if g_is_string G choice then token_string (g_string G choice)
      else member_tokens G choice [''type'', ''name''])"

definition requestSegments :: "'g gjson \<Rightarrow> nat \<Rightarrow> 'g \<Rightarrow> string list option" where
  "requestSegments G n root =
     concat_all
       [Some (systemSegments G (g_get G root ''system'')),
        messageSegments G n (g_get G root ''messages''),
        Some (toolSegments G (g_get G root ''tools'')),
        Some (toolChoiceSegments G (g_get G root ''tool_choice''))]"

subsection \<open>The count\<close>

definition countClaudeInputTokens ::
    "'g gjson \<Rightarrow> tokenizer_codec \<Rightarrow> nat \<Rightarrow> string \<Rightarrow> (go_error, int) result option" where
  "countClaudeInputTokens G tk n payload =
     (case tk_error tk of
        Some e \<Rightarrow> Some (Inl (WrapErr ''initialize O200kBase tokenizer'' (PlainErr e)))
      | None \<Rightarrow>
          if trim_space payload = [] then Some (Inr 0)
          else if \<not> g_valid G payload then Some (Inl (PlainErr ''invalid Claude request JSON''))
          else case requestSegments G n (g_parse G payload) of
            None \<Rightarrow> None
          | Some segs \<Rightarrow>
              if segs = [] then Some (Inr 0)
              else Some (map_sum (\<lambda>e. WrapErr ''count Claude input tokens'' (PlainErr e)) (\<lambda>c. c)
                     (tk_count tk (join_on [CHR 0x0A] segs))))"

definition count_payload :: "execute_request \<Rightarrow> string" where
  "count_payload req =
     (if trim_space (er_OriginalRequest req) = [] then er_Payload req else er_OriginalRequest req)"

definition count_format_error :: "string \<Rightarrow> go_error" where
  "count_format_error f =
     statusError ''unsupported_format'' (''token counting is unsupported for request format '' @ quoted f) 422"

definition countTokens ::
    "'g gjson \<Rightarrow> tokenizer_codec \<Rightarrow> nat \<Rightarrow> execute_request \<Rightarrow> (go_error, executor_response) result option" where
  "countTokens G tk n req =
     (if normalizeRequestFormat (request_format req) \<noteq> ''claude''
      then Some (Inl (count_format_error (request_format req)))
      else map_option
        (map_sum (\<lambda>e. statusError ''invalid_request'' (error_text e) 400)
          (\<lambda>count. \<lparr>rs_Payload = marshal (JObj [(''input_tokens'', json_int count)]),
             rs_Headers = jsonHeaders, rs_Metadata = []\<rparr>))
        (countClaudeInputTokens G tk n (count_payload req)))"

subsection \<open>The fuel is enough\<close>

lemma concat_all_None: "concat_all rs = None \<longleftrightarrow> None \<in> set rs"
  by (auto simp: concat_all_def list_all_iff)

lemma concat_all_Some: "concat_all rs = Some xs \<longleftrightarrow> (\<exists>yss. rs = map Some yss \<and> xs = concat yss)"
proof
  assume "concat_all rs = Some xs"
  then have "list_all (\<lambda>r. r \<noteq> None) rs" "xs = concat (map the rs)"
    by (auto simp: concat_all_def split: if_splits)
  then have "rs = map Some (map the rs)" by (auto simp: list_all_iff intro!: map_idI [symmetric])
  with \<open>xs = concat (map the rs)\<close> show "\<exists>yss. rs = map Some yss \<and> xs = concat yss" by blast
qed (auto simp: concat_all_def list_all_iff comp_def)

lemma concat_all_simps [simp]:
  "concat_all [] = Some []"
  "concat_all (Some x # rs) = map_option ((@) x) (concat_all rs)"
  "concat_all (map (\<lambda>x. Some (f x)) ys) = Some (concat (map f ys))"
  by (auto simp: concat_all_def list_all_iff comp_def)

lemma concat_all_map: "(\<And>x. x \<in> set xs \<Longrightarrow> f x \<noteq> None) \<Longrightarrow> concat_all (map f xs) \<noteq> None"
  by (simp add: concat_all_def list_all_iff)

lemma concat_all_more:
  assumes "concat_all (map f xs) = Some t" "\<And>x s. x \<in> set xs \<Longrightarrow> f x = Some s \<Longrightarrow> g x = Some s"
  shows "concat_all (map g xs) = Some t"
proof -
  have "\<forall>x \<in> set xs. f x \<noteq> None"
    using assms(1) by (auto simp: concat_all_def list_all_iff split: if_splits)
  then have "map g xs = map f xs" by (intro map_cong refl) (metis assms(2) not_None_eq)
  with assms(1) show ?thesis by (simp only:)
qed

lemma contentSegments_more: "contentSegments G n v = Some s \<Longrightarrow> n \<le> m \<Longrightarrow> contentSegments G m v = Some s"
proof (induction G n v arbitrary: m s rule: contentSegments.induct)
  case (2 G n v)
  then obtain m' where m: "m = Suc m'" "n \<le> m'" by (cases m) auto
  show ?case
  proof (cases "\<not> g_exists G v \<or> g_is_string G v \<or> (\<not> g_is_array G v \<and> \<not> g_is_object G v)")
    case True
    with 2(3) m show ?thesis by auto
  next
    case False
    show ?thesis
    proof (cases "g_is_array G v")
      case True
      then have "concat_all (map (contentSegments G n) (g_items G v)) = Some s" using False 2(3) by simp
      then have "concat_all (map (contentSegments G m') (g_items G v)) = Some s"
      proof (rule concat_all_more)
        fix x t assume x: "x \<in> set (g_items G v)" "contentSegments G n x = Some t"
        show "contentSegments G m' x = Some t" by (rule 2(1) [OF _ _ True x m(2)]) (use False in simp_all)
      qed
      with True False m show ?thesis by simp
    next
      case arr: False
      obtain own ks where b: "block_segments G v = (own, ks)" by (metis prod.collapse)
      then obtain t where t: "concat_all (map (\<lambda>k. contentSegments G n (g_get G v k)) ks) = Some t" "s = own @ t"
        using arr False 2(3) by auto
      have "concat_all (map (\<lambda>k. contentSegments G m' (g_get G v k)) ks) = Some t"
        using t(1)
      proof (rule concat_all_more)
        fix k t assume k: "k \<in> set ks" "contentSegments G n (g_get G v k) = Some t"
        show "contentSegments G m' (g_get G v k) = Some t"
          by (rule 2(2) [OF _ _ arr _ b [symmetric] refl k m(2)]) (use False arr in simp_all)
      qed
      with t(2) arr False b m show ?thesis by simp
    qed
  qed
qed simp

text \<open>
  What the code relies on: the elements and the members of a value are smaller than the value (they
  are parts of its text).
\<close>

locale gjson_document =
  fixes G :: "'g gjson" and rank :: "'g \<Rightarrow> nat"
  assumes item_rank: "x \<in> set (g_items G v) \<Longrightarrow> rank x < rank v"
    and member_rank: "g_exists G (g_get G v k) \<Longrightarrow> rank (g_get G v k) < rank v"
    and array_exists: "g_is_array G v \<Longrightarrow> g_exists G v"
begin

lemma content_terminates: "rank v + 1 < n \<or> \<not> g_exists G v \<and> 0 < n \<Longrightarrow> contentSegments G n v \<noteq> None"
proof (induction n arbitrary: v)
  case (Suc n)
  show ?case
  proof (cases "g_exists G v")
    case True
    with Suc.prems have r: "rank v + 1 < Suc n" "0 < n" by auto
    have items: "contentSegments G n x \<noteq> None" if "x \<in> set (g_items G v)" for x
      using Suc.IH [of x] item_rank [OF that] r by auto
    have members: "contentSegments G n (g_get G v k) \<noteq> None" for k
      using Suc.IH [of "g_get G v k"] member_rank [of v k] r by fastforce
    obtain own ks where b: "block_segments G v = (own, ks)" by (metis prod.collapse)
    have "concat_all (map (contentSegments G n) (g_items G v)) \<noteq> None"
      using items by (rule concat_all_map)
    moreover have "concat_all (map (\<lambda>k. contentSegments G n (g_get G v k)) ks) \<noteq> None"
      using members by (rule concat_all_map)
    ultimately show ?thesis using b by simp
  qed simp
qed simp

lemma message_terminates: "rank ms + 1 < n \<Longrightarrow> messageSegments G n ms \<noteq> None"
proof -
  assume r: "rank ms + 1 < n"
  have "concat_all [Some (member_tokens G m [''role'']), contentSegments G n (g_get G m ''content'')] \<noteq> None"
    if "m \<in> set (g_items G ms)" for m
  proof -
    have "rank m < rank ms" "rank ms + 1 < n" using that r item_rank [OF that] by auto
    then have "contentSegments G n (g_get G m ''content'') \<noteq> None"
      using member_rank [of m "''content''"] by (intro content_terminates) linarith
    then show ?thesis by auto
  qed
  then have "concat_all (map (\<lambda>m. concat_all [Some (member_tokens G m [''role'']),
      contentSegments G n (g_get G m ''content'')]) (g_items G ms)) \<noteq> None"
    by (rule concat_all_map)
  then show ?thesis by (simp add: messageSegments_def del: concat_all_simps)
qed

lemma request_terminates: "rank root + 1 < n \<Longrightarrow> requestSegments G n root \<noteq> None"
proof -
  let ?ms = "g_get G root ''messages''"
  assume r: "rank root + 1 < n"
  have "messageSegments G n ?ms \<noteq> None"
  proof (cases "g_is_array G ?ms")
    case True
    then have "rank ?ms < rank root" by (intro member_rank array_exists)
    with r show ?thesis by (intro message_terminates) simp
  qed (simp add: messageSegments_def)
  then show ?thesis by (auto simp: requestSegments_def)
qed

end

lemma messageSegments_more: "messageSegments G n ms = Some s \<Longrightarrow> n \<le> m \<Longrightarrow> messageSegments G m ms = Some s"
proof -
  assume s: "messageSegments G n ms = Some s" and n: "n \<le> m"
  show ?thesis
  proof (cases "g_is_array G ms")
    case True
    with s have "concat_all (map (\<lambda>m. concat_all [Some (member_tokens G m [''role'']),
        contentSegments G n (g_get G m ''content'')]) (g_items G ms)) = Some s"
      by (simp add: messageSegments_def)
    then have "concat_all (map (\<lambda>m'. concat_all [Some (member_tokens G m' [''role'']),
        contentSegments G m (g_get G m' ''content'')]) (g_items G ms)) = Some s"
      by (rule concat_all_more) (auto dest: contentSegments_more [OF _ n] simp: concat_all_def split: if_splits)
    with True show ?thesis by (simp add: messageSegments_def)
  qed (use s in \<open>simp add: messageSegments_def\<close>)
qed

lemma requestSegments_more: "requestSegments G n root = Some s \<Longrightarrow> n \<le> m \<Longrightarrow> requestSegments G m root = Some s"
  by (auto simp: requestSegments_def dest: messageSegments_more) (auto simp: concat_all_def dest: messageSegments_more split: if_splits)

subsection \<open>gjson on a parsed document\<close>

text \<open>
  The operations on a document of GoJson, for concrete runs: a value, or \<open>None\<close> for one that does not
  exist. The text of a value is its encoding.
\<close>

definition json_text :: "json \<Rightarrow> string" where
  "json_text v = (case v of JStr s \<Rightarrow> s | JNull \<Rightarrow> [] | _ \<Rightarrow> marshal v)"

definition json_gjson :: "json option gjson" where
  "json_gjson =
     \<lparr>g_valid = (\<lambda>s. decode_all s \<noteq> None), g_parse = decode_all,
      g_get = (\<lambda>v k. case v of Some (JObj m) \<Rightarrow> map_of m k | _ \<Rightarrow> None),
      g_string = (\<lambda>v. case v of None \<Rightarrow> [] | Some j \<Rightarrow> json_text j),
      g_raw = (\<lambda>v. case v of None \<Rightarrow> [] | Some j \<Rightarrow> marshal j),
      g_exists = (\<lambda>v. v \<noteq> None),
      g_is_string = (\<lambda>v. case v of Some (JStr s) \<Rightarrow> True | _ \<Rightarrow> False),
      g_is_array = (\<lambda>v. case v of Some (JArr xs) \<Rightarrow> True | _ \<Rightarrow> False),
      g_is_object = (\<lambda>v. case v of Some (JObj m) \<Rightarrow> True | _ \<Rightarrow> False),
      g_items = (\<lambda>v. case v of Some (JArr xs) \<Rightarrow> map Some xs | _ \<Rightarrow> [])\<rparr>"

definition json_rank :: "json option \<Rightarrow> nat" where
  "json_rank v = (case v of None \<Rightarrow> 0 | Some j \<Rightarrow> Suc (depth j))"

interpretation json_document: gjson_document json_gjson json_rank
proof
  fix x v assume "x \<in> set (g_items json_gjson v)"
  then obtain xs y where "v = Some (JArr xs)" "y \<in> set xs" "x = Some y"
    by (auto simp: json_gjson_def split: option.splits json.splits)
  then show "json_rank x < json_rank v"
    using foldr_max_le [of y xs depth] by (simp add: json_rank_def)
next
  fix v k assume "g_exists json_gjson (g_get json_gjson v k)"
  then obtain m y where m: "v = Some (JObj m)" "map_of m k = Some y" "g_get json_gjson v k = Some y"
    by (auto simp: json_gjson_def split: option.splits json.splits)
  then have "depth y \<le> foldr (\<lambda>kv. max (depth (snd kv))) m 0"
    using foldr_max_le [of "(k, y)" m "\<lambda>kv. depth (snd kv)"] by (auto dest: map_of_SomeD)
  with m show "json_rank (g_get json_gjson v k) < json_rank v"
    by (simp add: json_rank_def case_prod_unfold)
next
  fix v show "g_is_array json_gjson v \<Longrightarrow> g_exists json_gjson v"
    by (auto simp: json_gjson_def split: option.splits)
qed

subsection \<open>Properties of the count\<close>

lemma countClaude_more:
  "countClaudeInputTokens G tk n p = Some r \<Longrightarrow> n \<le> m \<Longrightarrow> countClaudeInputTokens G tk m p = Some r"
  by (auto simp: countClaudeInputTokens_def dest: requestSegments_more split: option.splits if_splits)

lemma countTokens_more: "countTokens G tk n req = Some r \<Longrightarrow> n \<le> m \<Longrightarrow> countTokens G tk m req = Some r"
  by (auto simp: countTokens_def dest: countClaude_more split: if_splits)

text \<open>
  C20: counting returns for every request and every gjson whose parts are smaller than the whole:
  two more than the nesting rank of the document is enough fuel, and more of it changes nothing.
\<close>

theorem token_count_terminates:
  assumes "gjson_document G rank" "rank (g_parse G (count_payload req)) + 1 < n"
  shows "\<exists>r. \<forall>m \<ge> n. countTokens G tk m req = Some r"
proof -
  have "requestSegments G n (g_parse G (count_payload req)) \<noteq> None"
    by (rule gjson_document.request_terminates [OF assms])
  then have "countTokens G tk n req \<noteq> None"
    by (auto simp: countTokens_def countClaudeInputTokens_def split: option.splits)
  then obtain r where "countTokens G tk n req = Some r" by blast
  then show ?thesis using countTokens_more by blast
qed

definition sample_count_request :: execute_request where
  "sample_count_request =
     \<lparr>er_Format = ''claude'', er_SourceFormat = [], er_Model = [],
      er_Payload = ''{'' @ [CHR 0x22] @ ''system'' @ [CHR 0x22] @ '':'' @ [CHR 0x22] @ ''hi'' @ [CHR 0x22] @ ''}'',
      er_OriginalRequest = [], er_StreamID = []\<rparr>"

definition length_codec :: tokenizer_codec where
  "length_codec = \<lparr>tk_error = None, tk_count = (\<lambda>s. Inr (int (length s)))\<rparr>"

theorem token_count_terminates_witness:
  "\<exists>r. \<forall>m \<ge> 4. countTokens json_gjson length_codec m sample_count_request = Some r"
proof (rule token_count_terminates [OF json_document.gjson_document_axioms])
  show "json_rank (g_parse json_gjson (count_payload sample_count_request)) + 1 < 4" by code_simp
qed

lemma sample_count:
  "map_option (map_sum error_text rs_Payload) (countTokens json_gjson length_codec 4 sample_count_request) =
     Some (Inr ([CHR ''{'', CHR 0x22] @ ''input_tokens'' @ [CHR 0x22] @ '':2}''))"
  by code_simp

definition segment :: "string \<Rightarrow> bool" where
  "segment s = (s \<noteq> [] \<and> trim_space s = s)"

named_theorems segs

lemma token_string_segs [segs]: "list_all segment (token_string v)"
  by (simp add: token_string_def segment_def Let_def)

lemma token_json_segs [segs]: "list_all segment (token_json G v)"
  by (simp add: token_json_def segs Let_def split: option.split)

lemma member_tokens_segs [segs]: "list_all segment (member_tokens G v ks)"
  using token_string_segs by (auto simp: member_tokens_def list_all_iff)

lemma concat_map_segs [segs]: "(\<And>x. x \<in> set xs \<Longrightarrow> list_all segment (f x)) \<Longrightarrow> list_all segment (concat (map f xs))"
  by (auto simp: list_all_iff)

lemma block_segs: "list_all segment (fst (block_segments G v))"
  by (simp add: block_segments_def segs Let_def)

lemma concat_all_segs:
  assumes "concat_all rs = Some s" "\<And>t. Some t \<in> set rs \<Longrightarrow> list_all segment t"
  shows "list_all segment s"
proof -
  from assms(1) obtain yss where y: "rs = map Some yss" "s = concat yss" by (auto simp: concat_all_Some)
  then have "\<forall>t \<in> set yss. list_all segment t" using assms(2) by auto
  with y(2) show ?thesis by (auto simp: list_all_iff)
qed

lemma concat_all_single [simp]: "concat_all [r] = r"
  by (cases r) (simp_all add: concat_all_def)

lemma content_segs: "contentSegments G n v = Some s \<Longrightarrow> list_all segment s"
proof (induction n arbitrary: v s)
  case (Suc n)
  obtain own ks where b: "block_segments G v = (own, ks)" by (metis prod.collapse)
  then have own: "list_all segment own" using block_segs [of G v] by simp
  show ?case
  proof (cases "g_is_array G v \<and> g_exists G v \<and> \<not> g_is_string G v")
    case True
    then have "concat_all (map (contentSegments G n) (g_items G v)) = Some s" using Suc.prems by simp
    then show ?thesis by (rule concat_all_segs) (use Suc.IH in force)
  next
    case False
    show ?thesis
    proof (cases "g_exists G v \<and> \<not> g_is_string G v \<and> g_is_object G v")
      case True
      then have "concat_all (Some own # map (\<lambda>k. contentSegments G n (g_get G v k)) ks) = Some s"
        using False Suc.prems b by simp
      then show ?thesis by (rule concat_all_segs) (use Suc.IH own in force)
    qed (use False Suc.prems in \<open>auto simp: segs split: if_splits\<close>)
  qed
qed simp



end
