(* ===== verification/Plugin.thy ===== *)
theory Plugin
  imports Host Management TokenCount
begin

section \<open>The plugin: dispatch and the C entry points (cmd/cliproxyapi-cursor/dispatch.go, main.go)\<close>

text \<open>
  The host calls the plugin with a method name and a JSON text. \<open>dispatch\<close> decodes the request,
  calls one operation of the service and returns its result or an error; \<open>handleMethod\<close> turns
  both into an envelope; \<open>cliproxyPluginCall\<close> moves the bytes through C memory.

  The request and result types of the packages \<^verbatim>\<open>pluginapi\<close> and \<^verbatim>\<open>pluginabi\<close> are not
  part of the repository: their JSON codecs and constants are fields of \<open>rpc_sdk\<close>. The codecs of
  the types that dispatch.go declares itself are defined here.
\<close>

subsection \<open>What dispatch.go declares\<close>

record config_field =
  cf_Name :: string
  cf_Type :: string
  cf_Description :: string

record metadata =
  md_Name :: string
  md_Version :: string
  md_Author :: string
  md_GitHubRepository :: string
  md_Logo :: string
  md_ConfigFields :: "config_field list"

record registrationCapability =
  rc_ModelProvider :: bool
  rc_AuthProvider :: bool
  rc_Executor :: bool
  rc_ExecutorModelScope :: string
  rc_ExecutorInputFormats :: "string list"
  rc_ExecutorOutputFormats :: "string list"
  rc_UsagePlugin :: bool
  rc_ManagementAPI :: bool

record registration =
  rg_SchemaVersion :: int
  rg_Metadata :: metadata
  rg_Capabilities :: registrationCapability

text \<open>The results of the methods, before they are encoded.\<close>

datatype rpc_result =
    RegistrationResult registration
  | ModelsResult "model_info list"
  | IdentifierResult string
  | AuthParseResult "authData option"
  | LoginStartResult loginStart
  | LoginPollResult loginPoll
  | RefreshResult authData int
  | ExecutorResult executor_response
  | StreamResult "string go_map"
  | UsageResult
  | RoutesResult "management_route list" "resource_route list"
  | ManagementResult management_response

record rpc_sdk = plugin_sdk +
  SchemaVersion :: int
  ExecutorModelScopeOAuth :: string
  ConfigFieldTypeBoolean :: string
  ConfigFieldTypeString :: string
  ConfigFieldTypeArray :: string
  ConfigFieldTypeInteger :: string
  CursorLogoDataURI :: string
  MethodPluginRegister :: string
  MethodPluginReconfigure :: string
  MethodModelStatic :: string
  MethodModelForAuth :: string
  MethodAuthIdentifier :: string
  MethodExecutorIdentifier :: string
  MethodAuthParse :: string
  MethodAuthLoginStart :: string
  MethodAuthLoginPoll :: string
  MethodAuthRefresh :: string
  MethodExecutorExecute :: string
  MethodExecutorExecuteStream :: string
  MethodExecutorCountTokens :: string
  MethodExecutorHTTPRequest :: string
  MethodUsageHandle :: string
  MethodManagementRegister :: string
  MethodManagementHandle :: string
  decode_model_request :: "string \<Rightarrow> (string, unit) result"
  decode_auth_parse :: "string \<Rightarrow> (string, string \<times> string \<times> string) result"
  decode_login_start :: "string \<Rightarrow> (string, string) result"
  decode_login_poll :: "string \<Rightarrow> (string, string) result"
  decode_auth_refresh :: "string \<Rightarrow> (string, unit) result"
  decode_execute :: "string \<Rightarrow> (string, execute_request) result"
  decode_http_request :: "string \<Rightarrow> (string, unit) result"
  decode_usage_record :: "string \<Rightarrow> (string, usage_record) result"
  decode_management_registration :: "string \<Rightarrow> (string, unit) result"
  decode_management_request :: "string \<Rightarrow> (string, management_request) result"
  encode_result :: "rpc_result \<Rightarrow> (string, string) result"

definition pluginVersion :: string where
  "pluginVersion = ''0.3.0''"

definition config_fields :: "'a rpc_sdk_scheme \<Rightarrow> config_field list" where
  "config_fields sdk = map (\<lambda>(n, t, d). \<lparr>cf_Name = n, cf_Type = t, cf_Description = d\<rparr>)
     [(''enabled'', ConfigFieldTypeBoolean sdk, ''Enable the Cursor Agent CLI-backed provider.''),
      (''executable_path'', ConfigFieldTypeString sdk,
       ''Path to the official Cursor Agent CLI executable (agent).''),
      (''workspace'', ConfigFieldTypeString sdk,
       ''Dedicated empty parent directory; each ask-mode CLI run uses a fresh private child '' @
       ''workspace with Cursor sandbox disabled.''),
      (''model_prefix'', ConfigFieldTypeString sdk,
       ''Optional prefix added to discovered Cursor model IDs.''),
      (''allowed_models'', ConfigFieldTypeArray sdk,
       ''Optional allowlist of Cursor model IDs from agent models.''),
      (''denied_models'', ConfigFieldTypeArray sdk,
       ''Optional denylist of Cursor model IDs from agent models.''),
      (''excluded_model_prefixes'', ConfigFieldTypeArray sdk,
       ''Case-insensitive model ID prefixes omitted from Cursor discovery.''),
      (''environment_allowlist'', ConfigFieldTypeArray sdk,
       ''Environment variable names allowed through to the agent subprocess; CURSOR_API_KEY is '' @
       ''always stripped.''),
      (''timeout_seconds'', ConfigFieldTypeInteger sdk, ''Maximum runtime for one Cursor CLI execution.''),
      (''max_concurrent'', ConfigFieldTypeInteger sdk, ''Maximum concurrent Cursor CLI subprocesses.'')]"

definition rpc_formats :: "string list" where
  "rpc_formats = [''openai-response'', ''openai-chat'', ''claude'']"

definition pluginRegistration :: "'a rpc_sdk_scheme \<Rightarrow> registration" where
  "pluginRegistration sdk =
     \<lparr>rg_SchemaVersion = SchemaVersion sdk,
      rg_Metadata =
        \<lparr>md_Name = ''Cursor Agent CLI provider'', md_Version = pluginVersion,
         md_Author = ''Nyanjou; based on MIT-licensed arthur-sommer-etc cliproxyapi-copilot-plugin ABI scaffolding'',
         md_GitHubRepository = ''https://github.com/nyanjou/cliproxyapi-cursor-plugin'',
         md_Logo = CursorLogoDataURI sdk, md_ConfigFields = config_fields sdk\<rparr>,
      rg_Capabilities =
        \<lparr>rc_ModelProvider = True, rc_AuthProvider = True, rc_Executor = True,
         rc_ExecutorModelScope = ExecutorModelScopeOAuth sdk, rc_ExecutorInputFormats = rpc_formats,
         rc_ExecutorOutputFormats = rpc_formats, rc_UsagePlugin = True, rc_ManagementAPI = True\<rparr>\<rparr>"

text \<open>\<^verbatim>\<open>lifecycleRequest\<close>: the YAML text is a \<^verbatim>\<open>[]byte\<close>.\<close>

definition lifecycle_setters :: "string setters" where
  "lifecycle_setters = [(''config_yaml'', \<lambda>v r. into_bytes v)]"

definition decode_lifecycle :: "'a rpc_sdk_scheme \<Rightarrow> string \<Rightarrow> (string, string) result" where
  "decode_lifecycle sdk request =
     (if request = [] then Inr []
      else case unmarshal_struct lifecycle_setters [] request of
        None \<Rightarrow> Inl (json_error sdk ''lifecycleRequest'' request)
      | Some yaml \<Rightarrow> Inr yaml)"

subsection \<open>JSON of the results\<close>

definition json_array :: "string list \<Rightarrow> string" where
  "json_array xs = ''['' @ join_on '','' xs @ '']''"

text \<open>A struct whose fields are JSON texts already.\<close>

definition json_struct :: "(string \<times> string) list \<Rightarrow> string" where
  "json_struct fs = ''{'' @ join_on '','' (map (\<lambda>(k, t). enc_string k @ '':'' @ t) fs) @ ''}''"

definition route_json :: "management_route \<Rightarrow> string" where
  "route_json r =
     marshal_fields ([(''method'', JStr (mr_Method r)), (''path'', JStr (mr_Path r))] @
       optional ''menu'' (mr_Menu r) @ optional ''description'' (mr_Description r))"

definition resource_json :: "resource_route \<Rightarrow> string" where
  "resource_json r =
     marshal_fields ([(''path'', JStr (rr_Path r))] @
       optional ''menu'' (rr_Menu r) @ optional ''description'' (rr_Description r))"

text \<open>\<^verbatim>\<open>rpcManagementRegistrationFromProvider\<close> copies the routes without their handlers.\<close>

definition rpc_routes_json :: "management_route list \<Rightarrow> resource_route list \<Rightarrow> string" where
  "rpc_routes_json routes resources =
     json_struct
       ((if routes = [] then [] else [(''routes'', json_array (map route_json routes))]) @
        (if resources = [] then [] else [(''resources'', json_array (map resource_json resources))]))"

definition result_json :: "'a rpc_sdk_scheme \<Rightarrow> rpc_result \<Rightarrow> (string, string) result" where
  "result_json sdk r =
     (case r of
        IdentifierResult i \<Rightarrow> Inr (marshal_fields [(''identifier'', JStr i)])
      | StreamResult hs \<Rightarrow>
          Inr (marshal (JObj [(''headers'', json_headers (map (\<lambda>(k, v). (k, [v])) hs))]))
      | UsageResult \<Rightarrow> Inr (marshal (JObj []))
      | RoutesResult routes resources \<Rightarrow> Inr (rpc_routes_json routes resources)
      | _ \<Rightarrow> encode_result sdk r)"

subsection \<open>Dispatch\<close>

text \<open>
  The state of the plugin: the service, the disk, the C side, and the goroutines that calls have
  started and that have not ended (streams, and logins with what they will report).
\<close>

record 'w plugin =
  pg_service :: state
  pg_disk :: disk
  pg_cgo :: "'w cgo"
  pg_streams :: "stream_job list"
  pg_logins :: "pending_login list"

text \<open>
  The surroundings of one call: the YAML parser, the directory for temporary files, what an
  installation uses, Go's check of IPv6 hosts, gjson and the tokenizer with fuel for the count,
  and when the output of a login comes.
\<close>

record 'g surroundings =
  su_yaml :: "string \<Rightarrow> config \<Rightarrow> string + config"
  su_tmp :: string
  su_install :: install_env
  su_ip6 :: "string \<Rightarrow> bool"
  su_gjson :: "'g gjson"
  su_codec :: tokenizer_codec
  su_fuel :: nat
  su_out_first :: bool
  su_in_time :: bool

type_synonym 'r answer = "(go_error, 'r) result option"

definition unknown_method_error :: "string \<Rightarrow> go_error" where
  "unknown_method_error method =
     statusError ''unknown_method'' (''unknown plugin method: '' @ method) 501"

definition with_request ::
    "(string, 'q) result \<Rightarrow> ('q \<Rightarrow> 'w plugin \<Rightarrow> rpc_result answer \<times> 'w plugin) \<Rightarrow> 'w plugin \<Rightarrow>
     rpc_result answer \<times> 'w plugin" where
  "with_request decoded f p = (case decoded of Inl e \<Rightarrow> (Some (Inl (PlainErr e)), p) | Inr req \<Rightarrow> f req p)"

definition serve ::
    "(state \<Rightarrow> (go_error, rpc_result) result \<times> state) \<Rightarrow> 'w plugin \<Rightarrow> rpc_result answer \<times> 'w plugin" where
  "serve f p = (case f (pg_service p) of (r, sv) \<Rightarrow> (Some r, p\<lparr>pg_service := sv\<rparr>))"

definition rpc_configure ::
    "'a rpc_sdk_scheme \<Rightarrow> 'g surroundings \<Rightarrow> string \<Rightarrow> state \<Rightarrow> (go_error, rpc_result) result \<times> state" where
  "rpc_configure sdk su yaml st =
     (case configure (su_yaml su) (su_tmp su) yaml st of
        (Some e, st1) \<Rightarrow> (Inl e, st1)
      | (None, st1) \<Rightarrow> (Inr (RegistrationResult (pluginRegistration sdk)), st1))"

definition rpc_login_start ::
    "'g surroundings \<Rightarrow> string \<Rightarrow> 'w plugin \<Rightarrow> rpc_result answer \<times> 'w plugin" where
  "rpc_login_start su base p =
     (case startLogin (su_ip6 su) base (su_out_first su) (su_in_time su) (pg_service p) of
        (Inl e, sv) \<Rightarrow> (Some (Inl e), p\<lparr>pg_service := sv\<rparr>)
      | (Inr (resp, started), sv) \<Rightarrow>
          (Some (Inr (LoginStartResult resp)),
           p\<lparr>pg_service := sv,
             pg_logins := pg_logins p @ (case started of None \<Rightarrow> [] | Some l \<Rightarrow> [l])\<rparr>))"

definition rpc_execute_stream ::
    "execute_request \<Rightarrow> 'w plugin \<Rightarrow> rpc_result answer \<times> 'w plugin" where
  "rpc_execute_stream req p =
     (case execute_stream True req (pg_service p) of
        (Inl e, sv) \<Rightarrow> (Some (Inl e), p\<lparr>pg_service := sv\<rparr>)
      | (Inr (headers, job), sv) \<Rightarrow>
          (Some (Inr (StreamResult headers)), p\<lparr>pg_service := sv, pg_streams := pg_streams p @ [job]\<rparr>))"

definition rpc_management ::
    "'g surroundings \<Rightarrow> management_request \<Rightarrow> 'w plugin \<Rightarrow> rpc_result answer \<times> 'w plugin" where
  "rpc_management su req p =
     (case handleManagement (su_install su) (sv_config (pg_service p)) req (pg_disk p) of
        (resp, d) \<Rightarrow> (Some (Inr (ManagementResult resp)), p\<lparr>pg_disk := d\<rparr>))"

definition dispatch ::
    "'a rpc_sdk_scheme \<Rightarrow> 'g surroundings \<Rightarrow> string \<Rightarrow> string \<Rightarrow> 'w plugin \<Rightarrow>
     rpc_result answer \<times> 'w plugin" where
  "dispatch sdk su method request p =
     (if method = MethodPluginRegister sdk \<or> method = MethodPluginReconfigure sdk
      then with_request (decode_lifecycle sdk request) (\<lambda>yaml. serve (rpc_configure sdk su yaml)) p
      else if method = MethodModelStatic sdk
      then serve (\<lambda>st. apfst (\<lambda>ms. Inr (ModelsResult ms)) (staticModels st)) p
      else if method = MethodModelForAuth sdk
      then with_request (decode_model_request sdk request)
             (\<lambda>_. serve (\<lambda>st. apfst (\<lambda>ms. Inr (ModelsResult ms)) (modelsForAuth st))) p
      else if method = MethodAuthIdentifier sdk \<or> method = MethodExecutorIdentifier sdk
      then (Some (Inr (IdentifierResult ''cursor'')), p)
      else if method = MethodAuthParse sdk
      then with_request (decode_auth_parse sdk request)
             (\<lambda>(provider, rawJSON, fileName).
                serve (\<lambda>st. apfst (\<lambda>a. Inr (AuthParseResult a)) (parseAuth provider rawJSON fileName st))) p
      else if method = MethodAuthLoginStart sdk
      then with_request (decode_login_start sdk request) (rpc_login_start su) p
      else if method = MethodAuthLoginPoll sdk
      then with_request (decode_login_poll sdk request)
             (\<lambda>key. serve (\<lambda>st. apfst (\<lambda>r. Inr (LoginPollResult r)) (pollLogin key st))) p
      else if method = MethodAuthRefresh sdk
      then with_request (decode_auth_refresh sdk request)
             (\<lambda>_. serve (\<lambda>st. apfst (map_sum (\<lambda>e. e) (\<lambda>(a, t). RefreshResult a t)) (refreshAuth st))) p
      else if method = MethodExecutorExecute sdk
      then with_request (decode_execute sdk request)
             (\<lambda>req. serve (\<lambda>st. apfst (map_sum (\<lambda>e. e) ExecutorResult) (execute req st))) p
      else if method = MethodExecutorExecuteStream sdk
      then with_request (decode_execute sdk request) rpc_execute_stream p
      else if method = MethodExecutorCountTokens sdk
      then with_request (decode_execute sdk request)
             (\<lambda>req p. (map_option (map_sum (\<lambda>e. e) ExecutorResult)
                         (countTokens (su_gjson su) (su_codec su) (su_fuel su) req), p)) p
      else if method = MethodExecutorHTTPRequest sdk
      then with_request (decode_http_request sdk request) (\<lambda>_ p. (Some (Inl http_error), p)) p
      else if method = MethodUsageHandle sdk
      then with_request (decode_usage_record sdk request)
             (\<lambda>r. serve (\<lambda>st. (Inr UsageResult, handle_usage r st))) p
      else if method = MethodManagementRegister sdk
      then with_request (decode_management_registration sdk request)
             (\<lambda>_ p. (Some (Inr (RoutesResult (fst registerManagement) (snd registerManagement))), p)) p
      else if method = MethodManagementHandle sdk
      then with_request (decode_management_request sdk request) (rpc_management su) p
      else (Some (Inl (unknown_method_error method)), p))"

subsection \<open>Envelopes\<close>

definition okEnvelope :: "'a rpc_sdk_scheme \<Rightarrow> rpc_result \<Rightarrow> (string, string) result" where
  "okEnvelope sdk r =
     (case result_json sdk r of
        Inl e \<Rightarrow> Inl e
      | Inr text \<Rightarrow> encode_envelope sdk \<lparr>ev_OK = True, ev_Result = text, ev_Error = None\<rparr>)"

definition errorEnvelope :: "'a rpc_sdk_scheme \<Rightarrow> abi_error \<Rightarrow> string" where
  "errorEnvelope sdk e =
     (case encode_envelope sdk \<lparr>ev_OK = False, ev_Result = [], ev_Error = Some e\<rparr> of
        Inl _ \<Rightarrow> [] | Inr raw \<Rightarrow> raw)"

definition abi_error_of :: "go_error \<Rightarrow> abi_error" where
  "abi_error_of e =
     (case as_status e of
        Some s \<Rightarrow>
          \<lparr>ae_Code = se_code s, ae_Message = se_message s, ae_HTTPStatus = se_http s,
           ae_Retryable = se_retryable s\<rparr>
      | None \<Rightarrow>
          \<lparr>ae_Code = ''plugin_error'', ae_Message = error_text e, ae_HTTPStatus = 500,
           ae_Retryable = False\<rparr>)"

definition encoding_error :: "string \<Rightarrow> abi_error" where
  "encoding_error text =
     \<lparr>ae_Code = ''encoding_error'', ae_Message = text, ae_HTTPStatus = 500, ae_Retryable = False\<rparr>"

text \<open>\<open>None\<close>: the call does not return (the fuel of the count is not enough).\<close>

definition handleMethod ::
    "'a rpc_sdk_scheme \<Rightarrow> 'g surroundings \<Rightarrow> string \<Rightarrow> string \<Rightarrow> 'w plugin \<Rightarrow>
     (string \<times> bool) option \<times> 'w plugin" where
  "handleMethod sdk su method request p =
     (case dispatch sdk su method request p of
        (None, p1) \<Rightarrow> (None, p1)
      | (Some (Inl e), p1) \<Rightarrow> (Some (errorEnvelope sdk (abi_error_of e), True), p1)
      | (Some (Inr r), p1) \<Rightarrow>
          (case okEnvelope sdk r of
             Inl e \<Rightarrow> (Some (errorEnvelope sdk (encoding_error e), True), p1)
           | Inr raw \<Rightarrow> (Some (raw, False), p1)))"

subsection \<open>The C entry points\<close>

text \<open>\<^verbatim>\<open>cliproxy_buffer\<close> as the plugin leaves it: null, or a block with the bytes of the response.\<close>

record c_buffer =
  cb_ptr :: nat
  cb_bytes :: string

definition null_buffer :: c_buffer where
  "null_buffer = \<lparr>cb_ptr = 0, cb_bytes = []\<rparr>"

definition writeResponse :: "bool \<Rightarrow> string \<Rightarrow> 'w cgo \<Rightarrow> c_buffer \<times> 'w cgo" where
  "writeResponse response raw c =
     (if \<not> response \<or> raw = [] then (null_buffer, c)
      else case c_alloc raw c of (ptr, c1) \<Rightarrow> (\<lparr>cb_ptr = ptr, cb_bytes = raw\<rparr>, c1))"

definition invalid_method :: abi_error where
  "invalid_method =
     \<lparr>ae_Code = ''invalid_method'', ae_Message = ''method is required'', ae_HTTPStatus = 0,
      ae_Retryable = False\<rparr>"

text \<open>
  The pointers of the caller may be null: \<open>response\<close> says whether the buffer is there, a null method
  or request is \<open>None\<close>. The result is the return code and the buffer; \<open>None\<close> when the call panics or
  does not return.
\<close>

definition cliproxyPluginCall ::
    "'a rpc_sdk_scheme \<Rightarrow> 'g surroundings \<Rightarrow> bool \<Rightarrow> string option \<Rightarrow> string option \<Rightarrow> 'w plugin \<Rightarrow>
     (int \<times> c_buffer) option \<times> 'w plugin" where
  "cliproxyPluginCall sdk su response method request p =
     (case method of
        None \<Rightarrow>
          (case writeResponse response (errorEnvelope sdk invalid_method) (pg_cgo p) of
             (b, c) \<Rightarrow> (Some (1, b), p\<lparr>pg_cgo := c\<rparr>))
      | Some m \<Rightarrow>
          (case (case request of Some r \<Rightarrow> if r = [] then Some [] else go_bytes r | None \<Rightarrow> Some []) of
             None \<Rightarrow> (None, p)
           | Some requestBytes \<Rightarrow>
               (case handleMethod sdk su m requestBytes p of
                  (None, p1) \<Rightarrow> (None, p1)
                | (Some (raw, failed), p1) \<Rightarrow>
                    (case writeResponse response raw (pg_cgo p1) of
                       (b, c) \<Rightarrow> (Some (if failed then 1 else 0, b), p1\<lparr>pg_cgo := c\<rparr>)))))"

definition cliproxyPluginFree :: "nat \<Rightarrow> 'w cgo \<Rightarrow> 'w cgo" where
  "cliproxyPluginFree ptr c = (if ptr \<noteq> 0 then c_free ptr c else c)"

definition cliproxyPluginShutdown :: "'w plugin \<Rightarrow> 'w plugin" where
  "cliproxyPluginShutdown p =
     p\<lparr>pg_service := shutdown (pg_service p), pg_cgo := (pg_cgo p)\<lparr>stored_host := None\<rparr>\<rparr>"

datatype plugin_function = PluginCall | PluginFree | PluginShutdown

record plugin_api =
  pa_abi_version :: int
  pa_call :: plugin_function
  pa_free_buffer :: plugin_function
  pa_shutdown :: plugin_function

definition cliproxy_plugin_init ::
    "'a rpc_sdk_scheme \<Rightarrow> 'w host_api option \<Rightarrow> bool \<Rightarrow> 'w plugin \<Rightarrow> int \<times> plugin_api option \<times> 'w plugin" where
  "cliproxy_plugin_init sdk host plugin p =
     (case host of
        None \<Rightarrow> (1, None, p)
      | Some h \<Rightarrow>
          if \<not> plugin \<or> ha_abi_version h \<noteq> ABIVersion sdk then (1, None, p)
          else (0, Some \<lparr>pa_abi_version = ABIVersion sdk, pa_call = PluginCall, pa_free_buffer = PluginFree,
                   pa_shutdown = PluginShutdown\<rparr>,
                p\<lparr>pg_cgo := (pg_cgo p)\<lparr>stored_host := Some h\<rparr>\<rparr>))"

subsection \<open>The goroutine of a stream and the host\<close>

text \<open>
  The answers of the host to the payloads, one after the other, and the goroutine with them: what
  \<open>run_stream\<close> sends becomes calls of the host. \<open>None\<close>: a call panicked.
\<close>

fun emit_results ::
    "plugin_sdk \<Rightarrow> string \<Rightarrow> string list \<Rightarrow> 'w cgo \<Rightarrow> (go_error, unit) result option list" where
  "emit_results sdk sid [] c = []"
| "emit_results sdk sid (payload # ps) c =
     (case hostEmit sdk sid payload c of (r, c1) \<Rightarrow> r # emit_results sdk sid ps c1)"

definition send_answer :: "(go_error, unit) result option list \<Rightarrow> nat \<Rightarrow> string option" where
  "send_answer rs n =
     (if n < length rs then (case rs ! n of Some (Inl e) \<Rightarrow> Some (error_text e) | _ \<Rightarrow> None) else None)"

definition perform :: "plugin_sdk \<Rightarrow> host_event \<Rightarrow> 'w cgo \<Rightarrow> unit option \<times> 'w cgo" where
  "perform sdk ev c =
     (case ev of
        Emit sid payload \<Rightarrow> (case hostEmit sdk sid payload c of (r, c1) \<Rightarrow> (map_option (\<lambda>_. ()) r, c1))
      | CloseOutput sid message \<Rightarrow> hostCloseOutput sdk sid message c)"

fun perform_all :: "plugin_sdk \<Rightarrow> host_event list \<Rightarrow> 'w cgo \<Rightarrow> unit option \<times> 'w cgo" where
  "perform_all sdk [] c = (Some (), c)"
| "perform_all sdk (ev # evs) c =
     (case perform sdk ev c of (None, c1) \<Rightarrow> (None, c1) | (Some _, c1) \<Rightarrow> perform_all sdk evs c1)"

definition payloads_of :: "host_event list \<Rightarrow> string list" where
  "payloads_of evs = concat (map (\<lambda>ev. case ev of Emit sid payload \<Rightarrow> [payload] | _ \<Rightarrow> []) evs)"

definition stream_goroutine ::
    "'a rpc_sdk_scheme \<Rightarrow> stream_job \<Rightarrow> 'w plugin \<Rightarrow> unit option \<times> 'w plugin" where
  "stream_goroutine sdk job p =
     (let host = plugin_sdk.truncate sdk;
          sid = er_StreamID (sj_request job);
          plan = payloads_of (fst (run_stream (\<lambda>_. None) job (pg_service p)));
          (evs, sv) = run_stream (send_answer (emit_results host sid plan (pg_cgo p))) job (pg_service p);
          (r, c) = perform_all host evs (pg_cgo p)
      in (r, p\<lparr>pg_service := sv, pg_cgo := c, pg_streams := remove1 job (pg_streams p)\<rparr>))"

subsection \<open>What dispatch leaves alone\<close>

lemmas dispatch_parts =
  with_request_def serve_def rpc_configure_def rpc_login_start_def rpc_execute_stream_def rpc_management_def

lemma serve_cgo [simp]: "pg_cgo (snd (serve f p)) = pg_cgo p"
  by (simp add: serve_def split: prod.split)

lemma with_request_cgo: "(\<And>q. pg_cgo (snd (f q p)) = pg_cgo p) \<Longrightarrow> pg_cgo (snd (with_request d f p)) = pg_cgo p"
  by (simp add: with_request_def split: sum.split)

lemma login_start_cgo [simp]: "pg_cgo (snd (rpc_login_start su base p)) = pg_cgo p"
  by (simp add: rpc_login_start_def split: prod.split sum.split)

lemma execute_stream_cgo [simp]: "pg_cgo (snd (rpc_execute_stream req p)) = pg_cgo p"
  by (simp add: rpc_execute_stream_def split: prod.split sum.split)

lemma management_cgo [simp]: "pg_cgo (snd (rpc_management su req p)) = pg_cgo p"
  by (simp add: rpc_management_def split: prod.split)

lemma dispatch_cgo [simp]: "pg_cgo (snd (dispatch sdk su method request p)) = pg_cgo p"
  unfolding dispatch_def by (simp add: with_request_cgo split: prod.split)

lemma handleMethod_state: "snd (handleMethod sdk su method request p) = snd (dispatch sdk su method request p)"
  by (simp add: handleMethod_def split: prod.split option.split sum.split)

subsection \<open>Every answer is an envelope\<close>

text \<open>
  C6: Whatever a method does, the host gets an envelope whose verdict is the return value of the
  call. An error of the service arrives with the code, the message, the HTTP status and the retry
  flag of its status error, however deep that error is wrapped, and any other error as a
  \<^verbatim>\<open>plugin_error\<close> with status 500; a result arrives as its own JSON.
\<close>

theorem handleMethod_envelope:
  assumes "dispatch sdk su method request p = (Some res, p')"
    and "\<And>e. is_ok (encode_envelope sdk \<lparr>ev_OK = False, ev_Result = [], ev_Error = Some e\<rparr>)"
  shows "\<exists>raw failed env. handleMethod sdk su method request p = (Some (raw, failed), p') \<and>
    encode_envelope sdk env = Inr raw \<and> ev_OK env = (\<not> failed) \<and>
    (case res of
       Inl e \<Rightarrow> failed \<and> ev_Error env = Some (abi_error_of e)
     | Inr r \<Rightarrow>
         (if failed then (\<exists>text. okEnvelope sdk r = Inl text \<and> ev_Error env = Some (encoding_error text))
          else result_json sdk r = Inr (ev_Result env) \<and> ev_Error env = None))"
proof -
  have err: "\<exists>env. encode_envelope sdk env = Inr (errorEnvelope sdk e) \<and> \<not> ev_OK env \<and> ev_Error env = Some e" for e
    using assms(2) [of e]
    by (intro exI [of _ "\<lparr>ev_OK = False, ev_Result = [], ev_Error = Some e\<rparr>"])
      (auto simp: errorEnvelope_def is_ok_def split: sum.splits)
  show ?thesis
  proof (cases res)
    case (Inl e)
    then show ?thesis using assms(1) err [of "abi_error_of e"] by (auto simp: handleMethod_def)
  next
    case (Inr r)
    show ?thesis
    proof (cases "okEnvelope sdk r")
      case (Inl msg)
      then show ?thesis using assms(1) Inr err [of "encoding_error msg"] by (auto simp: handleMethod_def)
    next
      case ok: (Inr raw)
      then obtain t where t: "result_json sdk r = Inr t"
        "encode_envelope sdk \<lparr>ev_OK = True, ev_Result = t, ev_Error = None\<rparr> = Inr raw"
        by (auto simp: okEnvelope_def split: sum.splits)
      then show ?thesis using assms(1) Inr ok
        by (intro exI [of _ raw] exI [of _ False] exI [of _ "\<lparr>ev_OK = True, ev_Result = t, ev_Error = None\<rparr>"])
          (simp add: handleMethod_def)
    qed
  qed
qed

definition sample_rpc :: rpc_sdk where
  "sample_rpc =
     \<lparr>ABIVersion = 1, MethodHostHTTPDo = ''host.http.do'', MethodHostHTTPDoStream = ''host.http.do_stream'',
      MethodHostHTTPStreamRead = ''host.http.stream_read'', MethodHostHTTPStreamClose = ''host.http.stream_close'',
      MethodHostStreamEmit = ''host.stream.emit'', MethodHostStreamClose = ''host.stream.close'',
      encode_envelope = encode_envelope sample_sdk, decode_envelope = decode_envelope sample_sdk,
      json_error = json_error sample_sdk, SchemaVersion = 1, ExecutorModelScopeOAuth = ''oauth'',
      ConfigFieldTypeBoolean = ''boolean'', ConfigFieldTypeString = ''string'', ConfigFieldTypeArray = ''array'',
      ConfigFieldTypeInteger = ''integer'', CursorLogoDataURI = ''data:'',
      MethodPluginRegister = ''plugin.register'',
      MethodPluginReconfigure = ''plugin.reconfigure'',
      MethodModelStatic = ''model.static'',
      MethodModelForAuth = ''model.for_auth'',
      MethodAuthIdentifier = ''auth.identifier'',
      MethodExecutorIdentifier = ''executor.identifier'',
      MethodAuthParse = ''auth.parse'',
      MethodAuthLoginStart = ''auth.login.start'',
      MethodAuthLoginPoll = ''auth.login.poll'',
      MethodAuthRefresh = ''auth.refresh'',
      MethodExecutorExecute = ''executor.execute'',
      MethodExecutorExecuteStream = ''executor.execute_stream'',
      MethodExecutorCountTokens = ''executor.count_tokens'',
      MethodExecutorHTTPRequest = ''executor.http_request'',
      MethodUsageHandle = ''usage.handle'',
      MethodManagementRegister = ''management.register'',
      MethodManagementHandle = ''management.handle'',
      decode_model_request = (\<lambda>_. Inl ''unexpected end of JSON input''),
      decode_auth_parse = (\<lambda>_. Inl ''unexpected end of JSON input''),
      decode_login_start = (\<lambda>_. Inl ''unexpected end of JSON input''),
      decode_login_poll = (\<lambda>_. Inl ''unexpected end of JSON input''),
      decode_auth_refresh = (\<lambda>_. Inl ''unexpected end of JSON input''),
      decode_execute = (\<lambda>_. Inl ''unexpected end of JSON input''),
      decode_http_request = (\<lambda>_. Inl ''unexpected end of JSON input''),
      decode_usage_record = (\<lambda>_. Inl ''unexpected end of JSON input''),
      decode_management_registration = (\<lambda>_. Inl ''unexpected end of JSON input''),
      decode_management_request = (\<lambda>_. Inl ''unexpected end of JSON input''),
      encode_result = (\<lambda>r. Inl ''unsupported'')\<rparr>"

definition sample_surroundings :: "json option surroundings" where
  "sample_surroundings =
     \<lparr>su_yaml = sample_yaml, su_tmp = ''/tmp'', su_install = downgrade_env, su_ip6 = (\<lambda>_. False),
      su_gjson = json_gjson, su_codec = length_codec, su_fuel = 10, su_out_first = True, su_in_time = True\<rparr>"

definition sample_plugin :: "unit plugin" where
  "sample_plugin =
     \<lparr>pg_service = answering, pg_disk = one_dir_disk, pg_cgo = sample_cgo ''+1'' False, pg_streams = [],
      pg_logins = []\<rparr>"

lemma sample_rpc_encodes: "is_ok (encode_envelope sample_rpc env)"
  by (simp add: sample_rpc_def sample_sdk_def)

lemma sample_unknown: "dispatch sample_rpc su ''nonsense'' request p = (Some (Inl (unknown_method_error ''nonsense'')), p)"
  by (simp add: dispatch_def sample_rpc_def)

theorem handleMethod_envelope_witness:
  "\<exists>raw env. handleMethod sample_rpc sample_surroundings ''nonsense'' [] sample_plugin = (Some (raw, True), sample_plugin) \<and>
     ev_Error (env :: envelope) = Some \<lparr>ae_Code = ''unknown_method'', ae_Message = ''unknown plugin method: nonsense'',
       ae_HTTPStatus = 501, ae_Retryable = False\<rparr>"
proof -
  from handleMethod_envelope [OF sample_unknown sample_rpc_encodes, of sample_surroundings "[]" sample_plugin] obtain raw failed and env :: envelope
    where h: "handleMethod sample_rpc sample_surroundings ''nonsense'' [] sample_plugin = (Some (raw, failed), sample_plugin)" "failed"
      "ev_Error env = Some (abi_error_of (unknown_method_error ''nonsense''))"
    unfolding sum.case by blast
  have "abi_error_of (unknown_method_error ''nonsense'') =
      \<lparr>ae_Code = ''unknown_method'', ae_Message = ''unknown plugin method: nonsense'', ae_HTTPStatus = 501,
       ae_Retryable = False\<rparr>"
    by (simp add: abi_error_of_def unknown_method_error_def)
  with h show ?thesis by (intro exI [of _ raw] exI [of _ env]) simp
qed

text \<open>The formats that are announced are those that the executor knows, under their own names.\<close>

lemma registration_formats:
  "list_all (\<lambda>f. normalizeRequestFormat f = f)
     (rc_ExecutorInputFormats (rg_Capabilities (pluginRegistration sdk)) @
      rc_ExecutorOutputFormats (rg_Capabilities (pluginRegistration sdk)))"
proof -
  have "list_all (\<lambda>f. normalizeRequestFormat f = f) rpc_formats" by code_simp
  then show ?thesis by (simp add: pluginRegistration_def)
qed

text \<open>
  The answer to \<^verbatim>\<open>management.register\<close> on the wire (with a tilde for the quote): the two routes
  and the resource, and no handlers.
\<close>

lemma routes_on_the_wire:
  "result_json sdk (RoutesResult (fst registerManagement) (snd registerManagement)) =
     Inr (map (\<lambda>c. if c = CHR ''~'' then CHR 0x22 else c)
       (''{~routes~:[{~method~:~GET~,~path~:~/plugins/cursor/setup/status~,~description~:~Repo'' @
        ''rts managed official Cursor Agent CLI installation status.~},{~method~:~POST~,~path~'' @
        '':~/plugins/cursor/setup/install~,~menu~:~Install official Cursor Agent CLI~,~descrip'' @
        ''tion~:~Explicitly installs the official Cursor Agent CLI into the plugin runtime HOM'' @
        ''E.~}],~resources~:[{~path~:~/setup~,~menu~:~Cursor Agent setup~,~description~:~Expla'' @
        ''ins and confirms official Cursor Agent CLI installation.~}]}''))"
proof -
  have "rpc_routes_json (fst registerManagement) (snd registerManagement) =
     map (\<lambda>c. if c = CHR ''~'' then CHR 0x22 else c)
       (''{~routes~:[{~method~:~GET~,~path~:~/plugins/cursor/setup/status~,~description~:~Repo'' @
        ''rts managed official Cursor Agent CLI installation status.~},{~method~:~POST~,~path~'' @
        '':~/plugins/cursor/setup/install~,~menu~:~Install official Cursor Agent CLI~,~descrip'' @
        ''tion~:~Explicitly installs the official Cursor Agent CLI into the plugin runtime HOM'' @
        ''E.~}],~resources~:[{~path~:~/setup~,~menu~:~Cursor Agent setup~,~description~:~Expla'' @
        ''ins and confirms official Cursor Agent CLI installation.~}]}'')"
    by code_simp
  then show ?thesis by (simp only: result_json_def rpc_result.case)
qed

subsection \<open>Memory of a call\<close>

text \<open>
  C28: A call of the plugin followed by the release of its response leaves the memory as it was:
  the response is one fresh block, the very one that \<^verbatim>\<open>cliproxyPluginFree\<close> frees, and the call
  allocates nothing else that stays. Without a response there is no block, and freeing the null
  pointer does nothing.
\<close>

theorem call_then_free:
  assumes "holds (pg_cgo p) blocks buffers"
    and "cliproxyPluginCall sdk su response method request p = (Some (rc, buffer), p')"
  shows "holds (cliproxyPluginFree (cb_ptr buffer) (pg_cgo p')) blocks buffers"
proof -
  have w: "holds (cliproxyPluginFree (cb_ptr b) c') blocks buffers"
    if "writeResponse response raw c = (b, c')" "holds c blocks buffers" for raw b c c'
  proof (cases "\<not> response \<or> raw = []")
    case True
    with that have "b = null_buffer" "c' = c" by (auto simp: writeResponse_def)
    with that(2) show ?thesis by (simp add: null_buffer_def cliproxyPluginFree_def)
  next
    case False
    with that obtain ptr where a: "c_alloc raw c = (ptr, c')" "b = \<lparr>cb_ptr = ptr, cb_bytes = raw\<rparr>"
      by (auto simp: writeResponse_def split: prod.splits)
    from holds_alloc [OF that(2) a(1)] have h: "holds c' (insert ptr blocks) buffers" "ptr \<notin> blocks" by auto
    have "ptr \<noteq> 0" using a(1) that(2) by (auto simp: c_alloc_def holds_def)
    with holds_free [OF h(1), of ptr] h(2) a(2) show ?thesis by (simp add: cliproxyPluginFree_def)
  qed
  show ?thesis
  proof (cases "method")
    case None
    with assms w show ?thesis by (auto simp: cliproxyPluginCall_def split: prod.splits)
  next
    case (Some m)
    then obtain bytes raw failed p1 c where h: "handleMethod sdk su m bytes p = (Some (raw, failed), p1)"
      "writeResponse response raw (pg_cgo p1) = (buffer, c)" "p' = p1\<lparr>pg_cgo := c\<rparr>"
      using assms(2) by (auto simp: cliproxyPluginCall_def split: option.splits prod.splits if_splits)
    have "pg_cgo p1 = pg_cgo p" using handleMethod_state [of sdk su m bytes p] h(1) by simp
    with w [OF h(2)] assms(1) h(3) show ?thesis by simp
  qed
qed

theorem call_then_free_witness:
  "\<exists>rc buffer p'. cliproxyPluginCall sample_rpc sample_surroundings True None None sample_plugin =
       (Some (rc, buffer), p') \<and> cb_ptr buffer \<noteq> 0 \<and>
     holds (cliproxyPluginFree (cb_ptr buffer) (pg_cgo p')) {} []"
proof -
  obtain rc buffer p' where c: "cliproxyPluginCall sample_rpc sample_surroundings True None None sample_plugin =
      (Some (rc, buffer), p')" "buffer = \<lparr>cb_ptr = 1, cb_bytes = ''-''\<rparr>"
    by (simp add: cliproxyPluginCall_def writeResponse_def errorEnvelope_def sample_rpc_def
        sample_sdk_def c_alloc_def sample_plugin_def sample_cgo_def)
  have "holds (pg_cgo sample_plugin) {} []" by (simp add: sample_plugin_def sample_holds)
  from call_then_free [OF this c(1)] c show ?thesis by auto
qed

subsection \<open>A stream on the wire\<close>

definition event_call :: "plugin_sdk \<Rightarrow> host_event \<Rightarrow> string \<times> string" where
  "event_call sdk ev =
     (case ev of
        Emit sid payload \<Rightarrow> (MethodHostStreamEmit sdk, emit_json sid payload)
      | CloseOutput sid message \<Rightarrow> (MethodHostStreamClose sdk, stream_close_json sid message))"

text \<open>A host that answers properly: no shutdown meanwhile, and buffers below 2 GiB.\<close>

definition answers_well :: "'w host_api \<Rightarrow> bool" where
  "answers_well h =
     (\<exists>call. ha_call h = Some call \<and>
        (\<forall>m q w. \<not> rp_shutdown (fst (call m q w)) \<and> length (rp_bytes (fst (call m q w))) < 2 ^ 31))"

lemma go_bytes_small:
  assumes "length mem < 2 ^ 31"
  shows "go_bytes mem = Some mem"
proof -
  have "signed_take_bit 31 (int (length mem)) = int (length mem)"
    using assms by (intro signed_take_bit_int_eq_self) simp_all
  then show ?thesis by (simp add: go_bytes_def c_int_def)
qed

lemma callHost_well:
  assumes "stored_host c = Some h" "answers_well h"
  shows "stored_host (snd (callHost sdk m (Inr rq) c)) = Some h \<and>
    host_calls (c_trace (snd (callHost sdk m (Inr rq) c))) = host_calls (c_trace c) @ [(m, rq)] \<and>
    fst (callHost sdk m (Inr rq) c) \<noteq> None"
proof -
  from assms(2) obtain call where call: "ha_call h = Some call"
    "\<And>m q w. \<not> rp_shutdown (fst (call m q w))" "\<And>m q w. length (rp_bytes (fst (call m q w))) < 2 ^ 31"
    by (auto simp: answers_well_def)
  obtain reply w where r: "call m rq (host_world c) = (reply, w)" by fastforce
  have l: "length (rp_bytes reply) < 2 ^ 31" using call(3) [of m rq "host_world c"] r by simp
  have "\<not> rp_shutdown reply" using call(2) [of m rq "host_world c"] r by simp
  moreover have "fst (callHost sdk m (Inr rq) c) \<noteq> None"
    using callHost_fst [OF assms(1) call(1) r] go_bytes_small [OF l] by simp
  ultimately show ?thesis using callHost_kept [OF assms(1) call(1) r] by simp
qed

lemma perform_well:
  assumes "stored_host c = Some h" "answers_well h"
  shows "stored_host (snd (perform sdk ev c)) = Some h \<and> fst (perform sdk ev c) = Some () \<and>
    host_calls (c_trace (snd (perform sdk ev c))) = host_calls (c_trace c) @ [event_call sdk ev]"
proof -
  obtain m rq where e: "event_call sdk ev = (m, rq)" by fastforce
  obtain r c1 where c: "callHost sdk m (Inr rq) c = (r, c1)" by fastforce
  from e c have "snd (perform sdk ev c) = c1" "fst (perform sdk ev c) = map_option (\<lambda>_. ()) r"
    by (cases ev; simp add: perform_def hostEmit_def hostCloseOutput_def then_decode_def event_call_def option.map_comp
        comp_def)+
  with callHost_well [OF assms, where sdk = sdk and m = m and rq = rq] e c show ?thesis by auto
qed

lemma perform_all_well:
  "stored_host c = Some h \<Longrightarrow> answers_well h \<Longrightarrow>
     fst (perform_all sdk evs c) = Some () \<and>
     host_calls (c_trace (snd (perform_all sdk evs c))) = host_calls (c_trace c) @ map (event_call sdk) evs"
proof (induction evs arbitrary: c)
  case (Cons ev evs)
  obtain c1 where p: "perform sdk ev c = (Some (), c1)" using perform_well [OF Cons.prems] by (metis prod.collapse)
  with perform_well [OF Cons.prems, of sdk ev] Cons.IH [of c1] Cons.prems(2) show ?case by simp
qed simp

lemma run_stream_shape:
  "\<exists>ps message. fst (run_stream send job sv) =
     map (Emit (er_StreamID (sj_request job))) ps @ [CloseOutput (er_StreamID (sj_request job)) message]"
  unfolding run_stream_def Let_def
  by (auto split: prod.split option.split intro: exI [of _ "[]"])


definition closing_job :: stream_job where
  "closing_job =
     \<lparr>sj_config = default_config [], sj_format = ''claude'', sj_model = ''auto'', sj_prompt = ''hi'',
      sj_request = sample_execute\<lparr>er_StreamID := ''s-1''\<rparr>\<rparr>"


end
