(* ===== verification/Lifecycle.thy ===== *)
theory Lifecycle
  imports Plugin
begin

section \<open>The life of the plugin: its invariant and what each method may change\<close>

text \<open>
  The components keep invariants of their own. Here they are put together: every state that the
  plugin reaches by calls of the host, in any order and with the goroutines of streams and logins
  in between, satisfies all of them.
\<close>

subsection \<open>The invariant of the service\<close>

definition service_inv :: "state \<Rightarrow> bool" where
  "service_inv sv =
     (cache_ok sv \<and> clean_trace {} 0 (trace sv) \<and> distinct (map fst (us_ByModel (sv_usage sv))) \<and>
      distinct (map fst (sv_logins sv)))"

text \<open>
  \<open>keeps_settings sv sv'\<close>: an operation that leads from \<open>sv\<close> to \<open>sv'\<close> changed neither the
  configuration nor the counters, and kept the invariant; \<open>keeps_sessions\<close>: nor the logins.
\<close>

definition keeps_settings :: "state \<Rightarrow> state \<Rightarrow> bool" where
  "keeps_settings sv sv' =
     (sv_config sv' = sv_config sv \<and> sv_usage sv' = sv_usage sv \<and> (service_inv sv \<longrightarrow> service_inv sv'))"

definition keeps_sessions :: "state \<Rightarrow> state \<Rightarrow> bool" where
  "keeps_sessions sv sv' = (keeps_settings sv sv' \<and> sv_logins sv' = sv_logins sv)"

lemma keeps_settings_refl [simp]: "keeps_settings sv sv"
  by (simp add: keeps_settings_def)

lemma keeps_settings_trans [trans]: "keeps_settings a b \<Longrightarrow> keeps_settings b c \<Longrightarrow> keeps_settings a c"
  by (simp add: keeps_settings_def)

lemma keeps_sessions_refl [simp]: "keeps_sessions sv sv"
  by (simp add: keeps_sessions_def)

lemma keeps_sessions_trans [trans]: "keeps_sessions a b \<Longrightarrow> keeps_sessions b c \<Longrightarrow> keeps_sessions a c"
  by (auto simp: keeps_sessions_def intro: keeps_settings_trans)

lemma keeps_same:
  assumes "same_service sv sv'" "clean_trace {} 0 (trace sv) \<Longrightarrow> clean_trace {} 0 (trace sv')"
  shows "keeps_sessions sv sv'"
  using assms cache_ok_same [OF assms(1)]
  by (auto simp: keeps_sessions_def keeps_settings_def service_inv_def same_service_def)

lemma keeps_quiet: "same_service sv sv' \<Longrightarrow> trace sv' = trace sv \<Longrightarrow> keeps_sessions sv sv'"
  by (rule keeps_same) simp_all

subsection \<open>The operations of the service\<close>

lemma modelInfos_state: "\<exists>n. snd (modelInfos ms pre sv) = sv\<lparr>ticks := n\<rparr>"
proof (induction ms arbitrary: sv)
  case Nil
  show ?case by (rule exI [of _ "ticks sv"]) simp
next
  case (Cons m ms)
  from Cons [of "snd (now sv)"] show ?case by (auto simp: Let_def split_beta)
qed

lemma modelInfos_keeps: "keeps_sessions sv (snd (modelInfos ms pre sv)) \<and> trace (snd (modelInfos ms pre sv)) = trace sv"
proof -
  from modelInfos_state obtain n where "snd (modelInfos ms pre sv) = sv\<lparr>ticks := n\<rparr>" by blast
  then show ?thesis by (simp add: keeps_quiet same_service_def)
qed

lemma staticModels_keeps: "keeps_sessions sv (snd (staticModels sv)) \<and> trace (snd (staticModels sv)) = trace sv"
  by (simp add: staticModels_def modelInfos_keeps)

lemma run_agent_keeps_sessions: "keeps_sessions sv (snd (run_agent cfg args stdin login sv))"
  by (rule keeps_same) (simp_all add: run_agent_clean)

lemma discover_keeps_sessions: "keeps_sessions sv (snd (discoverModels sv))"
proof -
  obtain r sv' where d: "discoverModels sv = (r, sv')" by fastforce
  then have "sv_logins sv' = sv_logins sv \<and> sv_usage sv' = sv_usage sv \<and> sv_config sv' = sv_config sv"
    by (cases rule: discover_cases) (simp_all add: same_service_def)
  moreover have "service_inv sv \<Longrightarrow> service_inv sv'"
    using d discover_keeps [of sv r sv'] discover_clean [of sv] calculation by (simp add: service_inv_def)
  ultimately show ?thesis using d by (simp add: keeps_sessions_def keeps_settings_def)
qed

lemma modelsForAuth_keeps: "keeps_sessions sv (snd (modelsForAuth sv))"
proof -
  have "keeps_sessions (snd (discoverModels sv)) (snd (modelsForAuth sv))"
    using modelInfos_keeps by (simp add: modelsForAuth_def Let_def split_beta)
  with discover_keeps_sessions show ?thesis by (rule keeps_sessions_trans)
qed

lemma resolve_keeps_sessions: "resolveModel req sv = (r, sv') \<Longrightarrow> keeps_sessions sv sv'"
  by (erule resolve_cases) (use discover_keeps_sessions [of sv] in auto)

lemma prepare_keeps_sessions: "prepare req sv = (r, sv') \<Longrightarrow> keeps_sessions sv sv'"
  by (erule prepare_state) (auto dest: resolve_keeps_sessions)

lemma execute_keeps_sessions: "keeps_sessions sv (snd (execute req sv))"
proof -
  obtain r sv' where e: "execute req sv = (r, sv')" by fastforce
  from e have "keeps_sessions sv sv'"
  proof (rule execute_state)
    fix r1 st1 st2 cfg args n
    assume p: "prepare req sv = (r1, st1)" and s: "st2 = snd (run_agent cfg args None False st1)"
      "sv' = st2\<lparr>ticks := n\<rparr>"
    have "keeps_sessions sv st1" using p by (rule prepare_keeps_sessions)
    also have "keeps_sessions st1 st2" unfolding s(1) by (rule run_agent_keeps_sessions)
    also have "keeps_sessions st2 sv'" unfolding s(2) by (rule keeps_quiet) (simp_all add: same_service_def)
    finally show ?thesis .
  qed (rule prepare_keeps_sessions)
  with e show ?thesis by simp
qed

lemma execute_stream_keeps: "keeps_sessions sv (snd (execute_stream streams req sv))"
  using prepare_keeps_sessions
  by (auto simp: execute_stream_def split: prod.splits sum.splits)

lemma run_stream_keeps: "keeps_sessions sv (snd (run_stream send job sv))"
proof -
  define ro where "ro = run_agent (sj_config job)
    (cursorPromptArgs (sj_model job) ''stream-json'' True (sj_prompt job)) None False sv"
  have "keeps_sessions sv (snd ro)" unfolding ro_def by (rule run_agent_keeps_sessions)
  also have "keeps_sessions (snd ro) (snd (run_stream send job sv))"
    by (rule keeps_quiet)
      (auto simp: run_stream_def ro_def [symmetric] now_def same_service_def Let_def split: prod.split option.split)
  finally show ?thesis .
qed

lemma auth_data_keeps: "keeps_sessions sv (snd (auth_data st f sv)) \<and> trace (snd (auth_data st f sv)) = trace sv"
  by (auto intro!: keeps_quiet auth_data_same) (simp_all add: auth_data_def Let_def now_def)

lemma tick_keeps: "keeps_sessions sv (sv\<lparr>ticks := n\<rparr>)"
  by (rule keeps_quiet) (simp_all add: same_service_def)

lemma before_tick: "keeps_sessions (sv\<lparr>ticks := n\<rparr>) sv' \<Longrightarrow> keeps_sessions sv sv'"
  by (rule keeps_sessions_trans [OF tick_keeps])

lemma after_tick: "keeps_sessions sv sv' \<Longrightarrow> keeps_sessions sv (sv'\<lparr>ticks := n\<rparr>)"
  by (rule keeps_sessions_trans [OF _ tick_keeps])

lemma parseAuth_keeps: "keeps_sessions sv (snd (parseAuth pr raw f sv)) \<and> trace (snd (parseAuth pr raw f sv)) = trace sv"
proof (cases "pr \<noteq> [] \<and> \<not> equal_fold pr providerID")
  case False
  let ?sv = "sv\<lparr>ticks := ticks sv + 1\<rparr>"
  obtain st where "snd (parseAuth pr raw f sv) = snd (auth_data st f ?sv)"
    using False by (simp add: parseAuth_def Let_def now_def split_beta)
  then show ?thesis using auth_data_keeps [of ?sv st f] before_tick [where sv = sv and n = "ticks sv + 1"] by simp
qed (simp add: parseAuth_def)

lemma statusStorage_keeps: "keeps_sessions sv (snd (statusStorage sv))"
  by (rule keeps_same) (simp_all add: statusStorage_same statusStorage_clean)

lemma refreshAuth_keeps: "keeps_sessions sv (snd (refreshAuth sv))"
proof -
  obtain r sv1 where s: "statusStorage sv = (r, sv1)" by fastforce
  have "keeps_sessions sv sv1" using statusStorage_keeps [of sv] s by simp
  moreover have "keeps_sessions sv1 (snd (refreshAuth sv))"
    using s by (cases r) (simp_all add: refreshAuth_def Let_def now_def split_beta after_tick auth_data_keeps)
  ultimately show ?thesis by (rule keeps_sessions_trans)
qed

lemma poll_finished_keeps: "keeps_sessions sv (snd (poll_finished sv))"
proof -
  obtain r sv1 where s: "statusStorage sv = (r, sv1)" by fastforce
  have "keeps_sessions sv sv1" using statusStorage_keeps [of sv] s by simp
  moreover have "keeps_sessions sv1 (snd (poll_finished sv))"
    using s by (cases r) (simp_all add: poll_finished_def Let_def split_beta auth_data_keeps)
  ultimately show ?thesis by (rule keeps_sessions_trans)
qed

lemma pollLogin_keeps: "keeps_sessions sv (snd (pollLogin key sv))"
  by (auto simp: pollLogin_def Let_def now_def tick_keeps intro: before_tick [OF poll_finished_keeps] split: option.split)

text \<open>Sessions are put under new names or changed in place; both keep the names distinct.\<close>

lemma put_session_keeps: "keeps_settings sv (put_session k s sv)"
  by (auto simp: keeps_settings_def service_inv_def put_session_def cache_ok_def put_entry_distinct)

lemma change_session_keeps: "keeps_settings sv (change_session k f sv)"
  by (simp add: change_session_def put_session_keeps split: option.split)

lemma login_found_keeps: "keeps_settings sv (login_found l sv)"
  by (simp add: login_found_def change_session_keeps split: option.split)

lemma emit_keeps: "clean_trace {} 0 ev \<Longrightarrow> keeps_sessions sv (emit ev sv)"
  by (rule keeps_same) (simp_all add: emit_def same_service_def clean_trace_append)

lemma login_exit_keeps: "clean_trace {} 0 (pl_events l) \<Longrightarrow> keeps_settings sv (login_exit l sv)"
  using keeps_settings_trans [OF _ change_session_keeps] emit_keeps [of "pl_events l" sv]
  by (simp add: login_exit_def keeps_sessions_def)

lemma fresh_login_keeps:
  assumes "fresh_login out_first in_time cfg sv = (resp, l, sv')"
  shows "keeps_settings sv sv' \<and> clean_trace {} 0 (pl_events l) \<and> trace sv' = trace sv"
proof -
  define os where "os = answers sv (calls sv)"
  obtain ev out u where r: "runAgentLoginStreaming os cfg out_first = (ev, out, u)" by (metis prod.collapse)
  let ?t = "clock sv (ticks sv)" and ?e = "clock sv (Suc (ticks sv)) + seconds 900"
    and ?s = "clock sv (Suc (Suc (ticks sv)))" and ?n = "Suc (Suc (Suc (ticks sv)))"
  let ?sv = "(put_session (login_key ?t) (session ?s ?e False) (sv\<lparr>ticks := ?n\<rparr>))\<lparr>calls := Suc (calls sv)\<rparr>"
  have f: "sv' = (if in_time then login_found l ?sv else ?sv)" "pl_events l = ev"
    using assms r by (auto simp: fresh_login_def Let_def now_def ask_def put_session_def os_def)
  have "keeps_settings sv (sv\<lparr>ticks := ?n\<rparr>)" using tick_keeps by (simp add: keeps_sessions_def)
  also have "keeps_settings (sv\<lparr>ticks := ?n\<rparr>) (put_session (login_key ?t) (session ?s ?e False) (sv\<lparr>ticks := ?n\<rparr>))"
    by (rule put_session_keeps)
  also have "keeps_settings \<dots> ?sv"
    by (simp add: keeps_settings_def service_inv_def cache_ok_def)
  also have "keeps_settings ?sv sv'" unfolding f(1) by (simp add: login_found_keeps)
  finally have k: "keeps_settings sv sv'" .
  moreover have "clean_trace {} 0 ev" using login_run_clean [of os cfg out_first] r by simp
  moreover have "trace sv' = trace sv"
    unfolding f(1) by (simp add: login_found_def put_session_def split: option.split)
  ultimately show ?thesis using f(2) by simp
qed

lemma authenticated_login_keeps: "keeps_settings sv (snd (authenticated_login sv))"
proof -
  have "keeps_settings (sv\<lparr>ticks := n\<rparr>) (put_session k s (sv\<lparr>ticks := n\<rparr>))" for n k s by (rule put_session_keeps)
  then show ?thesis
    using keeps_settings_trans tick_keeps
    by (simp add: authenticated_login_def Let_def now_def keeps_sessions_def) blast
qed

lemma startLogin_keeps:
  assumes "startLogin ip6 base out_first in_time sv = (r, sv')"
  shows "keeps_settings sv sv' \<and>
    (case r of Inr (resp, Some l) \<Rightarrow> clean_trace {} 0 (pl_events l) | _ \<Rightarrow> True)"
proof -
  define os where "os = answers sv (calls sv)"
  obtain ev exe where res: "resolveAgentExecutable os (sv_config sv) = (ev, exe)" by fastforce
  define sv2 where "sv2 = emit ev (sv\<lparr>calls := calls sv + 1\<rparr>)"
  obtain ps where "fst (resolveAgentExecutable os (sv_config sv)) = map MkdirAll ps"
    using resolve_events by blast
  moreover have "clean_trace {} 0 (map MkdirAll qs)" for qs by (induction qs) simp_all
  ultimately have "clean_trace {} 0 ev" using res by simp
  moreover have "keeps_sessions sv (sv\<lparr>calls := calls sv + 1\<rparr>)"
    by (rule keeps_quiet) (simp_all add: same_service_def)
  ultimately have "keeps_sessions sv sv2"
    unfolding sv2_def by (blast intro: emit_keeps keeps_sessions_trans)
  then have k2: "keeps_settings sv sv2" by (simp add: keeps_sessions_def)
  note start = assms [unfolded startLogin_def ask_def Let_def prod.case os_def [symmetric] res sv2_def [symmetric]]
  show ?thesis
  proof (cases exe)
    case (Inl e)
    have t: "keeps_settings sv2 (sv2\<lparr>ticks := n\<rparr>)" for n using tick_keeps by (simp add: keeps_sessions_def)
    have "sv' = sv2 \<or> sv' = sv2\<lparr>ticks := Suc (ticks sv2)\<rparr>" "\<forall>resp l. r \<noteq> Inr (resp, Some l)"
      using start Inl by (auto simp: now_def split: sum.splits)
    then show ?thesis using k2 t keeps_settings_trans by (auto split: sum.split option.split)
  next
    case (Inr path)
    obtain st sv3 where s: "statusStorage sv2 = (st, sv3)" by fastforce
    have "keeps_settings sv2 sv3" using statusStorage_keeps [of sv2] s by (simp add: keeps_sessions_def)
    with k2 have k3: "keeps_settings sv sv3" by (rule keeps_settings_trans)
    show ?thesis
    proof (cases "case st of Inr st \<Rightarrow> as_StatusKnown st \<and> as_Authenticated st | Inl e \<Rightarrow> False")
      case True
      with start Inr s have "sv' = snd (authenticated_login sv3)" "\<exists>resp. r = Inr (resp, None)"
        by (auto split: prod.splits)
      with k3 authenticated_login_keeps keeps_settings_trans show ?thesis by fastforce
    next
      case False
      with start Inr s obtain resp l where
        "fresh_login out_first in_time (sv_config sv) sv3 = (resp, l, sv')" "r = Inr (resp, Some l)"
        by (auto split: prod.splits)
      with k3 fresh_login_keeps keeps_settings_trans show ?thesis by fastforce
    qed
  qed
qed

lemma configure_inv: "service_inv sv \<Longrightarrow> service_inv (snd (configure yaml tmp raw sv))"
  using configure_cache configure_clean [of sv yaml tmp raw]
  by (auto simp: service_inv_def) (auto simp: configure_def ask_def emit_def Let_def split: sum.splits)

lemma shutdown_inv: "service_inv sv \<Longrightarrow> service_inv (shutdown sv)"
  by (simp add: service_inv_def shutdown_cache) (simp add: shutdown_def shutdownUsage_def)

lemma handle_usage_inv: "service_inv sv \<Longrightarrow> service_inv (handle_usage r sv)"
  using handle_usage_cache [of sv r]
  by (simp add: service_inv_def) (auto simp: handle_usage_def now_def record_distinct Let_def)

lemma new_service_inv: "service_inv (new_service tmp ans clk)"
  using new_service_cache by (simp add: service_inv_def) (simp add: new_service_def no_usage_def)

subsection \<open>What a method may change\<close>

definition effects :: "'a rpc_sdk_scheme \<Rightarrow> string \<Rightarrow> 'w plugin \<Rightarrow> 'w plugin \<Rightarrow> bool" where
  "effects sdk method p p' =
     (pg_cgo p' = pg_cgo p \<and>
      (sv_config (pg_service p') = sv_config (pg_service p) \<or>
         method = MethodPluginRegister sdk \<or> method = MethodPluginReconfigure sdk) \<and>
      (sv_usage (pg_service p') = sv_usage (pg_service p) \<or> method = MethodUsageHandle sdk) \<and>
      (sv_logins (pg_service p') = sv_logins (pg_service p) \<or> method = MethodAuthLoginStart sdk) \<and>
      (pg_disk p' = pg_disk p \<or> method = MethodManagementHandle sdk) \<and>
      (pg_streams p' = pg_streams p \<or> method = MethodExecutorExecuteStream sdk) \<and>
      (pg_logins p' = pg_logins p \<or> method = MethodAuthLoginStart sdk))"

definition plugin_inv :: "'w plugin \<Rightarrow> bool" where
  "plugin_inv p =
     (service_inv (pg_service p) \<and> list_all (\<lambda>l. clean_trace {} 0 (pl_events l)) (pg_logins p))"

text \<open>Both at once, for the parts of \<open>dispatch\<close>.\<close>

definition sound :: "'a rpc_sdk_scheme \<Rightarrow> string \<Rightarrow> 'w plugin \<Rightarrow> 'w plugin \<Rightarrow> bool" where
  "sound sdk method p p' = (effects sdk method p p' \<and> (plugin_inv p \<longrightarrow> plugin_inv p'))"

lemma sound_refl [simp]: "sound sdk method p p"
  by (simp add: sound_def effects_def)

lemma sound_request:
  "(\<And>q. sound sdk m p (snd (f q p))) \<Longrightarrow> sound sdk m p (snd (with_request d f p))"
  by (simp add: with_request_def split: sum.split)

lemma sound_serve:
  "keeps_sessions (pg_service p) (snd (f (pg_service p))) \<Longrightarrow> sound sdk m p (snd (serve f p))"
  by (auto simp: serve_def sound_def effects_def plugin_inv_def keeps_sessions_def keeps_settings_def split: prod.split)

lemma sound_configure:
  "m = MethodPluginRegister sdk \<or> m = MethodPluginReconfigure sdk \<Longrightarrow>
     sound sdk m p (snd (serve (rpc_configure sdk su yaml) p))"
proof -
  let ?sv = "snd (configure (su_yaml su) (su_tmp su) yaml (pg_service p))"
  assume m: "m = MethodPluginRegister sdk \<or> m = MethodPluginReconfigure sdk"
  have s: "snd (serve (rpc_configure sdk su yaml) p) = p\<lparr>pg_service := ?sv\<rparr>"
    by (simp add: serve_def rpc_configure_def split: prod.split option.split)
  have "sv_usage ?sv = sv_usage (pg_service p)" "sv_logins ?sv = sv_logins (pg_service p)"
    by (auto simp: configure_def ask_def emit_def Let_def split: sum.split)
  with m s show ?thesis
    using configure_inv [of "pg_service p" "su_yaml su" "su_tmp su" yaml]
    by (auto simp: sound_def effects_def plugin_inv_def)
qed

lemma sound_usage: "sound sdk (MethodUsageHandle sdk) p (snd (serve (\<lambda>st. (Inr x, handle_usage r st)) p))"
proof -
  have "sv_config (handle_usage r sv) = sv_config sv \<and> sv_logins (handle_usage r sv) = sv_logins sv" for sv
    by (simp add: handle_usage_def now_def Let_def)
  then show ?thesis
    using handle_usage_inv [of "pg_service p" r] by (auto simp: serve_def sound_def effects_def plugin_inv_def)
qed

lemma sound_login_start: "sound sdk (MethodAuthLoginStart sdk) p (snd (rpc_login_start su base p))"
proof -
  obtain r sv where s: "startLogin (su_ip6 su) base (su_out_first su) (su_in_time su) (pg_service p) = (r, sv)"
    by fastforce
  from startLogin_keeps [OF s] s show ?thesis
    by (cases r) (auto simp: rpc_login_start_def sound_def effects_def plugin_inv_def keeps_settings_def
        split: option.splits)
qed

lemma sound_execute_stream: "sound sdk (MethodExecutorExecuteStream sdk) p (snd (rpc_execute_stream req p))"
proof -
  obtain r sv where s: "execute_stream True req (pg_service p) = (r, sv)" by fastforce
  have "keeps_sessions (pg_service p) sv" using execute_stream_keeps [of "pg_service p" True req] s by simp
  with s show ?thesis
    by (cases r) (auto simp: rpc_execute_stream_def sound_def effects_def plugin_inv_def keeps_sessions_def keeps_settings_def)
qed

lemma sound_management: "sound sdk (MethodManagementHandle sdk) p (snd (rpc_management su req p))"
  by (auto simp: rpc_management_def sound_def effects_def plugin_inv_def split: prod.split)

lemma snd_apfst [simp]: "snd (apfst f x) = snd x"
  by (cases x) simp

lemma dispatch_sound: "sound sdk method p (snd (dispatch sdk su method request p))"
  unfolding dispatch_def
  by (simp add: sound_request sound_serve sound_configure sound_usage sound_login_start sound_execute_stream
      sound_management staticModels_keeps modelsForAuth_keeps parseAuth_keeps pollLogin_keeps refreshAuth_keeps
      execute_keeps_sessions split: prod.split)


subsection \<open>Reachable states\<close>

definition new_plugin :: "string \<Rightarrow> (nat \<Rightarrow> os_answers) \<Rightarrow> (nat \<Rightarrow> int) \<Rightarrow> disk \<Rightarrow> 'w \<Rightarrow> 'w plugin" where
  "new_plugin tmp ans clk d w =
     \<lparr>pg_service = new_service tmp ans clk, pg_disk = d,
      pg_cgo = \<lparr>stored_host = None, host_world = w, next_block = 1, c_trace = []\<rparr>,
      pg_streams = [], pg_logins = []\<rparr>"

text \<open>
  The steps: the entry points, in any order and with any arguments; the steps of the goroutines;
  and other programs, which change the disk as they like.
\<close>

inductive plugin_reach :: "'a rpc_sdk_scheme \<Rightarrow> 'g gjson \<Rightarrow> 'w plugin \<Rightarrow> 'w plugin \<Rightarrow> bool"
  for sdk :: "'a rpc_sdk_scheme" and G :: "'g gjson" and p0 :: "'w plugin" where
  start: "plugin_reach sdk G p0 p0"
| init: "plugin_reach sdk G p0 p \<Longrightarrow> cliproxy_plugin_init sdk host plugin p = (rc, api, p') \<Longrightarrow>
    plugin_reach sdk G p0 p'"
| call: "plugin_reach sdk G p0 p \<Longrightarrow> su_gjson su = G \<Longrightarrow>
    cliproxyPluginCall sdk su response method request p = (Some r, p') \<Longrightarrow> plugin_reach sdk G p0 p'"
| free: "plugin_reach sdk G p0 p \<Longrightarrow> plugin_reach sdk G p0 (p\<lparr>pg_cgo := cliproxyPluginFree ptr (pg_cgo p)\<rparr>)"
| shut: "plugin_reach sdk G p0 p \<Longrightarrow> plugin_reach sdk G p0 (cliproxyPluginShutdown p)"
| stream: "plugin_reach sdk G p0 p \<Longrightarrow> job \<in> set (pg_streams p) \<Longrightarrow>
    stream_goroutine sdk job p = (Some (), p') \<Longrightarrow> plugin_reach sdk G p0 p'"
| url_found: "plugin_reach sdk G p0 p \<Longrightarrow> l \<in> set (pg_logins p) \<Longrightarrow>
    plugin_reach sdk G p0 (p\<lparr>pg_service := login_found l (pg_service p)\<rparr>)"
| login_ends: "plugin_reach sdk G p0 p \<Longrightarrow> l \<in> set (pg_logins p) \<Longrightarrow>
    plugin_reach sdk G p0 (p\<lparr>pg_service := login_exit l (pg_service p), pg_logins := remove1 l (pg_logins p)\<rparr>)"
| others: "plugin_reach sdk G p0 p \<Longrightarrow> plugin_reach sdk G p0 (p\<lparr>pg_disk := d\<rparr>)"

lemma call_state:
  assumes "cliproxyPluginCall sdk su response method request p = (Some r, p')"
  obtains c where "p' = p\<lparr>pg_cgo := c\<rparr>"
  | m bytes c where "p' = (snd (dispatch sdk su m bytes p))\<lparr>pg_cgo := c\<rparr>"
proof (cases "method")
  case None
  with assms that(1) show thesis by (auto simp: cliproxyPluginCall_def split: prod.splits)
next
  case (Some m)
  then obtain bytes raw failed p1 c where "handleMethod sdk su m bytes p = (Some (raw, failed), p1)"
    "p' = p1\<lparr>pg_cgo := c\<rparr>"
    using assms by (auto simp: cliproxyPluginCall_def split: option.splits prod.splits if_splits)
  then show thesis using handleMethod_state [of sdk su m bytes p] that(2) by simp
qed

lemma plugin_inv_cgo [simp]: "plugin_inv (p\<lparr>pg_cgo := c\<rparr>) = plugin_inv p"
  by (simp add: plugin_inv_def)

lemma stream_goroutine_inv: "plugin_inv p \<Longrightarrow> plugin_inv (snd (stream_goroutine sdk job p))"
proof -
  assume p: "plugin_inv p"
  have "service_inv (snd (run_stream send job (pg_service p)))" for send
    using p run_stream_keeps [of "pg_service p" send job]
    by (simp add: plugin_inv_def keeps_sessions_def keeps_settings_def)
  with p show ?thesis
    by (auto simp: stream_goroutine_def plugin_inv_def Let_def split: prod.split) (metis snd_conv)
qed

lemma reach_inv:
  assumes "plugin_reach sdk G p0 p" "plugin_inv p0"
  shows "plugin_inv p"
  using assms
proof (induction rule: plugin_reach.induct)
  case (init p host plugin rc api p')
  then show ?case
    by (auto simp: cliproxy_plugin_init_def plugin_inv_def split: option.splits if_splits)
next
  case (call p su response meth request r p')
  from call(3) show ?case
  proof (cases rule: call_state)
    case (1 c)
    with call.IH call.prems show ?thesis by simp
  next
    case (2 m bytes c)
    with call.IH call.prems dispatch_sound [of sdk m p su bytes] show ?thesis by (simp add: sound_def)
  qed
next
  case (shut p)
  then show ?case by (simp add: cliproxyPluginShutdown_def plugin_inv_def shutdown_inv)
next
  case (stream p job p')
  then show ?case using stream_goroutine_inv [of p sdk job] by simp
next
  case (url_found p l)
  then show ?case
    using login_found_keeps [of "pg_service p" l] by (simp add: plugin_inv_def keeps_settings_def)
next
  case (login_ends p l)
  then have "clean_trace {} 0 (pl_events l)" by (auto simp: plugin_inv_def list_all_iff)
  with login_ends show ?case
    using login_exit_keeps [of l "pg_service p"] set_remove1_subset [of l "pg_logins p"]
    by (auto simp: plugin_inv_def keeps_settings_def list_all_iff)
qed (simp_all add: plugin_inv_def)



end
